(* ===== verification/Prelude.thy ===== *)
theory Prelude
  imports Main "HOL-Library.Word" "HOL-Library.Char_ord" "HOL-Library.List_Lexorder"
begin

unbundle bit_operations_syntax

text \<open>
  Shared vocabulary of the development: results of fallible operations, checked and saturating
  64-bit arithmetic, little-endian byte encodings, and the generic facts on lists, options and
  words that the component theories use.  The program is compiled for a 64-bit target, so
  \<open>usize\<close> and \<open>u64\<close> have the same range; counters of those types are natural numbers with the
  range check written out wherever the source checks it.
\<close>

section \<open>Results\<close>

text \<open>The source's \<open>Result<T, E>\<close> is a sum: \<open>Inl\<close> is \<open>Err\<close>, \<open>Inr\<close> is \<open>Ok\<close>.  \<open>bindr\<close> is the
  \<open>?\<close> operator; \<open>ensure\<close> is an early return guarded by a condition.\<close>

type_synonym ('e, 'a) result = "'e + 'a"

definition bindr :: "('e, 'a) result \<Rightarrow> ('a \<Rightarrow> ('e, 'b) result) \<Rightarrow> ('e, 'b) result" where
  "bindr r f = (case r of Inl e \<Rightarrow> Inl e | Inr x \<Rightarrow> f x)"

definition ensure :: "bool \<Rightarrow> 'e \<Rightarrow> ('e, unit) result" where
  "ensure c e = (if c then Inr () else Inl e)"

definition ok_or :: "'a option \<Rightarrow> 'e \<Rightarrow> ('e, 'a) result" where
  "ok_or x e = (case x of None \<Rightarrow> Inl e | Some v \<Rightarrow> Inr v)"

definition is_ok :: "('e, 'a) result \<Rightarrow> bool" where
  "is_ok r = (case r of Inl _ \<Rightarrow> False | Inr _ \<Rightarrow> True)"

text \<open>\<open>iter().map(f).collect::<Result<Vec<_>>>()\<close>: the first error wins.\<close>

fun collect_results :: "('e, 'a) result list \<Rightarrow> ('e, 'a list) result" where
  "collect_results [] = Inr []"
| "collect_results (r # rs) = bindr r (\<lambda>x. bindr (collect_results rs) (\<lambda>xs. Inr (x # xs)))"

text \<open>A \<open>for\<close> loop whose body may return an error early.\<close>

fun try_fold :: "('s \<Rightarrow> 'x \<Rightarrow> ('e, 's) result) \<Rightarrow> 's \<Rightarrow> 'x list \<Rightarrow> ('e, 's) result" where
  "try_fold body s [] = Inr s"
| "try_fold body s (x # xs) = bindr (body s x) (\<lambda>s'. try_fold body s' xs)"

named_theorems result_simps \<open>unfolding of the result combinators\<close>

lemma bindr_Inl [simp]: "bindr (Inl e) f = Inl e"
  by (simp add: bindr_def)

lemma bindr_Inr [simp]: "bindr (Inr x) f = f x"
  by (simp add: bindr_def)

text \<open>Evaluation by \<open>simp\<close> settles the first argument before it looks at the continuation.\<close>

lemma bindr_weak_cong: "r = r' \<Longrightarrow> bindr r f = bindr r' f"
  by simp

lemma bindr_eq_Inr [result_simps]: "bindr r f = Inr y \<longleftrightarrow> (\<exists>x. r = Inr x \<and> f x = Inr y)"
  by (cases r) simp_all

lemma bindr_eq_Inl [result_simps]:
  "bindr r f = Inl e \<longleftrightarrow> r = Inl e \<or> (\<exists>x. r = Inr x \<and> f x = Inl e)"
  by (cases r) simp_all

lemma ensure_True [simp]: "c \<Longrightarrow> ensure c e = Inr ()"
  by (simp add: ensure_def)

lemma ensure_False [simp]: "\<not> c \<Longrightarrow> ensure c e = Inl e"
  by (simp add: ensure_def)

lemma ensure_eq_Inr [result_simps]: "ensure c e = Inr u \<longleftrightarrow> c"
  by (simp add: ensure_def)

lemma ensure_eq_Inl [result_simps]: "ensure c e = Inl e' \<longleftrightarrow> \<not> c \<and> e' = e"
  by (auto simp: ensure_def)

lemma ok_or_Some [simp]: "ok_or (Some x) e = Inr x"
  by (simp add: ok_or_def)

lemma ok_or_None [simp]: "ok_or None e = Inl e"
  by (simp add: ok_or_def)

lemma ok_or_eq_Inr [result_simps]: "ok_or x e = Inr y \<longleftrightarrow> x = Some y"
  by (cases x) simp_all

lemma ok_or_eq_Inl [result_simps]: "ok_or x e = Inl e' \<longleftrightarrow> x = None \<and> e' = e"
  by (cases x) auto

lemma is_ok_simps [simp]: "is_ok (Inr x)" "\<not> is_ok (Inl e)"
  by (simp_all add: is_ok_def)

lemma is_ok_bindr: "is_ok (bindr r f) \<longleftrightarrow> (\<exists>x. r = Inr x \<and> is_ok (f x))"
  by (cases r) simp_all

lemma is_ok_conv: "is_ok r \<longleftrightarrow> (\<exists>x. r = Inr x)"
  by (cases r) simp_all

lemma collect_results_Inr:
  "collect_results rs = Inr xs \<longleftrightarrow> rs = map Inr xs"
  by (induction rs arbitrary: xs) (auto simp: result_simps Cons_eq_map_conv)

lemma collect_results_map_Inr [simp]: "collect_results (map (\<lambda>x. Inr (f x)) xs) = Inr (map f xs)"
  by (induction xs) simp_all

lemma collect_results_Inl:
  "collect_results rs = Inl e \<Longrightarrow> Inl e \<in> set rs"
  by (induction rs) (auto simp: result_simps)

lemma try_fold_append [simp]:
  "try_fold body s (xs @ ys) = bindr (try_fold body s xs) (\<lambda>s'. try_fold body s' ys)"
  by (induction xs arbitrary: s) (simp_all add: bindr_def split: sum.split)

lemma try_fold_invariant:
  assumes "try_fold body s xs = Inr s'" and "P s"
    and "\<And>s x s'. x \<in> set xs \<Longrightarrow> P s \<Longrightarrow> body s x = Inr s' \<Longrightarrow> P s'"
  shows "P s'"
  using assms by (induction xs arbitrary: s) (auto simp: result_simps)

lemma try_fold_Inl:
  assumes "try_fold body s xs = Inl e"
  obtains s' x where "x \<in> set xs" and "body s' x = Inl e"
  using assms by (induction xs arbitrary: s) (auto simp: result_simps)

lemma try_fold_unit_Inr:
  "try_fold body () xs = Inr u \<longleftrightarrow> (\<forall>x \<in> set xs. body () x = Inr ())"
  by (induction xs) (auto simp: result_simps)

section \<open>Checked and saturating arithmetic at 64 bits\<close>

abbreviation u64_limit :: nat where
  "u64_limit \<equiv> 2 ^ 64"

abbreviation u64_max :: nat where
  "u64_max \<equiv> 2 ^ 64 - 1"

definition checked_add :: "nat \<Rightarrow> nat \<Rightarrow> nat option" where
  "checked_add a b = (if a + b < u64_limit then Some (a + b) else None)"

definition checked_mul :: "nat \<Rightarrow> nat \<Rightarrow> nat option" where
  "checked_mul a b = (if a * b < u64_limit then Some (a * b) else None)"

definition checked_sub :: "nat \<Rightarrow> nat \<Rightarrow> nat option" where
  "checked_sub a b = (if b \<le> a then Some (a - b) else None)"

definition saturating_add :: "nat \<Rightarrow> nat \<Rightarrow> nat" where
  "saturating_add a b = min (a + b) u64_max"

definition saturating_mul :: "nat \<Rightarrow> nat \<Rightarrow> nat" where
  "saturating_mul a b = min (a * b) u64_max"

text \<open>\<open>saturating_sub\<close> on unsigned integers is subtraction on the natural numbers.\<close>

abbreviation (input) saturating_sub :: "nat \<Rightarrow> nat \<Rightarrow> nat" where
  "saturating_sub a b \<equiv> a - b"

definition div_ceil :: "nat \<Rightarrow> nat \<Rightarrow> nat" where
  "div_ceil a b = (a + b - 1) div b"

lemma checked_add_Some [result_simps]:
  "checked_add a b = Some c \<longleftrightarrow> c = a + b \<and> a + b < u64_limit"
  by (auto simp: checked_add_def)

lemma checked_add_None [result_simps]: "checked_add a b = None \<longleftrightarrow> u64_limit \<le> a + b"
  by (auto simp: checked_add_def)

lemma checked_mul_Some [result_simps]:
  "checked_mul a b = Some c \<longleftrightarrow> c = a * b \<and> a * b < u64_limit"
  by (auto simp: checked_mul_def)

lemma checked_sub_Some [result_simps]: "checked_sub a b = Some c \<longleftrightarrow> b \<le> a \<and> c = a - b"
  by (auto simp: checked_sub_def)

lemma saturating_add_le: "saturating_add a b \<le> a + b"
  by (simp add: saturating_add_def)

lemma saturating_add_exact: "a + b < u64_limit \<Longrightarrow> saturating_add a b = a + b"
  by (simp add: saturating_add_def min_def)

lemma div_ceil_8: "div_ceil n 8 = (n + 7) div 8"
  by (simp add: div_ceil_def)

section \<open>Bytes\<close>

type_synonym byte = "8 word"

text \<open>The bytes of a string literal, and the string a byte sequence spells.\<close>

definition ascii :: "string \<Rightarrow> byte list" where
  "ascii s = map of_char s"

definition unascii :: "byte list \<Rightarrow> string" where
  "unascii bytes = map (\<lambda>b. char_of (unat b)) bytes"

text \<open>\<open>to_le_bytes\<close> of an unsigned integer of \<open>k\<close> bytes, and \<open>from_le_bytes\<close>.\<close>

fun to_le :: "nat \<Rightarrow> nat \<Rightarrow> byte list" where
  "to_le 0 x = []"
| "to_le (Suc k) x = of_nat x # to_le k (x div 256)"

fun from_le :: "byte list \<Rightarrow> nat" where
  "from_le [] = 0"
| "from_le (b # bs) = unat b + 256 * from_le bs"

lemma length_to_le [simp]: "length (to_le k x) = k"
  by (induction k arbitrary: x) simp_all

lemma unat_less_2p: "unat (w :: 'a::len word) < 2 ^ LENGTH('a)"
  by (rule unsigned_less)

lemma unat_byte_bound: "unat (b :: byte) < 256"
  using unat_less_2p [of b] by simp

lemma unat_of_nat_byte: "unat (of_nat x :: byte) = x mod 256"
  by (simp add: unat_of_nat)

lemma unascii_ascii [simp]: "unascii (ascii s) = s"
proof -
  have "char_of (unat (of_char c :: byte)) = c" for c
  proof -
    have "unat (of_char c :: byte) = of_char c"
      using unat_of_nat_byte [of "of_char c"] by (simp add: of_nat_of_char)
    then show ?thesis by simp
  qed
  then show ?thesis by (simp add: unascii_def ascii_def map_idI)
qed

lemma from_le_to_le: "from_le (to_le k x) = x mod 256 ^ k"
proof (induction k arbitrary: x)
  case 0
  show ?case by simp
next
  case (Suc k)
  have "from_le (to_le (Suc k) x) = x mod 256 + 256 * (x div 256 mod 256 ^ k)"
    by (simp add: Suc unat_of_nat_byte)
  also have "\<dots> = x mod (256 * 256 ^ k)"
    by (simp add: mod_mult2_eq)
  finally show ?case by simp
qed

lemma from_le_bound: "from_le bs < 256 ^ length bs"
proof (induction bs)
  case (Cons b bs)
  have "unat b \<le> 255"
    using unat_byte_bound [of b] by simp
  moreover have "256 * from_le bs + 256 \<le> 256 * 256 ^ length bs"
    using Cons by simp
  ultimately show ?case by simp
qed simp

lemma to_le_from_le: "to_le (length bs) (from_le bs) = bs"
proof (induction bs)
  case (Cons b bs)
  have b: "unat b < 256" using unat_byte_bound [of b] by simp
  have 1: "(of_nat (unat b + 256 * from_le bs) :: byte) = b"
  proof (rule word_unat_eq_iff [THEN iffD2])
    show "unat (of_nat (unat b + 256 * from_le bs) :: byte) = unat b"
      using b by (simp only: unat_of_nat_byte) simp
  qed
  have "(unat b + 256 * from_le bs) div 256 = from_le bs"
    using b by simp
  with Cons 1 show ?case by simp
qed simp

lemma from_le_append: "from_le (xs @ ys) = from_le xs + 256 ^ length xs * from_le ys"
  by (induction xs) (simp_all add: algebra_simps)

text \<open>Fields of the binary headers: \<open>u16\<close>, \<open>u32\<close>, \<open>u64\<close> and \<open>i64\<close> in little-endian order.  An
  \<open>i64\<close> is a 64-bit word read as two's complement.\<close>

type_synonym i64 = "64 word"

definition i64_to_le :: "i64 \<Rightarrow> byte list" where
  "i64_to_le v = to_le 8 (unat v)"

definition i64_from_le :: "byte list \<Rightarrow> i64" where
  "i64_from_le bs = of_nat (from_le bs)"

lemma length_i64_to_le [simp]: "length (i64_to_le v) = 8"
  by (simp add: i64_to_le_def)

lemma i64_from_to_le [simp]: "i64_from_le (i64_to_le v) = v"
proof -
  have "unat v < 2 ^ 64" using unat_less_2p [of v] by simp
  then have "unat v mod 256 ^ 8 = unat v" by simp
  then show ?thesis by (simp add: i64_to_le_def i64_from_le_def from_le_to_le)
qed

lemma from_to_le_exact: "x < 256 ^ k \<Longrightarrow> from_le (to_le k x) = x"
  by (simp add: from_le_to_le)

text \<open>Slicing: \<open>bytes.get(a..b)\<close> is \<open>None\<close> when the range leaves the slice.\<close>

definition slice :: "'a list \<Rightarrow> nat \<Rightarrow> nat \<Rightarrow> 'a list option" where
  "slice xs a b = (if a \<le> b \<and> b \<le> length xs then Some (take (b - a) (drop a xs)) else None)"

lemma slice_Some [result_simps]:
  "slice xs a b = Some ys \<longleftrightarrow> a \<le> b \<and> b \<le> length xs \<and> ys = take (b - a) (drop a xs)"
  by (auto simp: slice_def)

lemma slice_append_exact:
  "slice (xs @ ys @ zs) (length xs) (length xs + length ys) = Some ys"
  by (simp add: slice_def)

section \<open>Bits of words\<close>

lemma unat_push_bit_small:
  fixes w :: "'a::len word"
  assumes "unat w * 2 ^ k < 2 ^ LENGTH('a)"
  shows "unat (push_bit k w) = unat w * 2 ^ k"
proof -
  have "unat (push_bit k w) = take_bit LENGTH('a) (push_bit k (unat w))"
    by (simp add: unsigned_push_bit_eq)
  also have "\<dots> = unat w * 2 ^ k"
    using assms by (simp add: push_bit_eq_mult take_bit_eq_mod)
  finally show ?thesis .
qed

lemma unat_drop_bit: "unat (drop_bit k (w :: 'a::len word)) = unat w div 2 ^ k"
  by (metis drop_bit_eq_div unsigned_drop_bit_eq take_bit_nat_eq_self unat_less_2p)

lemma nat_or_disjoint:
  fixes a b :: nat
  assumes "a < 2 ^ k"
  shows "a OR push_bit k b = a + push_bit k b"
proof (rule sym, rule disjunctive_add)
  fix n
  have "take_bit k a = a" using assms by (simp add: take_bit_nat_eq_self_iff)
  then show "\<not> bit a n \<or> \<not> bit (push_bit k b) n"
    by (metis bit_push_bit_iff bit_take_bit_iff linorder_not_less)
qed

lemma unat_or_shifted:
  fixes a b :: "'a::len word"
  assumes "unat a < 2 ^ k" and "unat b * 2 ^ k < 2 ^ LENGTH('a)"
  shows "unat (a OR push_bit k b) = unat a + unat b * 2 ^ k"
proof -
  have "unat (a OR push_bit k b) = unat a OR unat (push_bit k b)"
    by (simp add: unsigned_or_eq)
  also have "unat (push_bit k b) = push_bit k (unat b)"
    using unat_push_bit_small [OF assms(2)] by (simp add: push_bit_eq_mult)
  also have "unat a OR push_bit k (unat b) = unat a + push_bit k (unat b)"
    using assms(1) by (rule nat_or_disjoint)
  finally show ?thesis by (simp add: push_bit_eq_mult)
qed

lemma shift_add_bound:
  fixes a b :: nat
  assumes "a < 2 ^ k" and "b < 2 ^ j"
  shows "a + b * 2 ^ k < 2 ^ (k + j)"
proof -
  have "(b + 1) * 2 ^ k \<le> 2 ^ j * 2 ^ k"
    using assms(2) by (intro mult_le_mono1) simp
  then have "b * 2 ^ k + 2 ^ k \<le> 2 ^ (k + j)"
    by (simp only: add_mult_distrib power_add mult_1 mult.commute)
  with assms(1) show ?thesis by linarith
qed

lemma unat_and_mask: "unat (w AND mask k :: 'a::len word) = unat w mod 2 ^ k"
  by (metis take_bit_eq_mask take_bit_eq_mod unsigned_take_bit_eq)

end
