(* ===== verification/Sidecar_Types.thy ===== *)
theory Sidecar_Types
  imports Prelude
begin

text \<open>
  Logical types of the predicate sidecar blocks
  (\<open>src/storage/native/segment/predicate_sidecar/logical_type.rs\<close>) and the error type of that
  module (\<open>mod.rs\<close>).  Message texts are not modelled; a panic that the source could raise by an
  out-of-range index is the extra value \<open>Panicked\<close>, and theorems show it is never produced.
\<close>

datatype predicate_type =
    Int8 | Int16 | Int32 | Int64 | Date32
  | Decimal128 (precision: byte) (scale: byte)

text \<open>The Arrow types the code distinguishes; every other Arrow type is \<open>ArrowOther\<close>.\<close>

datatype arrow_type =
    ArrowInt8 | ArrowInt16 | ArrowInt32 | ArrowInt64 | ArrowDate32
  | ArrowDecimal128 byte byte
  | ArrowOther

datatype sidecar_error =
    UnsupportedType
  | ValueOutOfRange predicate_type i64
  | Corrupt
  | TooLarge
  | Panicked

definition from_arrow :: "arrow_type \<Rightarrow> (sidecar_error, predicate_type) result" where
  "from_arrow t = (case t of
       ArrowInt8 \<Rightarrow> Inr Int8
     | ArrowInt16 \<Rightarrow> Inr Int16
     | ArrowInt32 \<Rightarrow> Inr Int32
     | ArrowInt64 \<Rightarrow> Inr Int64
     | ArrowDate32 \<Rightarrow> Inr Date32
     | ArrowDecimal128 p s \<Rightarrow> (if p \<le> 18 then Inr (Decimal128 p s) else Inl UnsupportedType)
     | ArrowOther \<Rightarrow> Inl UnsupportedType)"

fun raw_width :: "predicate_type \<Rightarrow> nat" where
  "raw_width Int8 = 1"
| "raw_width Int16 = 2"
| "raw_width Int32 = 4"
| "raw_width Date32 = 4"
| "raw_width Int64 = 8"
| "raw_width (Decimal128 p s) = 16"

fun validate_type :: "predicate_type \<Rightarrow> (sidecar_error, unit) result" where
  "validate_type (Decimal128 p s) = (if \<not> (1 \<le> p \<and> p \<le> 18) then Inl UnsupportedType else Inr ())"
| "validate_type _ = Inr ()"

text \<open>\<open>i8::try_from\<close>, \<open>i16::try_from\<close>, \<open>i32::try_from\<close> succeed exactly on the narrow type's range.\<close>

definition fits_signed :: "nat \<Rightarrow> i64 \<Rightarrow> bool" where
  "fits_signed bits v \<longleftrightarrow> - (2 ^ (bits - 1)) \<le> sint v \<and> sint v < 2 ^ (bits - 1)"

fun value_valid :: "predicate_type \<Rightarrow> i64 \<Rightarrow> bool" where
  "value_valid Int8 v = fits_signed 8 v"
| "value_valid Int16 v = fits_signed 16 v"
| "value_valid Int32 v = fits_signed 32 v"
| "value_valid Date32 v = fits_signed 32 v"
| "value_valid Int64 v = True"
| "value_valid (Decimal128 p s) v =
     (let limit = 10 ^ unat p in sint v > - limit \<and> sint v < limit)"

definition validate_value :: "predicate_type \<Rightarrow> i64 \<Rightarrow> (sidecar_error, unit) result" where
  "validate_value t v = (if value_valid t v then Inr () else Inl (ValueOutOfRange t v))"

fun format_parts :: "predicate_type \<Rightarrow> byte \<times> byte \<times> byte" where
  "format_parts Int8 = (1, 0, 0)"
| "format_parts Int16 = (2, 0, 0)"
| "format_parts Int32 = (3, 0, 0)"
| "format_parts Int64 = (4, 0, 0)"
| "format_parts Date32 = (5, 0, 0)"
| "format_parts (Decimal128 p s) = (6, p, s)"

definition from_format :: "byte \<Rightarrow> byte \<Rightarrow> byte \<Rightarrow> (sidecar_error, predicate_type) result" where
  "from_format tag p s =
     (if tag \<noteq> 6 \<and> (p \<noteq> 0 \<or> s \<noteq> 0) then Inl Corrupt
      else bindr
        (if tag = 1 then Inr Int8
         else if tag = 2 then Inr Int16
         else if tag = 3 then Inr Int32
         else if tag = 4 then Inr Int64
         else if tag = 5 then Inr Date32
         else if tag = 6 then Inr (Decimal128 p s)
         else Inl Corrupt)
        (\<lambda>t. bindr (validate_type t) (\<lambda>_. Inr t)))"

lemma from_format_parts:
  assumes "validate_type t = Inr ()"
  shows "(case format_parts t of (tag, p, s) \<Rightarrow> from_format tag p s) = Inr t"
  using assms by (cases t) (auto simp: from_format_def)

lemma from_format_validates:
  "from_format tag p s = Inr t \<Longrightarrow> validate_type t = Inr () \<and> format_parts t = (tag, p, s)"
  by (auto simp: from_format_def result_simps split: if_splits)

lemma validate_value_Inr [result_simps]: "validate_value t v = Inr u \<longleftrightarrow> value_valid t v"
  by (simp add: validate_value_def)

lemma validate_value_not_panicked [simp]: "validate_value t v \<noteq> Inl Panicked"
  by (simp add: validate_value_def)

end
