(* ===== verification/Bitpack.thy ===== *)
theory Bitpack
  imports Sidecar_Types
begin

text \<open>
  Bit packing of the predicate sidecar (\<open>predicate_sidecar/bitpack.rs\<close>): \<open>bit_width\<close>,
  \<open>packed_len\<close>, the packing loop with its 128-bit buffer, and the \<open>PackedValues\<close> iterator that
  streams the values back.  The main facts are that unpacking a packed list returns the list,
  and that the iterator never indexes outside its payload.
\<close>

section \<open>Definitions\<close>

text \<open>\<open>64 - leading_zeros\<close>: the number of significant bits.\<close>

fun significant_bits :: "nat \<Rightarrow> nat" where
  "significant_bits n = (if n = 0 then 0 else Suc (significant_bits (n div 2)))"

declare significant_bits.simps [simp del]

definition bit_width :: "64 word \<Rightarrow> nat" where
  "bit_width v = (if v = 0 then 0 else significant_bits (unat v))"

definition packed_len :: "nat \<Rightarrow> nat \<Rightarrow> (sidecar_error, nat) result" where
  "packed_len value_count width =
     (if width > 64 then Inl Corrupt
      else ok_or
        (map_option (\<lambda>bits. bits div 8)
          (Option.bind (checked_mul value_count width) (\<lambda>bits. checked_add bits 7)))
        TooLarge)"

text \<open>The inner loop of \<open>pack\<close>: emit whole bytes from the low end of the buffer.\<close>

fun flush_bytes :: "128 word \<Rightarrow> nat \<Rightarrow> byte list \<Rightarrow> byte list \<times> 128 word \<times> nat" where
  "flush_bytes buffer buffered output =
     (if buffered \<ge> 8
      then flush_bytes (drop_bit 8 buffer) (buffered - 8) (output @ [ucast buffer])
      else (output, buffer, buffered))"

declare flush_bytes.simps [simp del]

text \<open>The outer loop; \<open>buffered\<close> is a \<open>u8\<close> and its addition is checked.\<close>

fun pack_loop ::
  "nat \<Rightarrow> 64 word list \<Rightarrow> 128 word \<Rightarrow> nat \<Rightarrow> byte list \<Rightarrow> (sidecar_error, byte list) result" where
  "pack_loop width [] buffer buffered output =
     Inr (if buffered \<noteq> 0 then output @ [ucast buffer] else output)"
| "pack_loop width (value # values) buffer buffered output =
     (if width < 64 \<and> value \<ge> push_bit width 1 then Inl Corrupt
      else if buffered + width \<ge> 256 then Inl TooLarge
      else case flush_bytes (buffer OR push_bit buffered (ucast value)) (buffered + width) output of
        (output', buffer', buffered') \<Rightarrow> pack_loop width values buffer' buffered' output')"

definition pack :: "64 word list \<Rightarrow> nat \<Rightarrow> (sidecar_error, byte list) result" where
  "pack values width =
     bindr (packed_len (length values) width) (\<lambda>_. pack_loop width values 0 0 [])"

record packed_values =
  pv_bytes :: "byte list"
  pv_remaining :: nat
  pv_width :: nat
  pv_byte_offset :: nat
  pv_buffer :: "128 word"
  pv_buffered :: nat
  pv_mask :: "128 word"

text \<open>\<open>!((1 << used) - 1)\<close> on a byte.\<close>

definition padding_mask :: "nat \<Rightarrow> byte" where
  "padding_mask used = NOT (push_bit used 1 - 1)"

definition value_mask :: "nat \<Rightarrow> 128 word" where
  "value_mask width =
     (if width = 0 then 0
      else if width = 64 then of_nat u64_max
      else push_bit width 1 - 1)"

definition packed_new ::
  "byte list \<Rightarrow> nat \<Rightarrow> nat \<Rightarrow> (sidecar_error, packed_values) result" where
  "packed_new bytes value_count width =
     bindr (packed_len value_count width) (\<lambda>expected.
     if length bytes \<noteq> expected then Inl Corrupt
     else bindr (ok_or (checked_mul value_count width) TooLarge) (\<lambda>bits.
     let used_bits = bits mod 8 in
     if used_bits \<noteq> 0 \<and> bytes \<noteq> [] \<and> last bytes AND padding_mask used_bits \<noteq> 0 then Inl Corrupt
     else Inr \<lparr>pv_bytes = bytes, pv_remaining = value_count, pv_width = width,
               pv_byte_offset = 0, pv_buffer = 0, pv_buffered = 0, pv_mask = value_mask width\<rparr>))"

text \<open>The refill loop of \<open>next\<close>; \<open>None\<close> is the panic of an index outside the payload.\<close>

function refill ::
  "byte list \<Rightarrow> nat \<Rightarrow> nat \<Rightarrow> 128 word \<Rightarrow> nat \<Rightarrow> (nat \<times> 128 word \<times> nat) option" where
  "refill bytes width offset buffer buffered =
     (if buffered < width then
        (if offset < length bytes
         then refill bytes width (offset + 1) (buffer OR push_bit buffered (ucast (bytes ! offset)))
                (buffered + 8)
         else None)
      else Some (offset, buffer, buffered))"
  by pat_completeness auto
termination
  by (relation "measure (\<lambda>(bytes, width, offset, buffer, buffered). width - buffered)") auto

declare refill.simps [simp del]

definition packed_next ::
  "packed_values \<Rightarrow> (64 word option \<times> packed_values) option" where
  "packed_next pv =
     (if pv_remaining pv = 0 then Some (None, pv)
      else case refill (pv_bytes pv) (pv_width pv) (pv_byte_offset pv) (pv_buffer pv)
                  (pv_buffered pv) of
        None \<Rightarrow> None
      | Some (offset, buffer, buffered) \<Rightarrow>
          Some (Some (ucast (buffer AND pv_mask pv)),
                pv\<lparr>pv_byte_offset := offset,
                   pv_buffer := drop_bit (pv_width pv) buffer,
                   pv_buffered := buffered - pv_width pv,
                   pv_remaining := pv_remaining pv - 1\<rparr>))"

text \<open>\<open>collect\<close>: call \<open>next\<close> until it returns \<open>None\<close>; each call with values left uses one up.\<close>

lemma packed_next_decreases:
  "packed_next pv = Some (Some v, pv') \<Longrightarrow> pv_remaining pv' < pv_remaining pv"
  by (auto simp: packed_next_def split: if_splits option.splits)

function packed_collect :: "packed_values \<Rightarrow> 64 word list option" where
  "packed_collect pv = (case packed_next pv of
       None \<Rightarrow> None
     | Some (None, pv') \<Rightarrow> Some []
     | Some (Some v, pv') \<Rightarrow> map_option ((#) v) (packed_collect pv'))"
  by pat_completeness auto
termination
  by (relation "measure pv_remaining") (auto dest: packed_next_decreases)

declare packed_collect.simps [simp del]

definition unpack :: "byte list \<Rightarrow> nat \<Rightarrow> nat \<Rightarrow> (sidecar_error, 64 word list) result" where
  "unpack bytes value_count width =
     bindr (packed_new bytes value_count width) (\<lambda>pv. ok_or (packed_collect pv) Panicked)"


section \<open>Packed lists as numbers\<close>

text \<open>A packed list is one number: value \<open>i\<close> sits at bit \<open>i * width\<close>.  Packing writes its bytes,
  unpacking reads its digits in base \<open>2 ^ width\<close>.\<close>

fun stream :: "nat \<Rightarrow> 64 word list \<Rightarrow> nat" where
  "stream w [] = 0"
| "stream w (v # vs) = unat v + 2 ^ w * stream w vs"

fun digits :: "nat \<Rightarrow> nat \<Rightarrow> nat \<Rightarrow> 64 word list" where
  "digits w 0 r = []"
| "digits w (Suc n) r = of_nat (r mod 2 ^ w) # digits w n (r div 2 ^ w)"

definition values_fit :: "nat \<Rightarrow> 64 word list \<Rightarrow> bool" where
  "values_fit w vs \<longleftrightarrow> (\<forall>v\<in>set vs. unat v < 2 ^ w)"

lemma values_fit_simps [simp]:
  "values_fit w []"
  "values_fit w (v # vs) \<longleftrightarrow> unat v < 2 ^ w \<and> values_fit w vs"
  by (auto simp: values_fit_def)

lemma length_digits [simp]: "length (digits w n r) = n"
  by (induction n arbitrary: r) simp_all

lemma digits_stream: "values_fit w vs \<Longrightarrow> digits w (length vs) (stream w vs) = vs"
  by (induction vs) simp_all

lemma stream_bound: "values_fit w vs \<Longrightarrow> stream w vs < 2 ^ (w * length vs)"
proof (induction vs)
  case (Cons v vs)
  then have "stream w vs + 1 \<le> 2 ^ (w * length vs)" and v: "unat v < 2 ^ w" by simp_all
  then have "2 ^ w * (stream w vs + 1) \<le> 2 ^ w * 2 ^ (w * length vs)"
    by (intro mult_le_mono2)
  with v show ?case by (simp add: power_add distrib_left)
qed simp

section \<open>Packing\<close>

lemma unat_ucast_byte: "unat (ucast (b :: 128 word) :: byte) = unat b mod 256"
  by (simp add: unsigned_ucast_eq take_bit_eq_mod)

lemma unat_ucast_u64 [simp]: "unat (ucast (v :: 64 word) :: 128 word) = unat v"
  by (simp add: unsigned_ucast_eq take_bit_nat_eq_self unat_less_2p [THEN less_trans])

lemma unat_ucast_u8 [simp]: "unat (ucast (v :: byte) :: 128 word) = unat v"
  by (simp add: unsigned_ucast_eq take_bit_nat_eq_self unat_less_2p [THEN less_trans])

text \<open>What the bytes written so far and the buffer represent together.\<close>

definition pending :: "byte list \<Rightarrow> 128 word \<Rightarrow> nat" where
  "pending out buffer = from_le out + 256 ^ length out * unat buffer"

lemma flush_bytes_spec:
  assumes "unat buffer < 2 ^ buffered"
    and "flush_bytes buffer buffered out = (out', buffer', buffered')"
  shows "buffered' = buffered mod 8 \<and> unat buffer' < 2 ^ buffered'
         \<and> length out' = length out + buffered div 8 \<and> pending out' buffer' = pending out buffer"
  using assms
proof (induction buffer buffered out rule: flush_bytes.induct)
  case (1 buffer buffered out)
  show ?case
  proof (cases "buffered \<ge> 8")
    case True
    have "(2 :: nat) ^ buffered = 2 ^ (buffered - 8) * 2 ^ 8"
      using True by (simp only: power_add [symmetric]) simp
    then have "unat (drop_bit 8 buffer) < 2 ^ (buffered - 8)"
      using "1.prems"(1) by (simp add: unat_drop_bit less_mult_imp_div_less)
    moreover have "flush_bytes (drop_bit 8 buffer) (buffered - 8) (out @ [ucast buffer])
                   = (out', buffer', buffered')"
      using "1.prems"(2) True by (simp add: flush_bytes.simps [of buffer])
    moreover have "pending (out @ [ucast buffer]) (drop_bit 8 buffer) = pending out buffer"
    proof -
      have "k * m + 256 * (k * d) = k * (m + 256 * d)" for k m d :: nat
        by (simp add: distrib_left mult.left_commute)
      then show ?thesis
        by (simp add: pending_def from_le_append unat_drop_bit unat_ucast_byte mult.assoc)
    qed
    moreover have "buffered mod 8 = (buffered - 8) mod 8" "buffered div 8 = Suc ((buffered - 8) div 8)"
      using True by (simp_all add: le_mod_geq le_div_geq)
    ultimately show ?thesis using "1.IH" [OF True] by auto
  next
    case False
    with "1.prems" show ?thesis by (simp add: flush_bytes.simps [of buffer])
  qed
qed


lemma pack_step_buffer:
  fixes v :: "64 word"
  assumes "buffered < 8" and "unat buffer < 2 ^ buffered" and "width \<le> 64" and "unat v < 2 ^ width"
  shows "unat (buffer OR push_bit buffered (ucast v :: 128 word)) = unat buffer + unat v * 2 ^ buffered
         \<and> unat buffer + unat v * 2 ^ buffered < 2 ^ (buffered + width)"
proof
  have "unat v < 2 ^ 64" using unat_less_2p [of v] by simp
  moreover have "(2 :: nat) ^ buffered \<le> 2 ^ 7" using assms(1) by (intro power_increasing) simp_all
  ultimately have "unat v * 2 ^ buffered < 2 ^ 128"
    using mult_le_mono [of "unat v" "2 ^ 64 - 1" "2 ^ buffered" "2 ^ 7"] by simp
  then show "unat (buffer OR push_bit buffered (ucast v :: 128 word)) = unat buffer + unat v * 2 ^ buffered"
    using assms(2) by (subst unat_or_shifted) simp_all
  show "unat buffer + unat v * 2 ^ buffered < 2 ^ (buffered + width)"
    using assms(2,4) by (rule shift_add_bound)
qed

lemma width_check:
  assumes "unat (v :: 64 word) < 2 ^ width"
  shows "\<not> (width < 64 \<and> push_bit width 1 \<le> v)"
proof
  assume w: "width < 64 \<and> push_bit width 1 \<le> v"
  have "(2 :: nat) ^ width < 2 ^ 64" using w by (intro power_strict_increasing) simp_all
  then have "unat (push_bit width 1 :: 64 word) = 2 ^ width"
    by (subst unat_push_bit_small) simp_all
  with w assms show False by (simp add: word_le_nat_alt)
qed

lemma div_8_carry: "a div 8 + (a mod 8 + m + 7) div 8 = (a + m + 7) div (8 :: nat)"
proof -
  have "(a + m + 7) div 8 = (8 * (a div 8) + (a mod 8 + m + 7)) div 8"
    by (rule arg_cong [of _ _ "\<lambda>x. x div 8"]) simp
  also have "\<dots> = a div 8 + (a mod 8 + m + 7) div 8"
    by (rule div_mult_self4) simp
  finally show ?thesis by (rule sym)
qed

lemma pack_loop_spec:
  assumes "width \<le> 64" and "values_fit width vs" and "buffered < 8" and "unat buffer < 2 ^ buffered"
  shows "\<exists>bytes. pack_loop width vs buffer buffered out = Inr bytes
    \<and> length bytes = length out + (buffered + width * length vs + 7) div 8
    \<and> from_le bytes = from_le out + 256 ^ length out * (unat buffer + 2 ^ buffered * stream width vs)"
  using assms
proof (induction vs arbitrary: buffer buffered out)
  case Nil
  have "(2 :: nat) ^ buffered \<le> 2 ^ 7" using Nil.prems(3) by (intro power_increasing) simp_all
  then have "unat buffer mod 256 = unat buffer" using Nil.prems(4) by simp
  with Nil.prems show ?case
    by (auto simp: from_le_append unat_ucast_byte)
next
  case (Cons v vs)
  let ?b = "buffer OR push_bit buffered (ucast v :: 128 word)"
  obtain out' buffer' buffered' where
    fl: "flush_bytes ?b (buffered + width) out = (out', buffer', buffered')"
    by (cases "flush_bytes ?b (buffered + width) out")
  from Cons.prems have v: "unat v < 2 ^ width" and vs: "values_fit width vs" by simp_all
  note step = pack_step_buffer [OF Cons.prems(3,4,1) v]
  from step have b: "unat ?b < 2 ^ (buffered + width)" by simp
  note fs = flush_bytes_spec [OF b fl]
  have "pack_loop width (v # vs) buffer buffered out = pack_loop width vs buffer' buffered' out'"
    using width_check [OF v] Cons.prems(1,3) fl by auto
  moreover obtain bytes where
    "pack_loop width vs buffer' buffered' out' = Inr bytes"
    "length bytes = length out' + (buffered' + width * length vs + 7) div 8"
    "from_le bytes = from_le out' + 256 ^ length out' * (unat buffer' + 2 ^ buffered' * stream width vs)"
    using Cons.IH [OF Cons.prems(1) vs, of buffered' buffer' out'] fs by auto
  moreover have "length out' + (buffered' + width * length vs + 7) div 8
      = length out + (buffered + width * length (v # vs) + 7) div 8"
    using fs div_8_carry [of "buffered + width" "width * length vs"] by simp
  moreover have "from_le out' + 256 ^ length out' * (unat buffer' + 2 ^ buffered' * stream width vs)
      = from_le out + 256 ^ length out * (unat buffer + 2 ^ buffered * stream width (v # vs))"
  proof -
    have p: "from_le out' + 256 ^ length out' * unat buffer'
             = from_le out + 256 ^ length out * (unat buffer + unat v * 2 ^ buffered)"
      using fs step by (auto simp: pending_def)
    have "(256 :: nat) ^ length out' * 2 ^ buffered' = 256 ^ length out * 2 ^ (buffered + width)"
    proof -
      have "(256 :: nat) ^ length out' * 2 ^ buffered'
            = 256 ^ length out * (2 ^ (8 * ((buffered + width) div 8)) * 2 ^ ((buffered + width) mod 8))"
        using fs by (auto simp: power_add power_mult)
      then show ?thesis by (simp flip: power_add)
    qed
    then have q: "256 ^ length out' * (2 ^ buffered' * stream width vs)
        = 256 ^ length out * (2 ^ (buffered + width) * stream width vs)"
      by (metis mult.assoc)
    have "from_le out' + 256 ^ length out' * (unat buffer' + 2 ^ buffered' * stream width vs)
        = (from_le out' + 256 ^ length out' * unat buffer')
          + 256 ^ length out' * (2 ^ buffered' * stream width vs)"
      by (simp only: distrib_left add.assoc)
    also have "\<dots> = from_le out + 256 ^ length out * (unat buffer + 2 ^ buffered * stream width (v # vs))"
      unfolding p q by (simp add: power_add algebra_simps)
    finally show ?thesis .
  qed
  ultimately show ?case by auto
qed

lemma packed_len_ok:
  assumes "w \<le> 64" and "n * w + 7 < u64_limit"
  shows "packed_len n w = Inr ((n * w + 7) div 8)"
  using assms by (simp add: packed_len_def checked_mul_def checked_add_def)

lemma packed_len_Inr:
  "packed_len n w = Inr k \<longleftrightarrow> w \<le> 64 \<and> n * w + 7 < u64_limit \<and> k = (n * w + 7) div 8"
  by (auto simp: packed_len_def checked_mul_def checked_add_def)

lemma pack_spec:
  assumes "w \<le> 64" and "length vs * w + 7 < u64_limit" and "values_fit w vs"
  obtains bytes where "pack vs w = Inr bytes" and "length bytes = (length vs * w + 7) div 8"
    and "from_le bytes = stream w vs"
  using pack_loop_spec [OF assms(1,3), of 0 0 "[]"] packed_len_ok [OF assms(1,2)]
  by (auto simp: pack_def mult.commute)


section \<open>Unpacking\<close>

lemma value_mask_eq: "w \<le> 64 \<Longrightarrow> value_mask w = mask w"
  by (auto simp: value_mask_def mask_eq_exp_minus_1 push_bit_eq_mult)

text \<open>What the iterator has still to deliver, as a number.\<close>

definition rest_value :: "packed_values \<Rightarrow> nat" where
  "rest_value pv =
     unat (pv_buffer pv) + 2 ^ pv_buffered pv * from_le (drop (pv_byte_offset pv) (pv_bytes pv))"

definition pv_inv :: "packed_values \<Rightarrow> bool" where
  "pv_inv pv \<longleftrightarrow> pv_width pv \<le> 64 \<and> pv_mask pv = mask (pv_width pv) \<and> pv_buffered pv < 8
     \<and> unat (pv_buffer pv) < 2 ^ pv_buffered pv \<and> pv_byte_offset pv \<le> length (pv_bytes pv)
     \<and> pv_remaining pv * pv_width pv
         \<le> pv_buffered pv + 8 * (length (pv_bytes pv) - pv_byte_offset pv)"

lemma refill_spec:
  assumes "width \<le> 64" and "unat buffer < 2 ^ buffered" and "buffered \<le> 71"
    and "offset \<le> length bytes" and "width \<le> buffered + 8 * (length bytes - offset)"
  shows "\<exists>offset' buffer' buffered'.
      refill bytes width offset buffer buffered = Some (offset', buffer', buffered')
      \<and> width \<le> buffered' \<and> offset' \<le> length bytes \<and> unat buffer' < 2 ^ buffered'
      \<and> buffered' + 8 * (length bytes - offset') = buffered + 8 * (length bytes - offset)
      \<and> (buffered' < width + 8 \<or> buffered' = buffered)
      \<and> unat buffer' + 2 ^ buffered' * from_le (drop offset' bytes)
          = unat buffer + 2 ^ buffered * from_le (drop offset bytes)"
  using assms
proof (induction bytes width offset buffer buffered rule: refill.induct)
  case (1 bytes width offset buffer buffered)
  show ?case
  proof (cases "buffered < width")
    case True
    with "1.prems" have off: "offset < length bytes" by simp
    let ?b = "buffer OR push_bit buffered (ucast (bytes ! offset) :: 128 word)"
    have byte: "unat (bytes ! offset) < 2 ^ 8" using unat_byte_bound by simp
    have "(2 :: nat) ^ buffered \<le> 2 ^ 64"
      using True "1.prems"(1) by (intro power_increasing) simp_all
    then have "unat (bytes ! offset) * 2 ^ buffered < 2 ^ 128"
      using byte mult_le_mono [of "unat (bytes ! offset)" 255 "2 ^ buffered" "2 ^ 64"] by simp
    then have ub: "unat ?b = unat buffer + unat (bytes ! offset) * 2 ^ buffered"
      using "1.prems"(2) by (subst unat_or_shifted) simp_all
    have lt: "unat ?b < 2 ^ (buffered + 8)"
      unfolding ub using "1.prems"(2) byte by (rule shift_add_bound)
    have dr: "drop offset bytes = bytes ! offset # drop (offset + 1) bytes"
      using off by (simp add: Cons_nth_drop_Suc)
    have val: "unat ?b + 2 ^ (buffered + 8) * from_le (drop (offset + 1) bytes)
               = unat buffer + 2 ^ buffered * from_le (drop offset bytes)"
      by (simp add: ub dr power_add algebra_simps)
    have eq: "refill bytes width offset buffer buffered
              = refill bytes width (offset + 1) ?b (buffered + 8)"
      using True off by (simp add: refill.simps [of bytes width offset])
    have b8: "buffered + 8 \<le> 71" "offset + 1 \<le> length bytes"
      "width \<le> buffered + 8 + 8 * (length bytes - (offset + 1))"
      using True off "1.prems"(1,5) by simp_all
    have len: "buffered + 8 + 8 * (length bytes - (offset + 1)) = buffered + 8 * (length bytes - offset)"
      using off by simp
    obtain o2 b2 k2 where
      "refill bytes width (offset + 1) ?b (buffered + 8) = Some (o2, b2, k2)"
      "width \<le> k2" "o2 \<le> length bytes" "unat b2 < 2 ^ k2"
      "k2 + 8 * (length bytes - o2) = buffered + 8 + 8 * (length bytes - (offset + 1))"
      "k2 < width + 8 \<or> k2 = buffered + 8"
      "unat b2 + 2 ^ k2 * from_le (drop o2 bytes)
       = unat ?b + 2 ^ (buffered + 8) * from_le (drop (offset + 1) bytes)"
      using "1.IH" [OF True off "1.prems"(1) lt b8] by blast
    then show ?thesis
      unfolding eq val len using True by (intro exI [of _ o2] exI [of _ b2] exI [of _ k2]) auto
  next
    case False
    with "1.prems" show ?thesis by (simp add: refill.simps [of bytes width offset])
  qed
qed

lemma unat_masked_value:
  assumes "w \<le> 64"
  shows "(ucast (buffer AND mask w :: 128 word) :: 64 word) = of_nat (unat buffer mod 2 ^ w)"
proof (rule word_unat_eq_iff [THEN iffD2])
  have "(2 :: nat) ^ w \<le> 2 ^ 64" using assms by (intro power_increasing) simp_all
  moreover have "unat buffer mod 2 ^ w < 2 ^ w" by simp
  ultimately have "unat buffer mod 2 ^ w < 2 ^ 64" by (rule less_le_trans [rotated])
  then show "unat (ucast (buffer AND mask w :: 128 word) :: 64 word)
             = unat (of_nat (unat buffer mod 2 ^ w) :: 64 word)"
    by (simp add: unsigned_ucast_eq unat_and_mask unat_of_nat take_bit_eq_mod)
qed

lemma div_mod_split:
  fixes a q :: nat
  assumes "w \<le> k"
  shows "(a + 2 ^ k * q) mod 2 ^ w = a mod 2 ^ w"
    and "(a + 2 ^ k * q) div 2 ^ w = a div 2 ^ w + 2 ^ (k - w) * q"
proof -
  have k: "(2 :: nat) ^ k = 2 ^ w * 2 ^ (k - w)"
    using assms by (simp flip: power_add)
  show "(a + 2 ^ k * q) mod 2 ^ w = a mod 2 ^ w"
    by (simp add: k mult.assoc)
  show "(a + 2 ^ k * q) div 2 ^ w = a div 2 ^ w + 2 ^ (k - w) * q"
    by (simp add: k mult.assoc)
qed

lemma packed_next_spec:
  assumes "pv_inv pv" and "pv_remaining pv \<noteq> 0"
  shows "\<exists>pv'. packed_next pv = Some (Some (of_nat (rest_value pv mod 2 ^ pv_width pv)), pv')
     \<and> pv_inv pv' \<and> rest_value pv' = rest_value pv div 2 ^ pv_width pv
     \<and> pv_remaining pv' = pv_remaining pv - 1 \<and> pv_width pv' = pv_width pv"
proof -
  let ?w = "pv_width pv"
  from assms have w: "?w \<le> 64" and m: "pv_mask pv = mask ?w" and b: "pv_buffered pv < 8"
    and u: "unat (pv_buffer pv) < 2 ^ pv_buffered pv" and off: "pv_byte_offset pv \<le> length (pv_bytes pv)"
    and rem: "pv_remaining pv * ?w \<le> pv_buffered pv + 8 * (length (pv_bytes pv) - pv_byte_offset pv)"
    by (simp_all add: pv_inv_def)
  obtain r where r: "pv_remaining pv = Suc r" using assms(2) not0_implies_Suc by blast
  with rem have "?w \<le> pv_buffered pv + 8 * (length (pv_bytes pv) - pv_byte_offset pv)" by simp
  from refill_spec [OF w u _ off this] b obtain offset' buffer' buffered' where
    rf: "refill (pv_bytes pv) ?w (pv_byte_offset pv) (pv_buffer pv) (pv_buffered pv)
         = Some (offset', buffer', buffered')"
    and wb: "?w \<le> buffered'" and off': "offset' \<le> length (pv_bytes pv)"
    and u': "unat buffer' < 2 ^ buffered'"
    and len: "buffered' + 8 * (length (pv_bytes pv) - offset')
              = pv_buffered pv + 8 * (length (pv_bytes pv) - pv_byte_offset pv)"
    and small: "buffered' < ?w + 8 \<or> buffered' = pv_buffered pv"
    and val: "unat buffer' + 2 ^ buffered' * from_le (drop offset' (pv_bytes pv)) = rest_value pv"
    by (auto simp: rest_value_def)
  let ?pv' = "pv\<lparr>pv_byte_offset := offset', pv_buffer := drop_bit ?w buffer',
                 pv_buffered := buffered' - ?w, pv_remaining := pv_remaining pv - 1\<rparr>"
  have "packed_next pv = Some (Some (of_nat (rest_value pv mod 2 ^ ?w)), ?pv')"
    using rf r unat_masked_value [OF w] div_mod_split(1) [OF wb]
    by (simp add: packed_next_def m flip: val)
  moreover have "rest_value ?pv' = rest_value pv div 2 ^ ?w"
  proof -
    have "rest_value ?pv'
        = (unat buffer' + 2 ^ buffered' * from_le (drop offset' (pv_bytes pv))) div 2 ^ ?w"
      using div_mod_split(2) [OF wb] by (simp add: rest_value_def unat_drop_bit)
    then show ?thesis by (simp only: val)
  qed
  moreover have "pv_inv ?pv'"
  proof -
    have "(2 :: nat) ^ buffered' = 2 ^ (buffered' - ?w) * 2 ^ ?w"
      using wb by (simp flip: power_add)
    then have "unat buffer' div 2 ^ ?w < 2 ^ (buffered' - ?w)"
      using u' by (simp add: less_mult_imp_div_less)
    moreover have "r * ?w \<le> buffered' - ?w + 8 * (length (pv_bytes pv) - offset')"
      using rem len r wb by simp
    moreover have "buffered' - ?w < 8" using small b wb by auto
    ultimately show ?thesis
      using w m off' r by (simp add: pv_inv_def unat_drop_bit)
  qed
  ultimately show ?thesis by auto
qed

lemma packed_collect_spec:
  assumes "pv_inv pv"
  shows "packed_collect pv = Some (digits (pv_width pv) (pv_remaining pv) (rest_value pv))"
  using assms
proof (induction "pv_remaining pv" arbitrary: pv)
  case 0
  then have "pv_remaining pv = 0" by simp
  then show ?case by (simp add: packed_collect.simps [of pv] packed_next_def)
next
  case (Suc n)
  then have rem: "pv_remaining pv = Suc n" by simp
  obtain pv' where nx: "packed_next pv = Some (Some (of_nat (rest_value pv mod 2 ^ pv_width pv)), pv')"
    and inv: "pv_inv pv'" and val: "rest_value pv' = rest_value pv div 2 ^ pv_width pv"
    and rem': "pv_remaining pv' = n" and w: "pv_width pv' = pv_width pv"
    using packed_next_spec [OF Suc.prems] rem by auto
  have "packed_collect pv' = Some (digits (pv_width pv) n (rest_value pv div 2 ^ pv_width pv))"
    using Suc.hyps(1) [of pv'] inv rem' w val by simp
  then show ?case using nx rem by (simp add: packed_collect.simps [of pv])
qed


lemma padding_mask_bits:
  assumes "used < 8"
  shows "(b AND padding_mask used = 0) \<longleftrightarrow> unat b < 2 ^ used"
proof -
  have "padding_mask used = NOT (mask used)"
    by (simp add: padding_mask_def mask_eq_exp_minus_1 push_bit_eq_mult)
  then have "(b AND padding_mask used = 0) \<longleftrightarrow> b AND mask used = b"
    by (auto simp: bit_eq_iff bit_simps)
  also have "\<dots> \<longleftrightarrow> unat b mod 2 ^ used = unat b"
    by (metis unat_and_mask word_unat_eq_iff)
  also have "\<dots> \<longleftrightarrow> unat b < 2 ^ used"
    by (metis mod_less mod_less_divisor zero_less_numeral zero_less_power)
  finally show ?thesis .
qed


lemma stream_digits: "w \<le> 64 \<Longrightarrow> stream w (digits w n r) = r mod 2 ^ (w * n)"
proof (induction n arbitrary: r)
  case (Suc n)
  have "r mod 2 ^ w < 2 ^ 64"
    using Suc.prems by (intro less_le_trans [OF mod_less_divisor power_increasing]) simp_all
  then have "unat (of_nat (r mod 2 ^ w) :: 64 word) = r mod 2 ^ w"
    by (simp add: unat_of_nat)
  then have "stream w (digits w (Suc n) r) = r mod 2 ^ w + 2 ^ w * (r div 2 ^ w mod 2 ^ (w * n))"
    by (simp add: Suc)
  also have "\<dots> = r mod (2 ^ w * 2 ^ (w * n))"
    by (simp add: mod_mult2_eq)
  finally show ?case by (simp add: power_add)
qed simp

lemma values_fit_digits: "w \<le> 64 \<Longrightarrow> values_fit w (digits w n r)"
proof (induction n arbitrary: r)
  case (Suc n)
  have "r mod 2 ^ w < 2 ^ 64"
    using Suc.prems by (intro less_le_trans [OF mod_less_divisor power_increasing]) simp_all
  then show ?case using Suc by (simp add: unat_of_nat)
qed simp

text \<open>The length and padding checks of \<open>packed_new\<close> say exactly that the payload is a number of
  at most \<open>n * w\<close> bits.\<close>

lemma last_byte_bound:
  assumes "length bytes = (bits + 7) div 8" and "bits mod 8 \<noteq> 0"
  shows "unat (last bytes) < 2 ^ (bits mod 8) \<longleftrightarrow> from_le bytes < 2 ^ bits"
proof -
  have "bytes \<noteq> []" using assms by auto
  then obtain xs b where bs: "bytes = xs @ [b]" by (meson rev_exhaust)
  have len: "length xs = bits div 8"
    using assms bs div_8_carry [of bits 0] by simp
  have pow: "(2 :: nat) ^ bits = 256 ^ length xs * 2 ^ (bits mod 8)"
  proof -
    have "(2 :: nat) ^ (8 * (bits div 8) + bits mod 8) = 256 ^ length xs * 2 ^ (bits mod 8)"
      by (simp only: power_add power_mult len) simp
    then show ?thesis by simp
  qed
  have fl: "from_le bytes = from_le xs + 256 ^ length xs * unat b"
    by (simp add: bs from_le_append)
  show ?thesis
  proof
    assume "unat (last bytes) < 2 ^ (bits mod 8)"
    then have "256 ^ length xs * (unat b + 1) \<le> 256 ^ length xs * 2 ^ (bits mod 8)"
      by (intro mult_le_mono2) (simp add: bs)
    with from_le_bound [of xs] show "from_le bytes < 2 ^ bits"
      unfolding pow fl by (simp add: distrib_left)
  next
    assume "from_le bytes < 2 ^ bits"
    then have "256 ^ length xs * unat b < 256 ^ length xs * 2 ^ (bits mod 8)"
      unfolding pow fl by linarith
    then show "unat (last bytes) < 2 ^ (bits mod 8)" by (simp add: bs)
  qed
qed

lemma packed_new_ok:
  "(\<exists>pv. packed_new bytes n w = Inr pv) \<longleftrightarrow>
     w \<le> 64 \<and> n * w + 7 < u64_limit \<and> length bytes = (n * w + 7) div 8 \<and> from_le bytes < 2 ^ (n * w)"
proof (cases "w \<le> 64 \<and> n * w + 7 < u64_limit \<and> length bytes = (n * w + 7) div 8")
  case True
  then have pl: "packed_len n w = Inr (length bytes)" and cm: "checked_mul n w = Some (n * w)"
    by (auto simp: packed_len_Inr checked_mul_def)
  show ?thesis
  proof (cases "n * w mod 8 = 0")
    case zero: True
    then obtain m where m: "n * w = 8 * m" by (auto simp: mod_eq_0_iff_dvd elim: dvdE)
    then have "length bytes = m" using True by simp
    moreover have "(2 :: nat) ^ (8 * m) = 256 ^ m" by (simp add: power_mult)
    ultimately have "from_le bytes < 2 ^ (n * w)"
      using from_le_bound [of bytes] m by simp
    then show ?thesis using zero True pl cm by (simp add: packed_new_def)
  next
    case False
    define k where "k = n * w"
    have "bytes \<noteq> []" using False True unfolding k_def [symmetric] by auto
    then show ?thesis
      using False True pl cm padding_mask_bits [of "n * w mod 8" "last bytes"]
        last_byte_bound [of bytes "n * w"]
      by (simp add: packed_new_def Let_def)
  qed
next
  case False
  then show ?thesis by (auto simp: packed_new_def result_simps packed_len_Inr)
qed


lemma packed_new_inv:
  assumes "packed_new bytes n w = Inr pv"
  shows "pv_inv pv \<and> rest_value pv = from_le bytes \<and> pv_width pv = w \<and> pv_remaining pv = n"
proof -
  have ok: "w \<le> 64" "length bytes = (n * w + 7) div 8"
    using packed_new_ok [of bytes n w] assms by auto
  have "n * w \<le> 8 * ((n * w + 7) div 8)"
    using div_mult_mod_eq [of "n * w + 7" 8] mod_less_divisor [of 8 "n * w + 7"] by linarith
  moreover have "pv = \<lparr>pv_bytes = bytes, pv_remaining = n, pv_width = w, pv_byte_offset = 0,
                       pv_buffer = 0, pv_buffered = 0, pv_mask = value_mask w\<rparr>"
    using assms by (auto simp: packed_new_def result_simps Let_def split: if_splits)
  ultimately show ?thesis
    using ok by (simp add: pv_inv_def rest_value_def value_mask_eq)
qed

text \<open>Every payload that passes the checks is read to the end without an out-of-range index.\<close>

lemma unpack_eq:
  assumes "packed_new bytes n w = Inr pv"
  shows "unpack bytes n w = Inr (digits w n (from_le bytes))"
  using packed_collect_spec packed_new_inv [OF assms] assms by (simp add: unpack_def)

lemma unpack_Inr:
  "unpack bytes n w = Inr vs \<longleftrightarrow>
     w \<le> 64 \<and> n * w + 7 < u64_limit \<and> length bytes = (n * w + 7) div 8
     \<and> from_le bytes < 2 ^ (n * w) \<and> vs = digits w n (from_le bytes)"
proof -
  have "unpack bytes n w = Inr vs \<longleftrightarrow>
        (\<exists>pv. packed_new bytes n w = Inr pv) \<and> vs = digits w n (from_le bytes)"
    using unpack_eq by (cases "packed_new bytes n w") (auto simp: unpack_def)
  then show ?thesis unfolding packed_new_ok by blast
qed

lemma from_le_inject: "length xs = length ys \<Longrightarrow> from_le xs = from_le ys \<Longrightarrow> xs = ys"
  by (metis to_le_from_le)

lemma pack_Inr:
  assumes "w \<le> 64" and "length vs * w + 7 < u64_limit" and "values_fit w vs"
  shows "pack vs w = Inr bytes \<longleftrightarrow>
         length bytes = (length vs * w + 7) div 8 \<and> from_le bytes = stream w vs"
  using assms by (metis pack_spec from_le_inject Inr_inject)

lemma unpack_pack:
  assumes "pack vs w = Inr bytes" and "w \<le> 64" and "length vs * w + 7 < u64_limit"
    and "values_fit w vs"
  shows "unpack bytes (length vs) w = Inr vs"
  using assms stream_bound [of w vs] digits_stream [of w vs]
  by (simp add: pack_Inr unpack_Inr mult.commute)

lemma pack_unpack:
  assumes "unpack bytes n w = Inr vs"
  shows "pack vs w = Inr bytes"
proof -
  from assms have a: "w \<le> 64" "n * w + 7 < u64_limit" "length bytes = (n * w + 7) div 8"
    "from_le bytes < 2 ^ (n * w)" "vs = digits w n (from_le bytes)"
    by (simp_all add: unpack_Inr)
  then show ?thesis
    by (simp add: pack_Inr values_fit_digits stream_digits mult.commute)
qed

lemma bit_width_bound: "unat v < 2 ^ bit_width v"
proof -
  have "n < 2 ^ significant_bits n" for n
  proof (induction n rule: significant_bits.induct)
    case (1 n)
    show ?case
    proof (cases "n = 0")
      case False
      then have "n div 2 < 2 ^ significant_bits (n div 2)" by (rule "1.IH")
      then show ?thesis using False by (simp add: significant_bits.simps [of n])
    qed (simp add: significant_bits.simps)
  qed
  then show ?thesis by (simp add: bit_width_def)
qed

lemma bit_width_le: "unat v < 2 ^ k \<Longrightarrow> bit_width v \<le> k"
proof -
  have "n < 2 ^ k \<Longrightarrow> significant_bits n \<le> k" for n
  proof (induction k arbitrary: n)
    case 0
    then show ?case by (simp add: significant_bits.simps)
  next
    case (Suc k)
    then have "significant_bits (n div 2) \<le> k" by (intro Suc.IH) simp
    then show ?case by (subst significant_bits.simps) simp
  qed
  then show "unat v < 2 ^ k \<Longrightarrow> bit_width v \<le> k" by (simp add: bit_width_def)
qed

lemma bit_width_le_64: "bit_width v \<le> 64"
  using bit_width_le [of v 64] unat_less_2p [of v] by simp

lemma bit_width_mono: "v \<le> v' \<Longrightarrow> bit_width v \<le> bit_width v'"
  using bit_width_bound [of v'] by (intro bit_width_le) (simp add: word_le_nat_alt)

end
