(* ===== verification/Bitmap.thy ===== *)
theory Bitmap
  imports Prelude
begin

text \<open>
  Row bitmaps as the native storage lays them out: row \<open>i\<close> is bit \<open>i mod 8\<close> of byte \<open>i div 8\<close>.
  Both the validity bitmap of a predicate block and the bitmap of a delete vector use this layout
  with the same idioms (\<open>bits[i / 8] & (1 << (i % 8)) != 0\<close>, \<open>bits[i / 8] |= 1 << (i % 8)\<close>,
  \<open>count_ones\<close> summed over the bytes, a zero test of the unused high bits of the last byte).
  The facts here relate them to the set of rows whose bit is set.
\<close>

definition test_bit :: "byte list \<Rightarrow> nat \<Rightarrow> bool" where
  "test_bit bits i \<longleftrightarrow> (bits ! (i div 8)) AND push_bit (i mod 8) 1 \<noteq> 0"

definition set_bit_at :: "byte list \<Rightarrow> nat \<Rightarrow> byte list" where
  "set_bit_at bits i = bits[i div 8 := (bits ! (i div 8)) OR push_bit (i mod 8) 1]"

definition count_ones :: "byte \<Rightarrow> nat" where
  "count_ones b = length (filter (bit b) [0..<8])"

definition total_ones :: "byte list \<Rightarrow> nat" where
  "total_ones bits = sum_list (map count_ones bits)"

definition set_rows :: "byte list \<Rightarrow> nat set" where
  "set_rows bits = {i. i < 8 * length bits \<and> test_bit bits i}"

lemma test_bit_iff: "test_bit bits i \<longleftrightarrow> bit (bits ! (i div 8)) (i mod 8)"
  by (simp add: test_bit_def push_bit_eq_mult and_exp_eq_0_iff_not_bit)

lemma length_set_bit_at [simp]: "length (set_bit_at bits i) = length bits"
  by (simp add: set_bit_at_def)

lemma test_set_bit_at:
  assumes "i < 8 * length bits"
  shows "test_bit (set_bit_at bits i) j \<longleftrightarrow> j = i \<or> test_bit bits j"
proof (cases "j div 8 = i div 8")
  case True
  have i: "i div 8 < length bits" using assms by (simp add: less_mult_imp_div_less mult.commute)
  have "j = i \<longleftrightarrow> j mod 8 = i mod 8" using True by (metis div_mult_mod_eq)
  with True i show ?thesis
    by (auto simp: test_bit_iff set_bit_at_def bit_simps)
next
  case False
  then have "(set_bit_at bits i) ! (j div 8) = bits ! (j div 8)"
    by (simp add: set_bit_at_def)
  with False show ?thesis by (auto simp: test_bit_iff)
qed

lemma set_rows_set_bit_at:
  "i < 8 * length bits \<Longrightarrow> set_rows (set_bit_at bits i) = insert i (set_rows bits)"
  by (auto simp: set_rows_def test_set_bit_at)

lemma test_bit_replicate [simp]: "i < 8 * n \<Longrightarrow> \<not> test_bit (replicate n 0) i"
  by (simp add: test_bit_iff less_mult_imp_div_less mult.commute)

lemma set_rows_replicate [simp]: "set_rows (replicate n 0) = {}"
  by (auto simp: set_rows_def)

lemma set_rows_bounded: "set_rows bits \<subseteq> {..<8 * length bits}"
  by (auto simp: set_rows_def)

lemma finite_set_rows [simp]: "finite (set_rows bits)"
  by (rule finite_subset [OF set_rows_bounded]) simp

lemma set_rows_Nil [simp]: "set_rows [] = {}"
  by (simp add: set_rows_def)

lemma set_rows_Cons:
  "set_rows (b # bits) = {i. i < 8 \<and> bit b i} \<union> (\<lambda>i. i + 8) ` set_rows bits"
proof (rule set_eqI)
  fix i
  show "i \<in> set_rows (b # bits) \<longleftrightarrow> i \<in> {i. i < 8 \<and> bit b i} \<union> (\<lambda>i. i + 8) ` set_rows bits"
  proof (cases "i < 8")
    case True
    then show ?thesis by (auto simp: set_rows_def test_bit_iff)
  next
    case False
    then obtain k where k: "i = k + 8" by (metis le_add_diff_inverse2 not_less)
    have "(k + 8) div 8 = Suc (k div 8)" by simp
    then show ?thesis by (auto simp: k set_rows_def test_bit_iff image_iff)
  qed
qed

lemma count_ones_card: "count_ones b = card {i. i < 8 \<and> bit b i}"
  by (simp add: count_ones_def length_filter_conv_card) (rule arg_cong [of _ _ card], auto)

text \<open>A bitmap is determined by its length and its marked rows.\<close>

lemma set_rows_inject:
  assumes "length xs = length ys" and "set_rows xs = set_rows ys"
  shows "xs = ys"
proof (rule nth_equalityI)
  fix i assume i: "i < length xs"
  show "xs ! i = ys ! i"
  proof (rule bit_word_eqI)
    fix n assume n: "n < LENGTH(8)"
    then have d: "(8 * i + n) div 8 = i" "(8 * i + n) mod 8 = n" by simp_all
    have "8 * i + n < 8 * length xs" using i n by simp
    then have "test_bit xs (8 * i + n) \<longleftrightarrow> test_bit ys (8 * i + n)"
      using assms by (auto simp: set_rows_def)
    then show "bit (xs ! i) n \<longleftrightarrow> bit (ys ! i) n" unfolding test_bit_iff d .
  qed
qed (fact assms(1))

text \<open>The popcount of the bytes is the number of marked rows.\<close>

lemma total_ones_card: "total_ones bits = card (set_rows bits)"
proof (induction bits)
  case (Cons b bits)
  have "card (set_rows (b # bits)) = card {i. i < 8 \<and> bit b i} + card ((\<lambda>i. i + 8) ` set_rows bits)"
    unfolding set_rows_Cons by (rule card_Un_disjoint) auto
  also have "card ((\<lambda>i. i + 8) ` set_rows bits) = card (set_rows bits)"
    by (rule card_image) (simp add: inj_on_def)
  finally show ?case using Cons by (simp add: total_ones_def count_ones_card)
qed (simp add: total_ones_def)

text \<open>With \<open>rows\<close> rows in \<open>(rows + 7) div 8\<close> bytes, a zero test of the high bits of the last byte
  says that no row at or beyond \<open>rows\<close> is marked.\<close>

lemma high_bits_zero:
  assumes "length bits = (rows + 7) div 8" and "rows mod 8 \<noteq> 0"
  shows "drop_bit (rows mod 8) (last bits) = 0 \<longleftrightarrow> set_rows bits \<subseteq> {..<rows}"
proof -
  have q: "(rows + 7) div 8 = Suc (rows div 8)"
  proof -
    have "rows = 8 * (rows div 8) + rows mod 8" by simp
    then have "rows + 7 = 8 * (rows div 8) + (rows mod 8 + 7)" by linarith
    then have "(rows + 7) div 8 = rows div 8 + (rows mod 8 + 7) div 8"
      by (simp only: div_mult_self4 [of 8])
    also have "(rows mod 8 + 7) div 8 = 1"
    proof (rule div_nat_eqI)
      show "8 * 1 \<le> rows mod 8 + 7" using assms(2) by linarith
      have "rows mod 8 < 8" by simp
      then show "rows mod 8 + 7 < 8 * Suc 1" by simp
    qed
    finally show ?thesis by simp
  qed
  with assms(1) have len: "length bits = Suc (rows div 8)" by simp
  then have "bits \<noteq> []" by auto
  then have last: "last bits = bits ! (rows div 8)" using len by (simp add: last_conv_nth)
  have "drop_bit (rows mod 8) (last bits) = 0 \<longleftrightarrow> (\<forall>k. rows mod 8 \<le> k \<and> k < 8 \<longrightarrow> \<not> bit (last bits) k)"
  proof -
    have "drop_bit r b = 0 \<longleftrightarrow> (\<forall>k. r \<le> k \<and> k < 8 \<longrightarrow> \<not> bit b k)" for r and b :: byte
    proof
      assume "drop_bit r b = 0"
      moreover have "bit (drop_bit r b) n \<longleftrightarrow> bit b (r + n)" for n by (simp add: bit_drop_bit_eq)
      ultimately have "\<not> bit b (r + n)" for n by simp
      then have "\<not> bit b k" if "r \<le> k" for k using that by (metis le_add_diff_inverse)
      then show "\<forall>k. r \<le> k \<and> k < 8 \<longrightarrow> \<not> bit b k" by blast
    next
      assume h: "\<forall>k. r \<le> k \<and> k < 8 \<longrightarrow> \<not> bit b k"
      show "drop_bit r b = 0"
      proof (rule bit_word_eqI)
        fix n assume "n < LENGTH(8)"
        have "bit b (r + n) \<Longrightarrow> r + n < 8" using bit_imp_le_length [of b "r + n"] by simp
        then show "bit (drop_bit r b) n \<longleftrightarrow> bit (0 :: byte) n" using h by (auto simp: bit_drop_bit_eq)
      qed
    qed
    then show ?thesis .
  qed
  also have "\<dots> \<longleftrightarrow> set_rows bits \<subseteq> {..<rows}"
  proof
    assume h: "\<forall>k. rows mod 8 \<le> k \<and> k < 8 \<longrightarrow> \<not> bit (last bits) k"
    show "set_rows bits \<subseteq> {..<rows}"
    proof
      fix i assume i: "i \<in> set_rows bits"
      then have "i div 8 \<le> rows div 8" and bt: "bit (bits ! (i div 8)) (i mod 8)"
        using assms(1) q by (auto simp: set_rows_def test_bit_iff less_mult_imp_div_less)
      moreover have "\<not> (i div 8 = rows div 8 \<and> rows mod 8 \<le> i mod 8)"
        using h bt last by auto
      ultimately have "i div 8 < rows div 8 \<or> i div 8 = rows div 8 \<and> i mod 8 < rows mod 8" by auto
      then show "i \<in> {..<rows}"
      proof
        assume "i div 8 < rows div 8"
        then show ?thesis using div_le_mono [of rows i 8] by (auto simp: not_less [symmetric])
      next
        assume "i div 8 = rows div 8 \<and> i mod 8 < rows mod 8"
        then have "i div 8 * 8 + i mod 8 < rows div 8 * 8 + rows mod 8" by linarith
        then show ?thesis by (simp only: div_mult_mod_eq lessThan_iff)
      qed
    qed
  next
    assume h: "set_rows bits \<subseteq> {..<rows}"
    show "\<forall>k. rows mod 8 \<le> k \<and> k < 8 \<longrightarrow> \<not> bit (last bits) k"
    proof (intro allI impI notI)
      fix k assume k: "rows mod 8 \<le> k \<and> k < 8" and b: "bit (last bits) k"
      let ?i = "8 * (rows div 8) + k"
      have "?i div 8 = rows div 8" "?i mod 8 = k" using k by simp_all
      then have "?i \<in> set_rows bits"
        using b last assms(1) q k by (simp add: set_rows_def test_bit_iff)
      with h have "?i < rows" by blast
      with k show False using div_mult_mod_eq [of rows 8] by linarith
    qed
  qed
  finally show ?thesis .
qed

end
