(* ===== verification/Sidecar_Format.thy ===== *)
theory Sidecar_Format
  imports Bitpack Bitmap
begin

text \<open>
  Block layout of the predicate sidecar (\<open>predicate_sidecar/format.rs\<close>): a 40-byte header, the
  validity bitmap and the encoded payload.  \<open>assemble\<close> writes a block, \<open>parse\<close> checks and splits
  one.  Header fields of type \<open>u32\<close> are natural numbers; \<open>assemble\<close> is called with values that
  passed \<open>u32::try_from\<close>, which is the predicate \<open>header_ok\<close> here.
\<close>

section \<open>Definitions\<close>

definition MAGIC :: "byte list" where
  "MAGIC = ascii ''RDBPSC01''"

definition VERSION :: nat where
  "VERSION = 1"

definition HEADER_BYTES :: nat where
  "HEADER_BYTES = 40"

definition DIRECTORY_ENTRY_BYTES :: nat where
  "DIRECTORY_ENTRY_BYTES = 32"

datatype encoding = Dictionary | FrameOfReference

fun encoding_tag :: "encoding \<Rightarrow> byte" where
  "encoding_tag Dictionary = 1"
| "encoding_tag FrameOfReference = 2"

definition encoding_from_tag :: "byte \<Rightarrow> (sidecar_error, encoding) result" where
  "encoding_from_tag tag =
     (if tag = 1 then Inr Dictionary
      else if tag = 2 then Inr FrameOfReference
      else Inl Corrupt)"

record block_parts =
  bp_data_type :: predicate_type
  bp_encoding :: encoding
  bp_bit_width :: nat
  bp_row_count :: nat
  bp_null_count :: nat
  bp_auxiliary_count :: nat
  bp_validity :: "byte list"
  bp_payload :: "byte list"

record header =
  h_data_type :: predicate_type
  h_encoding :: encoding
  h_bit_width :: nat
  h_row_count :: nat
  h_null_count :: nat
  h_auxiliary_count :: nat
  h_validity_len :: nat
  h_payload_len :: nat

definition assemble ::
  "header \<Rightarrow> byte list \<Rightarrow> byte list \<Rightarrow> (sidecar_error, byte list) result" where
  "assemble h validity payload =
     (if h_validity_len h \<noteq> length validity \<or> h_payload_len h \<noteq> length payload then Inl Corrupt
      else bindr (ok_or (Option.bind (checked_add HEADER_BYTES (length validity))
                          (\<lambda>size. checked_add size (length payload))) TooLarge) (\<lambda>_.
      let (type_tag, precision, scale) = format_parts (h_data_type h) in
      Inr (MAGIC @ to_le 2 VERSION @ to_le 2 HEADER_BYTES
           @ [type_tag, encoding_tag (h_encoding h), of_nat (h_bit_width h), precision, scale]
           @ [0, 0, 0]
           @ to_le 4 (h_row_count h) @ to_le 4 (h_null_count h) @ to_le 4 (h_validity_len h)
           @ to_le 4 (h_auxiliary_count h) @ to_le 4 (h_payload_len h)
           @ validity @ payload)))"

definition read_uint :: "nat \<Rightarrow> byte list \<Rightarrow> nat \<Rightarrow> (sidecar_error, nat) result" where
  "read_uint width bytes offset =
     bindr (ok_or (slice bytes offset (offset + width)) Corrupt) (\<lambda>value. Inr (from_le value))"

abbreviation read_u16 :: "byte list \<Rightarrow> nat \<Rightarrow> (sidecar_error, nat) result" where
  "read_u16 \<equiv> read_uint 2"

abbreviation read_u32 :: "byte list \<Rightarrow> nat \<Rightarrow> (sidecar_error, nat) result" where
  "read_u32 \<equiv> read_uint 4"

definition validate_validity ::
  "byte list \<Rightarrow> nat \<Rightarrow> nat \<Rightarrow> (sidecar_error, unit) result" where
  "validate_validity validity row_count null_count =
     (if row_count mod 8 \<noteq> 0 \<and> validity \<noteq> []
         \<and> last validity AND padding_mask (row_count mod 8) \<noteq> 0 then Inl Corrupt
      else if row_count - total_ones validity \<noteq> null_count then Inl Corrupt
      else Inr ())"

text \<open>The indexing \<open>bytes[i]\<close>, \<open>&bytes[a..b]\<close> and \<open>&bytes[a..]\<close>, which panic out of range.\<close>

definition byte_at :: "byte list \<Rightarrow> nat \<Rightarrow> (sidecar_error, byte) result" where
  "byte_at bytes i = (if i < length bytes then Inr (bytes ! i) else Inl Panicked)"

definition range_at :: "byte list \<Rightarrow> nat \<Rightarrow> nat \<Rightarrow> (sidecar_error, byte list) result" where
  "range_at bytes a b = ok_or (slice bytes a b) Panicked"

definition tail_at :: "byte list \<Rightarrow> nat \<Rightarrow> (sidecar_error, byte list) result" where
  "tail_at bytes a = ok_or (slice bytes a (length bytes)) Panicked"

definition parse :: "byte list \<Rightarrow> (sidecar_error, block_parts) result" where
  "parse bytes =
     (if length bytes < HEADER_BYTES \<or> slice bytes 0 8 \<noteq> Some MAGIC then Inl Corrupt
      else bindr (read_u16 bytes 8) (\<lambda>version.
      bindr (read_u16 bytes 10) (\<lambda>header_bytes.
      if version \<noteq> VERSION \<or> header_bytes \<noteq> HEADER_BYTES then Inl Corrupt
      else bindr (range_at bytes 17 20) (\<lambda>reserved.
      if \<exists>byte \<in> set reserved. byte \<noteq> 0 then Inl Corrupt
      else bindr (byte_at bytes 12) (\<lambda>tag. bindr (byte_at bytes 15) (\<lambda>precision.
      bindr (byte_at bytes 16) (\<lambda>scale.
      bindr (from_format tag precision scale) (\<lambda>data_type.
      bindr (byte_at bytes 13) (\<lambda>encoding_byte.
      bindr (encoding_from_tag encoding_byte) (\<lambda>encoding.
      bindr (byte_at bytes 14) (\<lambda>width_byte.
      let bit_width = unat width_byte in
      if bit_width > 64 then Inl Corrupt
      else bindr (read_u32 bytes 20) (\<lambda>row_count.
      bindr (read_u32 bytes 24) (\<lambda>null_count.
      bindr (read_u32 bytes 28) (\<lambda>validity_len.
      bindr (read_u32 bytes 32) (\<lambda>auxiliary_count.
      bindr (read_u32 bytes 36) (\<lambda>payload_len.
      let expected_validity = div_ceil row_count 8 in
      if validity_len \<noteq> expected_validity \<or> null_count > row_count then Inl Corrupt
      else bindr (ok_or (checked_add HEADER_BYTES validity_len) TooLarge) (\<lambda>payload_offset.
      bindr (ok_or (checked_add payload_offset payload_len) TooLarge) (\<lambda>total.
      if total \<noteq> length bytes then Inl Corrupt
      else bindr (range_at bytes HEADER_BYTES payload_offset) (\<lambda>validity.
      bindr (validate_validity validity row_count null_count) (\<lambda>_.
      bindr (tail_at bytes payload_offset) (\<lambda>payload.
      Inr \<lparr>bp_data_type = data_type, bp_encoding = encoding, bp_bit_width = bit_width,
           bp_row_count = row_count, bp_null_count = null_count,
           bp_auxiliary_count = auxiliary_count, bp_validity = validity,
           bp_payload = payload\<rparr>)))))))))))))))))))))"

section \<open>What a parsed block satisfies\<close>

definition parts_ok :: "block_parts \<Rightarrow> bool" where
  "parts_ok p \<longleftrightarrow> validate_type (bp_data_type p) = Inr () \<and> bp_bit_width p \<le> 64
     \<and> bp_row_count p < 2 ^ 32 \<and> bp_auxiliary_count p < 2 ^ 32
     \<and> length (bp_payload p) < 2 ^ 32
     \<and> length (bp_validity p) = (bp_row_count p + 7) div 8
     \<and> set_rows (bp_validity p) \<subseteq> {..<bp_row_count p}
     \<and> bp_null_count p + card (set_rows (bp_validity p)) = bp_row_count p"

definition header_of :: "block_parts \<Rightarrow> header" where
  "header_of p = \<lparr>h_data_type = bp_data_type p, h_encoding = bp_encoding p,
     h_bit_width = bp_bit_width p, h_row_count = bp_row_count p, h_null_count = bp_null_count p,
     h_auxiliary_count = bp_auxiliary_count p, h_validity_len = length (bp_validity p),
     h_payload_len = length (bp_payload p)\<rparr>"

lemma length_MAGIC [simp]: "length MAGIC = 8"
  by (simp add: MAGIC_def ascii_def)

lemma padding_zero_iff:
  assumes "k < 8"
  shows "b AND padding_mask k = 0 \<longleftrightarrow> drop_bit k (b :: byte) = 0"
proof -
  have "drop_bit k b = 0 \<longleftrightarrow> unat b div 2 ^ k = 0"
    by (metis unat_drop_bit unat_eq_zero)
  also have "\<dots> \<longleftrightarrow> unat b < 2 ^ k" by (simp add: div_eq_0_iff)
  finally show ?thesis using padding_mask_bits [OF assms] by simp
qed

lemma rows_aligned_bound:
  assumes "length bits = (rows + 7) div 8" and "rows mod 8 = 0"
  shows "set_rows bits \<subseteq> {..<rows}"
proof -
  from assms(2) obtain m where "rows = 8 * m" by (auto elim: dvdE simp: mod_eq_0_iff_dvd)
  with assms(1) have "8 * length bits = rows" by simp
  with set_rows_bounded [of bits] show ?thesis by simp
qed

lemma validate_validity_Inr:
  assumes len: "length validity = (rows + 7) div 8" and nulls: "nulls \<le> rows"
  shows "validate_validity validity rows nulls = Inr u \<longleftrightarrow>
         set_rows validity \<subseteq> {..<rows} \<and> nulls + card (set_rows validity) = rows"
proof -
  let ?pad = "rows mod 8 \<noteq> 0 \<and> validity \<noteq> [] \<and> last validity AND padding_mask (rows mod 8) \<noteq> 0"
  have pad: "\<not> ?pad \<longleftrightarrow> set_rows validity \<subseteq> {..<rows}"
  proof (cases "rows mod 8 = 0")
    case True
    with rows_aligned_bound [OF len] show ?thesis by simp
  next
    case False
    then have "validity \<noteq> []" using len by auto
    with False high_bits_zero [OF len False] show ?thesis by (simp add: padding_zero_iff)
  qed
  have "card (set_rows validity) \<le> rows" if "set_rows validity \<subseteq> {..<rows}"
    using card_mono [OF _ that] by simp
  then have "set_rows validity \<subseteq> {..<rows} \<Longrightarrow>
      rows - card (set_rows validity) = nulls \<longleftrightarrow> nulls + card (set_rows validity) = rows"
    by auto
  with pad show ?thesis
    by (auto simp: validate_validity_def total_ones_card split: if_splits)
qed

lemma read_uint_bound:
  assumes "read_uint w bytes k = Inr x"
  shows "x < 256 ^ w"
proof -
  from assms obtain v where "slice bytes k (k + w) = Some v" and "x = from_le v"
    by (auto simp: read_uint_def result_simps)
  moreover from this have "length v = w" by (auto simp: slice_Some)
  ultimately show ?thesis using from_le_bound [of v] by simp
qed

text \<open>The length check makes every index of the header lie in the block, and the check of the total
  length every slice of the body.\<close>

lemma bindr_cong:
  "r = r' \<Longrightarrow> (\<And>x. r' = Inr x \<Longrightarrow> f x = f' x) \<Longrightarrow> bindr r f = bindr r' f'"
  by (cases r') simp_all

lemma byte_at_Inr [simp]: "i < length bytes \<Longrightarrow> byte_at bytes i = Inr (bytes ! i)"
  by (simp add: byte_at_def)

lemma range_at_Inr: "a \<le> b \<Longrightarrow> b \<le> length bytes \<Longrightarrow> range_at bytes a b = Inr (take (b - a) (drop a bytes))"
  by (simp add: range_at_def slice_def)

lemma tail_at_Inr: "a \<le> length bytes \<Longrightarrow> tail_at bytes a = Inr (drop a bytes)"
  by (simp add: tail_at_def slice_def)

lemma tail_after_slice: "slice bytes 0 a = Some prefix \<Longrightarrow> tail_at bytes a = Inr (drop a bytes)"
  by (simp add: slice_Some tail_at_Inr)

lemma parse_eq:
  "parse bytes =
     (if length bytes < HEADER_BYTES \<or> slice bytes 0 8 \<noteq> Some MAGIC then Inl Corrupt
      else bindr (read_u16 bytes 8) (\<lambda>version.
      bindr (read_u16 bytes 10) (\<lambda>header_bytes.
      if version \<noteq> VERSION \<or> header_bytes \<noteq> HEADER_BYTES then Inl Corrupt
      else if \<exists>byte \<in> set (take 3 (drop 17 bytes)). byte \<noteq> 0 then Inl Corrupt
      else bindr (from_format (bytes ! 12) (bytes ! 15) (bytes ! 16)) (\<lambda>data_type.
      bindr (encoding_from_tag (bytes ! 13)) (\<lambda>encoding.
      let bit_width = unat (bytes ! 14) in
      if bit_width > 64 then Inl Corrupt
      else bindr (read_u32 bytes 20) (\<lambda>row_count.
      bindr (read_u32 bytes 24) (\<lambda>null_count.
      bindr (read_u32 bytes 28) (\<lambda>validity_len.
      bindr (read_u32 bytes 32) (\<lambda>auxiliary_count.
      bindr (read_u32 bytes 36) (\<lambda>payload_len.
      let expected_validity = div_ceil row_count 8 in
      if validity_len \<noteq> expected_validity \<or> null_count > row_count then Inl Corrupt
      else bindr (ok_or (checked_add HEADER_BYTES validity_len) TooLarge) (\<lambda>payload_offset.
      bindr (ok_or (checked_add payload_offset payload_len) TooLarge) (\<lambda>total.
      if total \<noteq> length bytes then Inl Corrupt
      else let validity = take validity_len (drop HEADER_BYTES bytes) in
      bindr (validate_validity validity row_count null_count) (\<lambda>_.
      Inr \<lparr>bp_data_type = data_type, bp_encoding = encoding, bp_bit_width = bit_width,
           bp_row_count = row_count, bp_null_count = null_count,
           bp_auxiliary_count = auxiliary_count, bp_validity = validity,
           bp_payload = drop payload_offset bytes\<rparr>)))))))))))))"
proof (cases "length bytes < HEADER_BYTES")
  case False
  then have len: "40 \<le> length bytes" by (simp add: HEADER_BYTES_def)
  have head: "range_at bytes 17 20 = Inr (take 3 (drop 17 bytes))" using len by (simp add: range_at_Inr)
  have bytes: "byte_at bytes 12 = Inr (bytes ! 12)" "byte_at bytes 13 = Inr (bytes ! 13)"
    "byte_at bytes 14 = Inr (bytes ! 14)" "byte_at bytes 15 = Inr (bytes ! 15)"
    "byte_at bytes 16 = Inr (bytes ! 16)"
    using len by simp_all
  show ?thesis
    unfolding parse_def head bytes bindr_Inr Let_def
    by (intro if_cong refl bindr_cong) (auto simp: result_simps range_at_Inr tail_at_Inr)
qed (simp add: parse_def)

lemma parse_Inr_parts_ok:
  assumes "parse bytes = Inr p"
  shows "parts_ok p"
proof -
  have four: "read_u32 bytes k = Inr x \<Longrightarrow> x < 4294967296" for x k
    using read_uint_bound [of 4 bytes k x] by simp
  from assms show ?thesis
    by (auto simp: parse_eq parts_ok_def Let_def result_simps div_ceil_def
          validate_validity_Inr dest: four from_format_validates split: if_splits)
qed

lemma to_le_4:
  assumes "n < 2 ^ 32"
  obtains a b c d where "to_le 4 n = [a, b, c, d]" and "from_le [a, b, c, d] = n"
proof -
  have "4 = Suc (Suc (Suc (Suc 0)))" by simp
  then obtain a b c d where l: "to_le 4 n = [a, b, c, d]"
    by (metis to_le.simps)
  then have "from_le [a, b, c, d] = n"
    using from_to_le_exact [of n 4] assms by (simp del: from_le.simps)
  with l show thesis by (rule that)
qed

text \<open>Reading back a block with an explicit 40-byte header.\<close>

lemma MAGIC_bytes: "MAGIC = [82, 68, 66, 80, 83, 67, 48, 49]"
  by (simp add: MAGIC_def ascii_def)

lemma header_list:
  assumes "bytes = MAGIC @ [1, 0, 40, 0] @ [t, e, w, p, s] @ [0, 0, 0]
    @ [r0, r1, r2, r3] @ [n0, n1, n2, n3] @ [l0, l1, l2, l3] @ [a0, a1, a2, a3] @ [q0, q1, q2, q3]
    @ v @ q"
  shows "length bytes = 40 + length v + length q"
    "take 8 bytes = MAGIC" "take 2 (drop 8 bytes) = [1, 0]" "take 2 (drop 10 bytes) = [40, 0]"
    "take 3 (drop 17 bytes) = [0, 0, 0]"
    "bytes ! 12 = t" "bytes ! 13 = e" "bytes ! 14 = w" "bytes ! 15 = p" "bytes ! 16 = s"
    "take 4 (drop 20 bytes) = [r0, r1, r2, r3]" "take 4 (drop 24 bytes) = [n0, n1, n2, n3]"
    "take 4 (drop 28 bytes) = [l0, l1, l2, l3]" "take 4 (drop 32 bytes) = [a0, a1, a2, a3]"
    "take 4 (drop 36 bytes) = [q0, q1, q2, q3]" "drop 40 bytes = v @ q"
  by (simp_all add: assms MAGIC_bytes)

lemma read_uint_take:
  "offset + width \<le> length bytes \<Longrightarrow>
   read_uint width bytes offset = Inr (from_le (take width (drop offset bytes)))"
  by (simp add: read_uint_def slice_def)

text \<open>Parsing inverts assembling on every well-formed block.\<close>

lemma parse_assemble:
  assumes ok: "parts_ok p"
  shows "\<exists>bytes. assemble (header_of p) (bp_validity p) (bp_payload p) = Inr bytes
           \<and> length bytes = 40 + length (bp_validity p) + length (bp_payload p)
           \<and> parse bytes = Inr p"
proof -
  let ?v = "bp_validity p" and ?q = "bp_payload p"
  from ok have v: "length ?v = (bp_row_count p + 7) div 8" and vl: "length ?v < 2 ^ 32"
    and q: "length ?q < 2 ^ 32" and nul: "bp_null_count p \<le> bp_row_count p"
    and ty: "validate_type (bp_data_type p) = Inr ()"
    by (auto simp: parts_ok_def)
  have small: "bp_row_count p < 2 ^ 32" "bp_null_count p < 2 ^ 32" "bp_auxiliary_count p < 2 ^ 32"
    using ok nul by (auto simp: parts_ok_def)
  obtain r0 r1 r2 r3 where r: "to_le 4 (bp_row_count p) = [r0, r1, r2, r3]"
    "from_le [r0, r1, r2, r3] = bp_row_count p" by (rule to_le_4 [OF small(1)])
  obtain n0 n1 n2 n3 where n: "to_le 4 (bp_null_count p) = [n0, n1, n2, n3]"
    "from_le [n0, n1, n2, n3] = bp_null_count p" by (rule to_le_4 [OF small(2)])
  obtain a0 a1 a2 a3 where a: "to_le 4 (bp_auxiliary_count p) = [a0, a1, a2, a3]"
    "from_le [a0, a1, a2, a3] = bp_auxiliary_count p" by (rule to_le_4 [OF small(3)])
  obtain l0 l1 l2 l3 where l: "to_le 4 (length ?v) = [l0, l1, l2, l3]"
    "from_le [l0, l1, l2, l3] = length ?v" by (rule to_le_4 [OF vl])
  obtain q0 q1 q2 q3 where pl: "to_le 4 (length ?q) = [q0, q1, q2, q3]"
    "from_le [q0, q1, q2, q3] = length ?q" by (rule to_le_4 [OF q])
  note le = r n a l pl
  obtain t pr s where fp: "format_parts (bp_data_type p) = (t, pr, s)" by (cases "format_parts (bp_data_type p)")
  with from_format_parts [OF ty] have ff: "from_format t pr s = Inr (bp_data_type p)" by simp
  let ?e = "encoding_tag (bp_encoding p)" and ?w = "of_nat (bp_bit_width p) :: byte"
  have enc: "encoding_from_tag ?e = Inr (bp_encoding p)"
    by (cases "bp_encoding p") (simp_all add: encoding_from_tag_def)
  have w: "unat ?w = bp_bit_width p" "bp_bit_width p \<le> 64"
    using ok by (auto simp: parts_ok_def unat_of_nat_byte)
  define bytes where "bytes = MAGIC @ [1, 0, 40, 0] @ [t, ?e, ?w, pr, s] @ [0, 0, 0]
    @ [r0, r1, r2, r3] @ [n0, n1, n2, n3] @ [l0, l1, l2, l3] @ [a0, a1, a2, a3] @ [q0, q1, q2, q3]
    @ ?v @ ?q"
  have two: "to_le 2 VERSION = [1, 0]" "to_le 2 HEADER_BYTES = [40, 0]"
    by (simp_all add: VERSION_def HEADER_BYTES_def numeral_2_eq_2)
  have add: "checked_add HEADER_BYTES (length ?v) = Some (40 + length ?v)"
    "checked_add (40 + length ?v) (length ?q) = Some (40 + length ?v + length ?q)"
    using vl q by (simp_all add: checked_add_Some HEADER_BYTES_def)
  have asm: "assemble (header_of p) ?v ?q = Inr bytes"
    using le fp add two by (simp add: assemble_def header_of_def bytes_def del: to_le.simps from_le.simps)
  have val: "validate_validity ?v (bp_row_count p) (bp_null_count p) = Inr ()"
    using ok validate_validity_Inr [OF v nul] by (simp add: parts_ok_def)
  note hl = header_list [OF bytes_def]
  have tail: "drop (40 + length ?v) bytes = ?q"
    using arg_cong [OF hl(16), of "drop (length ?v)"] by (simp add: add.commute)
  have sl: "slice bytes 0 8 = Some MAGIC" using hl(1,2) by (simp add: slice_def)
  have rd: "read_u16 bytes 8 = Inr 1" "read_u16 bytes 10 = Inr 40"
    "read_u32 bytes 20 = Inr (bp_row_count p)" "read_u32 bytes 24 = Inr (bp_null_count p)"
    "read_u32 bytes 28 = Inr (length ?v)" "read_u32 bytes 32 = Inr (bp_auxiliary_count p)"
    "read_u32 bytes 36 = Inr (length ?q)"
    by (simp_all add: read_uint_take hl le del: from_le.simps) simp_all
  have dc: "div_ceil (bp_row_count p) 8 = length ?v" using v by (simp add: div_ceil_def)
  have hb: "HEADER_BYTES = 40" "VERSION = 1" by (simp_all add: HEADER_BYTES_def VERSION_def)
  note add' = add [unfolded hb]
  have "parse bytes = Inr p"
    unfolding parse_eq rd bindr_Inr sl hl dc hb
    using ff enc w val add' nul tail by (simp add: hl(16))
  with asm hl(1) show ?thesis by blast
qed

text \<open>Conversely, the bytes of a parsed block are the ones assembled from its parts.\<close>

lemma to_from_le: "length v = w \<Longrightarrow> to_le w (from_le v) = v"
proof (induction v arbitrary: w)
  case (Cons b v)
  then obtain k where w: "w = Suc k" "length v = k" by (cases w) auto
  have "unat b < 256" by (rule unat_byte_bound)
  then have "(unat b + 256 * from_le v) div 256 = from_le v" by simp
  moreover have "(of_nat (unat b + 256 * from_le v) :: byte) = b"
  proof -
    have "unat (of_nat (unat b + 256 * from_le v) :: byte) = unat b"
      using \<open>unat b < 256\<close> unat_of_nat_byte [of "unat b + 256 * from_le v"] by simp
    then show ?thesis by (simp add: word_unat_eq_iff)
  qed
  ultimately show ?case using Cons.IH [OF w(2)] w(1) by simp
qed simp

lemma read_uint_bytes: "read_uint w bytes k = Inr x \<Longrightarrow> take w (drop k bytes) = to_le w x"
  by (auto simp: read_uint_def result_simps to_from_le)

lemma take_drop_split: "drop n xs = take k (drop n xs) @ drop (n + k) xs"
  by (metis add.commute append_take_drop_id drop_drop)

lemma header_split:
  assumes "40 \<le> length bytes"
  shows "bytes = take 8 bytes @ take 2 (drop 8 bytes) @ take 2 (drop 10 bytes)
    @ [bytes ! 12, bytes ! 13, bytes ! 14, bytes ! 15, bytes ! 16] @ take 3 (drop 17 bytes)
    @ take 4 (drop 20 bytes) @ take 4 (drop 24 bytes) @ take 4 (drop 28 bytes)
    @ take 4 (drop 32 bytes) @ take 4 (drop 36 bytes) @ drop 40 bytes"
proof -
  have one: "drop n bytes = bytes ! n # drop (n + 1) bytes" if "n < 40" for n
    using Cons_nth_drop_Suc [of n bytes] that assms by simp
  have "bytes = take 8 bytes @ drop 8 bytes" by simp
  also have "drop 8 bytes = take 2 (drop 8 bytes) @ take 2 (drop 10 bytes) @ drop 12 bytes"
    using take_drop_split [of 8 bytes 2] take_drop_split [of 10 bytes 2] by simp
  also have "drop 12 bytes = [bytes ! 12, bytes ! 13, bytes ! 14, bytes ! 15, bytes ! 16] @ drop 17 bytes"
    using one [of 12] one [of 13] one [of 14] one [of 15] one [of 16] by simp
  also have "drop 17 bytes = take 3 (drop 17 bytes) @ take 4 (drop 20 bytes) @ take 4 (drop 24 bytes) @ drop 28 bytes"
    using take_drop_split [of 17 bytes 3] take_drop_split [of 20 bytes 4] take_drop_split [of 24 bytes 4] by simp
  also have "drop 28 bytes = take 4 (drop 28 bytes) @ take 4 (drop 32 bytes) @ take 4 (drop 36 bytes) @ drop 40 bytes"
    using take_drop_split [of 28 bytes 4] take_drop_split [of 32 bytes 4] take_drop_split [of 36 bytes 4] by simp
  finally show ?thesis by simp
qed

lemma parse_Inr_header:
  assumes "parse bytes = Inr p"
  shows "40 \<le> length bytes" and "take 8 bytes = MAGIC" and "read_u16 bytes 8 = Inr VERSION"
    and "read_u16 bytes 10 = Inr HEADER_BYTES" and "\<forall>b \<in> set (take 3 (drop 17 bytes)). b = 0"
    and "from_format (bytes ! 12) (bytes ! 15) (bytes ! 16) = Inr (bp_data_type p)"
    and "encoding_from_tag (bytes ! 13) = Inr (bp_encoding p)" and "unat (bytes ! 14) = bp_bit_width p"
    and "read_u32 bytes 20 = Inr (bp_row_count p)" and "read_u32 bytes 24 = Inr (bp_null_count p)"
    and "read_u32 bytes 32 = Inr (bp_auxiliary_count p)"
  using assms by (auto simp: parse_eq Let_def result_simps not_less HEADER_BYTES_def split: if_split_asm)

lemma parse_Inr_body:
  assumes "parse bytes = Inr p"
  shows "read_u32 bytes 28 = Inr (length (bp_validity p))" and "read_u32 bytes 36 = Inr (length (bp_payload p))"
    and "drop 40 bytes = bp_validity p @ bp_payload p"
    and "40 + length (bp_validity p) + length (bp_payload p) < u64_limit"
proof -
  have "\<exists>vl pl. read_u32 bytes 28 = Inr vl \<and> read_u32 bytes 36 = Inr pl
      \<and> bp_validity p = take vl (drop 40 bytes) \<and> bp_payload p = drop (40 + vl) bytes
      \<and> 40 + vl + pl = length bytes \<and> length bytes < u64_limit"
    using assms by (auto simp: parse_eq Let_def result_simps HEADER_BYTES_def split: if_split_asm)
  then obtain vl pl where body: "read_u32 bytes 28 = Inr vl" "read_u32 bytes 36 = Inr pl"
      "bp_validity p = take vl (drop 40 bytes)" "bp_payload p = drop (40 + vl) bytes"
      "40 + vl + pl = length bytes" "length bytes < u64_limit"
    by blast
  have len: "length (bp_validity p) = vl" "length (bp_payload p) = pl" using body(3-5) by auto
  then show "read_u32 bytes 28 = Inr (length (bp_validity p))" "read_u32 bytes 36 = Inr (length (bp_payload p))"
    "40 + length (bp_validity p) + length (bp_payload p) < u64_limit" using body by simp_all
  show "drop 40 bytes = bp_validity p @ bp_payload p"
    using take_drop_split [of 40 bytes vl] body(3,4) by simp
qed

lemma assemble_parse:
  assumes "parse bytes = Inr p"
  shows "assemble (header_of p) (bp_validity p) (bp_payload p) = Inr bytes"
proof -
  note head = parse_Inr_header [OF assms] and body = parse_Inr_body [OF assms]
  have "length (take 3 (drop 17 bytes)) = 3" using head(1) by simp
  then have "take 3 (drop 17 bytes) = replicate 3 0"
    using head(5) by (intro replicate_eqI) auto
  then have zero: "take 3 (drop 17 bytes) = [0, 0, 0]" by (simp add: numeral_3_eq_3)
  have tag: "encoding_tag (bp_encoding p) = bytes ! 13"
    using head(7) by (auto simp: encoding_from_tag_def split: if_splits)
  have width: "of_nat (bp_bit_width p) = bytes ! 14"
    unfolding head(8) [symmetric] by simp
  have parts: "format_parts (bp_data_type p) = (bytes ! 12, bytes ! 15, bytes ! 16)"
    using from_format_validates [OF head(6)] by simp
  note le = head(3,4,9-11) [THEN read_uint_bytes] body(1,2) [THEN read_uint_bytes]
  have "bytes = MAGIC @ to_le 2 VERSION @ to_le 2 HEADER_BYTES
      @ [bytes ! 12, encoding_tag (bp_encoding p), of_nat (bp_bit_width p), bytes ! 15, bytes ! 16]
      @ [0, 0, 0] @ to_le 4 (bp_row_count p) @ to_le 4 (bp_null_count p) @ to_le 4 (length (bp_validity p))
      @ to_le 4 (bp_auxiliary_count p) @ to_le 4 (length (bp_payload p)) @ bp_validity p @ bp_payload p"
    using header_split [OF head(1)] unfolding le head(2) body(3) zero tag width .
  then show ?thesis
    using body(4) parts
    by (simp add: assemble_def header_of_def checked_add_def HEADER_BYTES_def del: to_le.simps)
qed

end
