(* ===== verification/Sidecar_Codec.thy ===== *)
theory Sidecar_Codec
  imports Sidecar_Format
begin

text \<open>
  Predicate blocks: encoding (\<open>predicate_sidecar/encode.rs\<close>), decoding to rows (\<open>decode.rs\<close>),
  evaluation on the encoded form (\<open>evaluate.rs\<close>), decoding of selected rows (\<open>array_decode.rs\<close>)
  and the predicates themselves (\<open>codec.rs\<close>).  Arrow's check of decimal metadata is a parameter.
  The scan paths read the values of the \<open>PackedValues\<close> iterator one by one; the iterator has no
  effect, so the loops here run over the list it yields, which is what \<open>unpack\<close> returns.
\<close>

section \<open>Definitions\<close>

subsection \<open>Predicates\<close>

datatype comparison_op = Equal | NotEqual | Less | LessOrEqual | Greater | GreaterOrEqual

datatype predicate = Compare comparison_op i64 | IsNull | IsNotNull

fun compare :: "i64 \<Rightarrow> i64 \<Rightarrow> comparison_op \<Rightarrow> bool" where
  "compare lhs rhs Equal = (sint lhs = sint rhs)"
| "compare lhs rhs NotEqual = (sint lhs \<noteq> sint rhs)"
| "compare lhs rhs Less = (sint lhs < sint rhs)"
| "compare lhs rhs LessOrEqual = (sint lhs \<le> sint rhs)"
| "compare lhs rhs Greater = (sint lhs > sint rhs)"
| "compare lhs rhs GreaterOrEqual = (sint lhs \<ge> sint rhs)"

fun evaluate_value :: "i64 option \<Rightarrow> predicate \<Rightarrow> bool" where
  "evaluate_value v IsNull = (v = None)"
| "evaluate_value v IsNotNull = (v \<noteq> None)"
| "evaluate_value v (Compare op rhs) = (case v of None \<Rightarrow> False | Some lhs \<Rightarrow> compare lhs rhs op)"

definition evaluate_all_values :: "i64 option \<Rightarrow> predicate list \<Rightarrow> bool" where
  "evaluate_all_values v predicates = list_all (evaluate_value v) predicates"

subsection \<open>Encoding\<close>

definition build_validity :: "i64 option list \<Rightarrow> (sidecar_error, byte list \<times> nat) result" where
  "build_validity values =
     try_fold (\<lambda>(validity, null_count) (row, value).
         if value \<noteq> None then Inr (set_bit_at validity row, null_count)
         else if null_count + 1 < 2 ^ 32 then Inr (validity, null_count + 1)
         else Inl TooLarge)
       (replicate (div_ceil (length values) 8) 0, 0) (enumerate 0 values)"

record candidate =
  cand_encoding :: encoding
  cand_bit_width :: nat
  cand_auxiliary_count :: nat
  cand_payload :: "byte list"

text \<open>\<open>values.iter().flatten()\<close> drops the nulls; \<open>sort_unstable\<close> and \<open>dedup\<close> order by the signed
  value.\<close>

definition present :: "i64 option list \<Rightarrow> i64 list" where
  "present values = List.map_filter id values"

definition sorted_distinct :: "i64 list \<Rightarrow> i64 list" where
  "sorted_distinct vs = remdups_adj (sort_key sint vs)"

definition u32_try_from :: "nat \<Rightarrow> (sidecar_error, nat) result" where
  "u32_try_from n = (if n < 2 ^ 32 then Inr n else Inl TooLarge)"

definition value_ids :: "i64 list \<Rightarrow> i64 option list \<Rightarrow> 64 word list" where
  "value_ids dictionary values =
     (let ids_by_value = map_of (zip dictionary (map of_nat [0..<length dictionary])) in
      map (\<lambda>value. case Option.bind value ids_by_value of None \<Rightarrow> 0 | Some i \<Rightarrow> i) values)"

definition dictionary_candidate :: "i64 option list \<Rightarrow> (sidecar_error, candidate) result" where
  "dictionary_candidate values =
     (let dictionary = sorted_distinct (present values);
          ids = value_ids dictionary values;
          width = bit_width (of_nat (length dictionary - 1)) in
      bindr (ok_or (checked_mul (length dictionary) 8) TooLarge) (\<lambda>dictionary_bytes.
      bindr (packed_len (length values) width) (\<lambda>len.
      bindr (ok_or (checked_add dictionary_bytes len) TooLarge) (\<lambda>_.
      bindr (pack ids width) (\<lambda>packed.
      bindr (u32_try_from (length dictionary)) (\<lambda>auxiliary_count.
      Inr \<lparr>cand_encoding = Dictionary, cand_bit_width = width,
           cand_auxiliary_count = auxiliary_count,
           cand_payload = concat (map i64_to_le dictionary) @ packed\<rparr>))))))"

definition min_signed :: "i64 list \<Rightarrow> i64 option" where
  "min_signed vs = (case vs of [] \<Rightarrow> None
     | v # rest \<Rightarrow> Some (fold (\<lambda>x m. if sint x < sint m then x else m) rest v))"

definition max_unsigned :: "64 word list \<Rightarrow> 64 word option" where
  "max_unsigned vs = (case vs of [] \<Rightarrow> None | v # rest \<Rightarrow> Some (fold max rest v))"

definition u64_try_from :: "int \<Rightarrow> (sidecar_error, 64 word) result" where
  "u64_try_from x = (if 0 \<le> x \<and> x < 2 ^ 64 then Inr (word_of_int x) else Inl TooLarge)"

definition frame_candidate :: "i64 option list \<Rightarrow> (sidecar_error, candidate option) result" where
  "frame_candidate values = (case min_signed (present values) of
       None \<Rightarrow> Inr None
     | Some base \<Rightarrow>
         bindr (collect_results (map (\<lambda>value. case value of
                  Some v \<Rightarrow> u64_try_from (sint v - sint base)
                | None \<Rightarrow> Inr 0) values)) (\<lambda>deltas.
         let width = (case max_unsigned deltas of None \<Rightarrow> 0 | Some m \<Rightarrow> bit_width m) in
         bindr (packed_len (length values) width) (\<lambda>len.
         bindr (ok_or (checked_add 8 len) TooLarge) (\<lambda>_.
         bindr (pack deltas width) (\<lambda>packed.
         Inr (Some \<lparr>cand_encoding = FrameOfReference, cand_bit_width = width,
                    cand_auxiliary_count = 0, cand_payload = i64_to_le base @ packed\<rparr>))))))"

definition encode_block ::
  "predicate_type \<Rightarrow> i64 option list \<Rightarrow> (sidecar_error, byte list option) result" where
  "encode_block data_type values =
     bindr (validate_type data_type) (\<lambda>_.
     bindr (collect_results (map (validate_value data_type) (present values))) (\<lambda>_.
     bindr (u32_try_from (length values)) (\<lambda>row_count.
     bindr (build_validity values) (\<lambda>(validity, null_count).
     bindr (dictionary_candidate values) (\<lambda>dictionary.
     bindr (frame_candidate values) (\<lambda>frame.
     let candidate = (case frame of
           Some frame \<Rightarrow> if length (cand_payload frame) < length (cand_payload dictionary)
                         then frame else dictionary
         | None \<Rightarrow> dictionary) in
     bindr (u32_try_from (length validity)) (\<lambda>validity_len.
     bindr (u32_try_from (length (cand_payload candidate))) (\<lambda>payload_len.
     bindr (assemble \<lparr>h_data_type = data_type, h_encoding = cand_encoding candidate,
                     h_bit_width = cand_bit_width candidate, h_row_count = row_count,
                     h_null_count = null_count,
                     h_auxiliary_count = cand_auxiliary_count candidate,
                     h_validity_len = validity_len, h_payload_len = payload_len\<rparr>
                   validity (cand_payload candidate)) (\<lambda>bytes.
     bindr (ok_or (checked_mul (length values) (raw_width data_type)) TooLarge) (\<lambda>raw_bytes.
     bindr (ok_or (checked_add (length bytes) DIRECTORY_ENTRY_BYTES) TooLarge) (\<lambda>retained_bytes.
     Inr (if saturating_mul retained_bytes 2 \<le> raw_bytes then Some bytes else None))))))))))))"

subsection \<open>Decoding\<close>

text \<open>\<open>validity[row / 8]\<close> panics when the row lies outside the bitmap.\<close>

definition is_valid :: "byte list \<Rightarrow> nat \<Rightarrow> (sidecar_error, bool) result" where
  "is_valid validity row =
     (if row div 8 < length validity then Inr (test_bit validity row) else Inl Panicked)"

fun chunks_exact8 :: "byte list \<Rightarrow> byte list list" where
  "chunks_exact8 bytes =
     (if length bytes < 8 then [] else take 8 bytes # chunks_exact8 (drop 8 bytes))"

declare chunks_exact8.simps [simp del]

text \<open>\<open>windows(2).any(|pair| pair[0] >= pair[1])\<close>\<close>

fun windows_unordered :: "i64 list \<Rightarrow> bool" where
  "windows_unordered (a # b # rest) \<longleftrightarrow> sint a \<ge> sint b \<or> windows_unordered (b # rest)"
| "windows_unordered _ \<longleftrightarrow> False"

definition decode_dictionary :: "block_parts \<Rightarrow> (sidecar_error, i64 list) result" where
  "decode_dictionary parts =
     (let expected_width = bit_width (of_nat (bp_auxiliary_count parts - 1)) in
      if bp_bit_width parts \<noteq> expected_width then Inl Corrupt
      else bindr (ok_or (checked_mul (bp_auxiliary_count parts) 8) TooLarge) (\<lambda>dictionary_bytes.
      bindr (ok_or (slice (bp_payload parts) 0 dictionary_bytes) Corrupt) (\<lambda>prefix.
      let dictionary = map i64_from_le (chunks_exact8 prefix) in
      if windows_unordered dictionary then Inl Corrupt
      else bindr (bindr (tail_at (bp_payload parts) dictionary_bytes) (\<lambda>packed.
                    unpack packed (bp_row_count parts) (bp_bit_width parts))) (\<lambda>ids.
      collect_results (map (\<lambda>(row, id).
          bindr (is_valid (bp_validity parts) row) (\<lambda>valid.
          if \<not> valid then
            (if id = 0 then Inr (case dictionary of [] \<Rightarrow> 0 | v # _ \<Rightarrow> v) else Inl Corrupt)
          else if unat id < length dictionary then Inr (dictionary ! unat id)
          else Inl Corrupt)) (enumerate 0 ids))))))"

definition i64_try_from :: "int \<Rightarrow> (sidecar_error, i64) result" where
  "i64_try_from x = (if - (2 ^ 63) \<le> x \<and> x < 2 ^ 63 then Inr (word_of_int x) else Inl Corrupt)"

definition decode_frame :: "block_parts \<Rightarrow> (sidecar_error, i64 list) result" where
  "decode_frame parts =
     (if bp_auxiliary_count parts \<noteq> 0 then Inl Corrupt
      else bindr (ok_or (slice (bp_payload parts) 0 8) Corrupt) (\<lambda>base_bytes.
      if bp_null_count parts = bp_row_count parts then Inl Corrupt
      else bindr (bindr (tail_at (bp_payload parts) 8) (\<lambda>packed. unpack packed (bp_row_count parts) (bp_bit_width parts)))
        (\<lambda>deltas.
      let expected_width = (case max_unsigned deltas of None \<Rightarrow> 0 | Some m \<Rightarrow> bit_width m) in
      if bp_bit_width parts \<noteq> expected_width then Inl Corrupt
      else let base = i64_from_le base_bytes in
      collect_results (map (\<lambda>(row, delta).
          bindr (is_valid (bp_validity parts) row) (\<lambda>valid.
          if \<not> valid \<and> delta \<noteq> 0 then Inl Corrupt
          else i64_try_from (sint base + uint delta))) (enumerate 0 deltas)))))"

record decoded_block =
  db_data_type :: predicate_type
  db_values :: "i64 option list"

definition decode_block :: "byte list \<Rightarrow> (sidecar_error, decoded_block) result" where
  "decode_block bytes =
     bindr (parse bytes) (\<lambda>parts.
     bindr (case bp_encoding parts of
              Dictionary \<Rightarrow> decode_dictionary parts
            | FrameOfReference \<Rightarrow> decode_frame parts) (\<lambda>encoded.
     bindr (collect_results (map (\<lambda>(row, value).
         bindr (is_valid (bp_validity parts) row) (\<lambda>valid.
         if valid then bindr (validate_value (bp_data_type parts) value) (\<lambda>_. Inr (Some value))
         else Inr None)) (enumerate 0 encoded))) (\<lambda>values.
     Inr \<lparr>db_data_type = bp_data_type parts, db_values = values\<rparr>)))"

definition decoded_evaluate :: "decoded_block \<Rightarrow> predicate \<Rightarrow> bool list" where
  "decoded_evaluate block predicate = map (\<lambda>value. evaluate_value value predicate) (db_values block)"

subsection \<open>Evaluation on the encoded form\<close>

definition validate_dictionary :: "byte list \<Rightarrow> (sidecar_error, unit) result" where
  "validate_dictionary dictionary =
     bindr (try_fold (\<lambda>previous value.
         case previous of
           Some p \<Rightarrow> if sint p \<ge> sint value then Inl Corrupt else Inr (Some value)
         | None \<Rightarrow> Inr (Some value))
       None (map i64_from_le (chunks_exact8 dictionary))) (\<lambda>_. Inr ())"

definition dictionary_value :: "byte list \<Rightarrow> nat \<Rightarrow> (sidecar_error, i64) result" where
  "dictionary_value dictionary i =
     bindr (ok_or (checked_mul i 8) TooLarge) (\<lambda>start.
     bindr (ok_or (checked_add start 8) TooLarge) (\<lambda>stop.
     bindr (ok_or (slice dictionary start stop) Corrupt) (\<lambda>bytes. Inr (i64_from_le bytes))))"

definition evaluate_dictionary ::
  "block_parts \<Rightarrow> predicate list \<Rightarrow> (sidecar_error, bool list) result" where
  "evaluate_dictionary parts predicates =
     (let expected_width = bit_width (of_nat (bp_auxiliary_count parts - 1)) in
      if bp_bit_width parts \<noteq> expected_width then Inl Corrupt
      else bindr (ok_or (checked_mul (bp_auxiliary_count parts) 8) TooLarge) (\<lambda>dictionary_bytes.
      bindr (ok_or (slice (bp_payload parts) 0 dictionary_bytes) Corrupt) (\<lambda>dictionary.
      bindr (validate_dictionary dictionary) (\<lambda>_.
      bindr (bindr (tail_at (bp_payload parts) dictionary_bytes) (\<lambda>packed.
               unpack packed (bp_row_count parts) (bp_bit_width parts))) (\<lambda>ids.
      try_fold (\<lambda>selection (row, id).
          bindr (is_valid (bp_validity parts) row) (\<lambda>valid.
          if \<not> valid then
            (if id \<noteq> 0 then Inl Corrupt
             else Inr (selection @ [evaluate_all_values None predicates]))
          else bindr (dictionary_value dictionary (unat id)) (\<lambda>value.
               bindr (validate_value (bp_data_type parts) value) (\<lambda>_.
               Inr (selection @ [evaluate_all_values (Some value) predicates])))))
        [] (enumerate 0 ids))))))"

definition evaluate_frame ::
  "block_parts \<Rightarrow> predicate list \<Rightarrow> (sidecar_error, bool list) result" where
  "evaluate_frame parts predicates =
     (if bp_auxiliary_count parts \<noteq> 0 \<or> bp_null_count parts = bp_row_count parts then Inl Corrupt
      else bindr (ok_or (slice (bp_payload parts) 0 8) Corrupt) (\<lambda>base_bytes.
      let base = i64_from_le base_bytes in
      bindr (bindr (tail_at (bp_payload parts) 8) (\<lambda>packed. unpack packed (bp_row_count parts) (bp_bit_width parts)))
        (\<lambda>deltas.
      bindr (try_fold (\<lambda>(selection, max_delta) (row, delta).
          let max_delta = max max_delta delta in
          bindr (is_valid (bp_validity parts) row) (\<lambda>valid.
          if \<not> valid then
            (if delta \<noteq> 0 then Inl Corrupt
             else Inr (selection @ [evaluate_all_values None predicates], max_delta))
          else bindr (i64_try_from (sint base + uint delta)) (\<lambda>value.
               bindr (validate_value (bp_data_type parts) value) (\<lambda>_.
               Inr (selection @ [evaluate_all_values (Some value) predicates], max_delta)))))
        ([], 0) (enumerate 0 deltas)) (\<lambda>(selection, max_delta).
      let expected_width = bit_width max_delta in
      if bp_bit_width parts \<noteq> expected_width then Inl Corrupt else Inr selection))))"

definition evaluate_parts ::
  "block_parts \<Rightarrow> predicate list \<Rightarrow> (sidecar_error, bool list) result" where
  "evaluate_parts parts predicates = (case bp_encoding parts of
       Dictionary \<Rightarrow> evaluate_dictionary parts predicates
     | FrameOfReference \<Rightarrow> evaluate_frame parts predicates)"

definition evaluate_all_block ::
  "byte list \<Rightarrow> predicate list \<Rightarrow> (sidecar_error, bool list) result" where
  "evaluate_all_block bytes predicates =
     bindr (parse bytes) (\<lambda>parts. evaluate_parts parts predicates)"

definition evaluate_all_block_typed ::
  "byte list \<Rightarrow> predicate_type \<Rightarrow> predicate list \<Rightarrow> (sidecar_error, bool list) result" where
  "evaluate_all_block_typed bytes expected predicates =
     bindr (parse bytes) (\<lambda>parts.
     if bp_data_type parts \<noteq> expected then Inl Corrupt else evaluate_parts parts predicates)"

definition evaluate_all_bytes_for_type ::
  "byte list \<Rightarrow> arrow_type \<Rightarrow> predicate list \<Rightarrow> (sidecar_error, bool list) result" where
  "evaluate_all_bytes_for_type bytes data_type predicates =
     bindr (from_arrow data_type) (\<lambda>expected. evaluate_all_block_typed bytes expected predicates)"

subsection \<open>Decoding of selected rows\<close>

text \<open>The closure \<open>append\<close> pushes onto an Arrow builder; the builder is the list of appended values.
  \<open>selection[row]\<close> panics outside the selection.\<close>

definition append_selected ::
  "bool list \<Rightarrow> nat \<Rightarrow> 'a option \<Rightarrow> 'a option list \<Rightarrow> (sidecar_error, 'a option list) result" where
  "append_selected selection row value builder =
     (if row < length selection
      then Inr (if selection ! row then builder @ [value] else builder)
      else Inl Panicked)"

definition validate_dictionary_typed ::
  "predicate_type \<Rightarrow> byte list \<Rightarrow> (sidecar_error, unit) result" where
  "validate_dictionary_typed data_type dictionary =
     bindr (try_fold (\<lambda>previous value.
         bindr (validate_value data_type value) (\<lambda>_.
         case previous of
           Some p \<Rightarrow> if sint p \<ge> sint value then Inl Corrupt else Inr (Some value)
         | None \<Rightarrow> Inr (Some value)))
       None (map i64_from_le (chunks_exact8 dictionary))) (\<lambda>_. Inr ())"

definition visit_dictionary ::
  "block_parts \<Rightarrow> bool list \<Rightarrow> (i64 \<Rightarrow> 'a) \<Rightarrow> (sidecar_error, 'a option list) result" where
  "visit_dictionary parts selection cast =
     (let expected_width = bit_width (of_nat (bp_auxiliary_count parts - 1)) in
      if bp_bit_width parts \<noteq> expected_width then Inl Corrupt
      else bindr (ok_or (checked_mul (bp_auxiliary_count parts) 8) TooLarge) (\<lambda>dictionary_bytes.
      bindr (ok_or (slice (bp_payload parts) 0 dictionary_bytes) Corrupt) (\<lambda>dictionary.
      bindr (validate_dictionary_typed (bp_data_type parts) dictionary) (\<lambda>_.
      bindr (bindr (tail_at (bp_payload parts) dictionary_bytes) (\<lambda>packed.
               unpack packed (bp_row_count parts) (bp_bit_width parts))) (\<lambda>ids.
      try_fold (\<lambda>builder (row, id).
          bindr (is_valid (bp_validity parts) row) (\<lambda>valid.
          bindr (if valid then bindr (dictionary_value dictionary (unat id)) (\<lambda>v. Inr (Some v))
                 else if id \<noteq> 0 then Inl Corrupt else Inr None) (\<lambda>value.
          append_selected selection row (map_option cast value) builder)))
        [] (enumerate 0 ids))))))"

definition visit_frame ::
  "block_parts \<Rightarrow> bool list \<Rightarrow> (i64 \<Rightarrow> 'a) \<Rightarrow> (sidecar_error, 'a option list) result" where
  "visit_frame parts selection cast =
     (if bp_auxiliary_count parts \<noteq> 0 \<or> bp_null_count parts = bp_row_count parts then Inl Corrupt
      else bindr (ok_or (slice (bp_payload parts) 0 8) Corrupt) (\<lambda>base_bytes.
      let base = i64_from_le base_bytes in
      bindr (bindr (tail_at (bp_payload parts) 8) (\<lambda>packed. unpack packed (bp_row_count parts) (bp_bit_width parts)))
        (\<lambda>deltas.
      bindr (try_fold (\<lambda>(builder, max_delta) (row, delta).
          let max_delta = max max_delta delta in
          bindr (is_valid (bp_validity parts) row) (\<lambda>valid.
          bindr (if valid then
                   bindr (i64_try_from (sint base + uint delta)) (\<lambda>value.
                   bindr (validate_value (bp_data_type parts) value) (\<lambda>_. Inr (Some value)))
                 else if delta \<noteq> 0 then Inl Corrupt else Inr None) (\<lambda>value.
          bindr (append_selected selection row (map_option cast value) builder) (\<lambda>builder.
          Inr (builder, max_delta)))))
        ([], 0) (enumerate 0 deltas)) (\<lambda>(builder, max_delta).
      let expected_width = bit_width max_delta in
      if bp_bit_width parts \<noteq> expected_width then Inl Corrupt else Inr builder))))"

definition visit_selected ::
  "block_parts \<Rightarrow> bool list \<Rightarrow> (i64 \<Rightarrow> 'a) \<Rightarrow> (sidecar_error, 'a option list) result" where
  "visit_selected parts selection cast = (case bp_encoding parts of
       Dictionary \<Rightarrow> visit_dictionary parts selection cast
     | FrameOfReference \<Rightarrow> visit_frame parts selection cast)"

datatype arrow_array =
    Int8Array "8 word option list"
  | Int16Array "16 word option list"
  | Int32Array "32 word option list"
  | Int64Array "64 word option list"
  | Date32Array "32 word option list"
  | Decimal128Array byte byte "128 word option list"

definition decode_selected_array ::
  "(byte \<Rightarrow> byte \<Rightarrow> bool) \<Rightarrow> byte list \<Rightarrow> arrow_type \<Rightarrow> bool list
   \<Rightarrow> (sidecar_error, arrow_array) result" where
  "decode_selected_array decimal_metadata_ok bytes data_type selection =
     bindr (from_arrow data_type) (\<lambda>expected.
     bindr (parse bytes) (\<lambda>parts.
     if bp_data_type parts \<noteq> expected then Inl Corrupt
     else if length selection \<noteq> bp_row_count parts then Inl Corrupt
     else case expected of
         Int8 \<Rightarrow> bindr (visit_selected parts selection ucast) (\<lambda>b. Inr (Int8Array b))
       | Int16 \<Rightarrow> bindr (visit_selected parts selection ucast) (\<lambda>b. Inr (Int16Array b))
       | Int32 \<Rightarrow> bindr (visit_selected parts selection ucast) (\<lambda>b. Inr (Int32Array b))
       | Int64 \<Rightarrow> bindr (visit_selected parts selection id) (\<lambda>b. Inr (Int64Array b))
       | Date32 \<Rightarrow> bindr (visit_selected parts selection ucast) (\<lambda>b. Inr (Date32Array b))
       | Decimal128 p s \<Rightarrow> bindr (visit_selected parts selection scast) (\<lambda>b.
           if decimal_metadata_ok p s then Inr (Decimal128Array p s b) else Inl Corrupt)))"

section \<open>The tail after a prefix\<close>

text \<open>Each path takes a prefix of the payload with a checked \<open>get\<close> and then indexes the rest,
  which therefore never panics.\<close>

lemma decode_dictionary_eq:
  "decode_dictionary parts =
     (let expected_width = bit_width (of_nat (bp_auxiliary_count parts - 1)) in
      if bp_bit_width parts \<noteq> expected_width then Inl Corrupt
      else bindr (ok_or (checked_mul (bp_auxiliary_count parts) 8) TooLarge) (\<lambda>dictionary_bytes.
      bindr (ok_or (slice (bp_payload parts) 0 dictionary_bytes) Corrupt) (\<lambda>prefix.
      let dictionary = map i64_from_le (chunks_exact8 prefix) in
      if windows_unordered dictionary then Inl Corrupt
      else bindr (unpack (drop dictionary_bytes (bp_payload parts)) (bp_row_count parts)
                    (bp_bit_width parts)) (\<lambda>ids.
      collect_results (map (\<lambda>(row, id).
          bindr (is_valid (bp_validity parts) row) (\<lambda>valid.
          if \<not> valid then
            (if id = 0 then Inr (case dictionary of [] \<Rightarrow> 0 | v # _ \<Rightarrow> v) else Inl Corrupt)
          else if unat id < length dictionary then Inr (dictionary ! unat id)
          else Inl Corrupt)) (enumerate 0 ids))))))"
  unfolding decode_dictionary_def Let_def by (intro if_cong refl bindr_cong) (simp_all add: result_simps tail_after_slice)

lemma decode_frame_eq:
  "decode_frame parts =
     (if bp_auxiliary_count parts \<noteq> 0 then Inl Corrupt
      else bindr (ok_or (slice (bp_payload parts) 0 8) Corrupt) (\<lambda>base_bytes.
      if bp_null_count parts = bp_row_count parts then Inl Corrupt
      else bindr (unpack (drop 8 (bp_payload parts)) (bp_row_count parts) (bp_bit_width parts))
        (\<lambda>deltas.
      let expected_width = (case max_unsigned deltas of None \<Rightarrow> 0 | Some m \<Rightarrow> bit_width m) in
      if bp_bit_width parts \<noteq> expected_width then Inl Corrupt
      else let base = i64_from_le base_bytes in
      collect_results (map (\<lambda>(row, delta).
          bindr (is_valid (bp_validity parts) row) (\<lambda>valid.
          if \<not> valid \<and> delta \<noteq> 0 then Inl Corrupt
          else i64_try_from (sint base + uint delta))) (enumerate 0 deltas)))))"
  unfolding decode_frame_def Let_def by (intro if_cong refl bindr_cong) (simp_all add: result_simps tail_after_slice)

lemma evaluate_dictionary_eq:
  "evaluate_dictionary parts predicates =
     (let expected_width = bit_width (of_nat (bp_auxiliary_count parts - 1)) in
      if bp_bit_width parts \<noteq> expected_width then Inl Corrupt
      else bindr (ok_or (checked_mul (bp_auxiliary_count parts) 8) TooLarge) (\<lambda>dictionary_bytes.
      bindr (ok_or (slice (bp_payload parts) 0 dictionary_bytes) Corrupt) (\<lambda>dictionary.
      bindr (validate_dictionary dictionary) (\<lambda>_.
      bindr (unpack (drop dictionary_bytes (bp_payload parts)) (bp_row_count parts)
               (bp_bit_width parts)) (\<lambda>ids.
      try_fold (\<lambda>selection (row, id).
          bindr (is_valid (bp_validity parts) row) (\<lambda>valid.
          if \<not> valid then
            (if id \<noteq> 0 then Inl Corrupt
             else Inr (selection @ [evaluate_all_values None predicates]))
          else bindr (dictionary_value dictionary (unat id)) (\<lambda>value.
               bindr (validate_value (bp_data_type parts) value) (\<lambda>_.
               Inr (selection @ [evaluate_all_values (Some value) predicates])))))
        [] (enumerate 0 ids))))))"
  unfolding evaluate_dictionary_def Let_def by (intro if_cong refl bindr_cong) (simp_all add: result_simps tail_after_slice)

lemma evaluate_frame_eq:
  "evaluate_frame parts predicates =
     (if bp_auxiliary_count parts \<noteq> 0 \<or> bp_null_count parts = bp_row_count parts then Inl Corrupt
      else bindr (ok_or (slice (bp_payload parts) 0 8) Corrupt) (\<lambda>base_bytes.
      let base = i64_from_le base_bytes in
      bindr (unpack (drop 8 (bp_payload parts)) (bp_row_count parts) (bp_bit_width parts))
        (\<lambda>deltas.
      bindr (try_fold (\<lambda>(selection, max_delta) (row, delta).
          let max_delta = max max_delta delta in
          bindr (is_valid (bp_validity parts) row) (\<lambda>valid.
          if \<not> valid then
            (if delta \<noteq> 0 then Inl Corrupt
             else Inr (selection @ [evaluate_all_values None predicates], max_delta))
          else bindr (i64_try_from (sint base + uint delta)) (\<lambda>value.
               bindr (validate_value (bp_data_type parts) value) (\<lambda>_.
               Inr (selection @ [evaluate_all_values (Some value) predicates], max_delta)))))
        ([], 0) (enumerate 0 deltas)) (\<lambda>(selection, max_delta).
      let expected_width = bit_width max_delta in
      if bp_bit_width parts \<noteq> expected_width then Inl Corrupt else Inr selection))))"
  unfolding evaluate_frame_def Let_def by (intro if_cong refl bindr_cong) (simp_all add: result_simps tail_after_slice)

lemma visit_dictionary_eq:
  "visit_dictionary parts selection cast =
     (let expected_width = bit_width (of_nat (bp_auxiliary_count parts - 1)) in
      if bp_bit_width parts \<noteq> expected_width then Inl Corrupt
      else bindr (ok_or (checked_mul (bp_auxiliary_count parts) 8) TooLarge) (\<lambda>dictionary_bytes.
      bindr (ok_or (slice (bp_payload parts) 0 dictionary_bytes) Corrupt) (\<lambda>dictionary.
      bindr (validate_dictionary_typed (bp_data_type parts) dictionary) (\<lambda>_.
      bindr (unpack (drop dictionary_bytes (bp_payload parts)) (bp_row_count parts)
               (bp_bit_width parts)) (\<lambda>ids.
      try_fold (\<lambda>builder (row, id).
          bindr (is_valid (bp_validity parts) row) (\<lambda>valid.
          bindr (if valid then bindr (dictionary_value dictionary (unat id)) (\<lambda>v. Inr (Some v))
                 else if id \<noteq> 0 then Inl Corrupt else Inr None) (\<lambda>value.
          append_selected selection row (map_option cast value) builder)))
        [] (enumerate 0 ids))))))"
  unfolding visit_dictionary_def Let_def by (intro if_cong refl bindr_cong) (simp_all add: result_simps tail_after_slice)

lemma visit_frame_eq:
  "visit_frame parts selection cast =
     (if bp_auxiliary_count parts \<noteq> 0 \<or> bp_null_count parts = bp_row_count parts then Inl Corrupt
      else bindr (ok_or (slice (bp_payload parts) 0 8) Corrupt) (\<lambda>base_bytes.
      let base = i64_from_le base_bytes in
      bindr (unpack (drop 8 (bp_payload parts)) (bp_row_count parts) (bp_bit_width parts))
        (\<lambda>deltas.
      bindr (try_fold (\<lambda>(builder, max_delta) (row, delta).
          let max_delta = max max_delta delta in
          bindr (is_valid (bp_validity parts) row) (\<lambda>valid.
          bindr (if valid then
                   bindr (i64_try_from (sint base + uint delta)) (\<lambda>value.
                   bindr (validate_value (bp_data_type parts) value) (\<lambda>_. Inr (Some value)))
                 else if delta \<noteq> 0 then Inl Corrupt else Inr None) (\<lambda>value.
          bindr (append_selected selection row (map_option cast value) builder) (\<lambda>builder.
          Inr (builder, max_delta)))))
        ([], 0) (enumerate 0 deltas)) (\<lambda>(builder, max_delta).
      let expected_width = bit_width max_delta in
      if bp_bit_width parts \<noteq> expected_width then Inl Corrupt else Inr builder))))"
  unfolding visit_frame_def Let_def by (intro if_cong refl bindr_cong) (simp_all add: result_simps tail_after_slice)

end
