(* ===== verification/Sidecar_Roundtrip.thy ===== *)
theory Sidecar_Roundtrip
  imports Sidecar_Correct
begin

text \<open>
  Encoding a column chunk and reading it back: the validity bitmap records which rows are present,
  both candidate payloads decode to the original values, and a block written by \<open>encode_block\<close>
  decodes and evaluates as the values it was built from.
\<close>

section \<open>The validity bitmap\<close>

definition present_rows :: "i64 option list \<Rightarrow> nat set" where
  "present_rows values = {i. i < length values \<and> values ! i \<noteq> None}"

definition validity_step ::
  "byte list \<times> nat \<Rightarrow> nat \<times> i64 option \<Rightarrow> (sidecar_error, byte list \<times> nat) result" where
  "validity_step = (\<lambda>(validity, null_count) (row, value).
         if value \<noteq> None then Inr (set_bit_at validity row, null_count)
         else if null_count + 1 < 2 ^ 32 then Inr (validity, null_count + 1)
         else Inl TooLarge)"

lemma build_validity_alt:
  "build_validity values =
     try_fold validity_step (replicate (div_ceil (length values) 8) 0, 0) (enumerate 0 values)"
  by (simp add: build_validity_def validity_step_def)

lemma present_rows_Cons:
  "present_rows (v # vs) = (if v \<noteq> None then {0} else {}) \<union> Suc ` present_rows vs"
  by (auto simp: present_rows_def image_iff nth_Cons' less_Suc_eq_0_disj split: if_splits)

lemma validity_loop:
  assumes "n + length vs \<le> 8 * length validity" and "nulls + length vs < 2 ^ 32"
  shows "\<exists>validity'. try_fold validity_step (validity, nulls) (enumerate n vs)
            = Inr (validity', nulls + length (filter (\<lambda>v. v = None) vs))
          \<and> length validity' = length validity
          \<and> set_rows validity' = set_rows validity \<union> (+) n ` present_rows vs"
  using assms
proof (induction vs arbitrary: n validity nulls)
  case (Cons v vs)
  have img: "(+) n ` Suc ` A = (+) (Suc n) ` A" for A by (simp add: image_image)
  show ?case
  proof (cases "v = None")
    case True
    then show ?thesis
      using Cons.prems Cons.IH [of "Suc n" validity "Suc nulls"]
      by (auto simp: validity_step_def present_rows_Cons img)
  next
    case False
    then have "set_rows (set_bit_at validity n) = insert n (set_rows validity)"
      using Cons.prems by (intro set_rows_set_bit_at) simp
    then show ?thesis
      using False Cons.prems Cons.IH [of "Suc n" "set_bit_at validity n" nulls]
      by (auto simp: validity_step_def present_rows_Cons img)
  qed
qed (simp add: present_rows_def)

lemma div_ceil_8_bound: "n \<le> 8 * div_ceil n 8"
  using div_mult_mod_eq [of "n + 7" 8] mod_less_divisor [of 8 "n + 7"]
  by (simp add: div_ceil_def)

lemma build_validity_spec:
  assumes "length values < 2 ^ 32"
  obtains validity where
    "build_validity values = Inr (validity, length (filter (\<lambda>v. v = None) values))"
    "length validity = div_ceil (length values) 8"
    "set_rows validity = present_rows values"
proof -
  have "0 + length values \<le> 8 * length (replicate (div_ceil (length values) 8) (0 :: byte))"
    using div_ceil_8_bound by simp
  from validity_loop [OF this, of 0] assms show thesis
    by (auto simp: build_validity_alt intro: that)
qed

lemma card_present_rows:
  "length (filter (\<lambda>v. v = None) values) + card (present_rows values) = length values"
proof -
  have "card (present_rows values) = length (filter (\<lambda>v. v \<noteq> None) values)"
    by (simp add: present_rows_def length_filter_conv_card)
  then show ?thesis using sum_length_filter_compl [of "\<lambda>v. v = None" "values"] by simp
qed

section \<open>Codes and cells\<close>

text \<open>When every present row's code denotes its value and every null row's code is zero, the cells
  are the values.\<close>

lemma cells_of_codes:
  assumes ok: "parts_ok p" and n: "bp_row_count p = length values" "length codes = length values"
    and bm: "set_rows (bp_validity p) = present_rows values"
    and row: "\<And>i. i < length values \<Longrightarrow> (case values ! i of
        None \<Rightarrow> codes ! i = 0
      | Some v \<Rightarrow> entry (codes ! i) = Inr v \<and> value_valid (bp_data_type p) v)"
  shows "collect_results (map (row_cell p entry) (enumerate 0 codes)) = Inr values"
proof -
  have bit: "is_valid (bp_validity p) i = Inr (values ! i \<noteq> None)" if "i < length values" for i
  proof -
    from ok n have "length (bp_validity p) = (length values + 7) div 8" by (simp add: parts_ok_def)
    then have "i < 8 * length (bp_validity p)"
      using that div_ceil_8_bound [of "length values"] by (simp add: div_ceil_def)
    then have "test_bit (bp_validity p) i \<longleftrightarrow> i \<in> set_rows (bp_validity p)" by (simp add: set_rows_def)
    then show ?thesis using that is_valid_in_range [OF ok, of i] n bm by (simp add: present_rows_def)
  qed
  have "row_cell p entry (i, codes ! i) = Inr (values ! i)" if "i < length values" for i
    using row [OF that] bit [OF that]
    by (cases "values ! i") (auto simp: row_cell_def validate_value_def)
  then have "map (row_cell p entry) (enumerate 0 codes) = map Inr values"
    using n by (intro nth_equalityI) (simp_all add: nth_enumerate_eq)
  then show ?thesis by (simp add: collect_results_Inr)
qed

section \<open>The dictionary candidate\<close>

lemma present_set: "v \<in> set (present values) \<longleftrightarrow> Some v \<in> set values"
  by (auto simp: present_def map_filter_def image_iff)

lemma remdups_adj_strict:
  fixes xs :: "i64 list"
  shows "sorted (map sint xs) \<Longrightarrow> sorted_wrt (\<lambda>a b. sint a < sint b) (remdups_adj xs)"
proof (induction xs rule: remdups_adj.induct)
  case (3 x y xs)
  show ?case
  proof (cases "x = y")
    case False
    with "3.prems" have "sint x < sint y" by (auto simp: order_less_le signed_word_eqI)
    with False 3 show ?thesis by fastforce
  qed (use 3 in simp)
qed simp_all

lemma sorted_distinct_spec:
  "sorted_wrt (\<lambda>a b. sint a < sint b) (sorted_distinct vs)" "set (sorted_distinct vs) = set vs"
  by (simp_all add: sorted_distinct_def remdups_adj_strict)

lemma sorted_distinct_distinct: "distinct (sorted_distinct vs)"
proof -
  have "sorted_wrt (<) (map sint (sorted_distinct vs))"
    using sorted_distinct_spec(1) [of vs] by (simp add: sorted_wrt_map)
  then show ?thesis by (auto simp: strict_sorted_iff distinct_map)
qed

lemma value_ids_nth:
  fixes D :: "i64 list"
  assumes "distinct D" and "i < length values"
  shows "(case values ! i of None \<Rightarrow> value_ids D values ! i = 0
     | Some v \<Rightarrow> v \<in> set D \<longrightarrow>
         (\<exists>k < length D. D ! k = v \<and> value_ids D values ! i = of_nat k))"
proof (cases "values ! i")
  case (Some v)
  have "\<exists>k < length D. D ! k = v \<and> value_ids D values ! i = of_nat k" if "v \<in> set D"
  proof -
    from that obtain k where k: "k < length D" "D ! k = v" by (auto simp: in_set_conv_nth)
    have "map_of (zip D (map of_nat [0..<length D])) v = Some (of_nat k :: 64 word)"
      using assms(1) k map_of_zip_nth [of D "map of_nat [0..<length D]" k] by simp
    with k Some assms(2) show ?thesis by (auto simp: value_ids_def)
  qed
  with Some show ?thesis by simp
qed (use assms in \<open>simp add: value_ids_def\<close>)

text \<open>What a block built from a candidate has in common with it.\<close>

definition built_from :: "block_parts \<Rightarrow> candidate \<Rightarrow> i64 option list \<Rightarrow> bool" where
  "built_from p c values \<longleftrightarrow> parts_ok p \<and> bp_encoding p = cand_encoding c
     \<and> bp_bit_width p = cand_bit_width c \<and> bp_auxiliary_count p = cand_auxiliary_count c
     \<and> bp_payload p = cand_payload c \<and> bp_row_count p = length values
     \<and> set_rows (bp_validity p) = present_rows values
     \<and> (\<forall>v \<in> set (present values). value_valid (bp_data_type p) v)"

lemma packed_len_bounds:
  "packed_len n w = Inr l \<Longrightarrow> w \<le> 64 \<and> n * w + 7 < u64_limit"
  by (auto simp: packed_len_Inr)

lemma value_valid_nth:
  assumes "built_from p c values" and "i < length values" and "values ! i = Some v"
  shows "value_valid (bp_data_type p) v" and "v \<in> set (present values)"
  using assms nth_mem [of i "values"] by (auto simp: built_from_def present_set)

lemma of_nat_index_bound:
  fixes k n :: nat
  assumes "k < n" and "n < 2 ^ 32"
  shows "unat (of_nat k :: 64 word) = k" and "k < 2 ^ bit_width (of_nat (n - 1))"
proof -
  have u: "unat (of_nat j :: 64 word) = j" if "j < 2 ^ 32" for j
    using that by (simp add: unat_of_nat)
  show "unat (of_nat k :: 64 word) = k" using assms by (intro u) simp
  have "n - 1 < 2 ^ bit_width (of_nat (n - 1) :: 64 word)"
    using bit_width_bound [of "of_nat (n - 1) :: 64 word"] u [of "n - 1"] assms by simp
  with assms show "k < 2 ^ bit_width (of_nat (n - 1))" by linarith
qed

lemma dictionary_candidate_cells:
  assumes cand: "dictionary_candidate values = Inr c" and b: "built_from p c values"
  shows "dictionary_cells p = Inr values"
proof -
  define D where "D = sorted_distinct (present values)"
  define ids where "ids = value_ids D values"
  define w where "w = bit_width (of_nat (length D - 1) :: 64 word)"
  from cand obtain packed l where dl: "length D < 2 ^ 32" and lim: "length D * 8 < u64_limit"
    and pl: "packed_len (length values) w = Inr l" and pk: "pack ids w = Inr packed"
    and c: "c = \<lparr>cand_encoding = Dictionary, cand_bit_width = w, cand_auxiliary_count = length D,
              cand_payload = concat (map i64_to_le D) @ packed\<rparr>"
    by (auto simp: dictionary_candidate_def Let_def result_simps D_def ids_def w_def
        u32_try_from_def split: if_splits)
  have len: "length (concat (map i64_to_le D)) = length D * 8"
    by (simp add: length_concat comp_def sum_list_triv)
  have pre: "dictionary_prefix p = concat (map i64_to_le D)"
    using b len c by (simp add: dictionary_prefix_def built_from_def)
  have D: "dictionary_of p = D"
    by (simp add: dictionary_of_def pre chunks_exact8_concat comp_def)
  have ok: "dictionary_ok p"
    using b c lim len D sorted_distinct_spec(1) [of "present values"]
    by (simp add: dictionary_ok_def built_from_def w_def D_def)
  have nth: "(case values ! i of None \<Rightarrow> ids ! i = 0 | Some v \<Rightarrow>
      (\<exists>k < length D. D ! k = v \<and> ids ! i = of_nat k))" if "i < length values" for i
    using value_ids_nth [OF sorted_distinct_distinct that, of "present values"]
      value_valid_nth(2) [OF b that] sorted_distinct_spec(2) [of "present values"]
    by (auto simp: D_def ids_def split: option.splits)
  have idl: "length ids = length values" by (simp add: ids_def value_ids_def)
  have "values_fit w ids"
  proof (unfold values_fit_def, rule ballI)
    fix x assume "x \<in> set ids"
    then obtain i where i: "i < length values" "x = ids ! i" by (auto simp: in_set_conv_nth idl)
    then show "unat x < 2 ^ w"
      using nth [OF i(1)] of_nat_index_bound [OF _ dl] by (auto simp: w_def split: option.splits)
  qed
  then have "unpack packed (length values) w = Inr ids"
    using unpack_pack [OF pk] packed_len_bounds [OF pl] idl by simp
  then have ids: "dictionary_ids p = Inr ids"
    using b c len by (simp add: dictionary_ids_def built_from_def)
  have "collect_results (map (row_cell p (dictionary_entry D)) (enumerate 0 ids)) = Inr values"
  proof (rule cells_of_codes)
    fix i assume i: "i < length values"
    show "case values ! i of None \<Rightarrow> ids ! i = 0
       | Some v \<Rightarrow> dictionary_entry D (ids ! i) = Inr v \<and> value_valid (bp_data_type p) v"
      using nth [OF i] value_valid_nth(1) [OF b i] of_nat_index_bound(1) [OF _ dl]
      by (auto simp: dictionary_entry_def split: option.splits)
  qed (use b idl in \<open>auto simp: built_from_def\<close>)
  then show ?thesis by (simp add: dictionary_cells_def ok ids D)
qed

section \<open>The frame-of-reference candidate\<close>

lemma fold_min_signed:
  fixes m :: i64 and rest :: "i64 list"
  defines "r \<equiv> fold (\<lambda>x m. if sint x < sint m then x else m) rest m"
  shows "r \<in> insert m (set rest)" and "\<forall>x \<in> insert m (set rest). sint r \<le> sint x"
  unfolding r_def by (induction rest arbitrary: m) fastforce+

lemma min_signed_spec:
  assumes "min_signed vs = Some base"
  shows "base \<in> set vs" and "\<forall>v \<in> set vs. sint base \<le> sint v"
  using assms fold_min_signed [where m = "hd vs" and rest = "tl vs"]
  by (auto simp: min_signed_def split: list.splits)

lemma min_signed_None: "min_signed vs = None \<longleftrightarrow> vs = []"
  by (auto simp: min_signed_def split: list.splits)

lemma fold_max_upper:
  fixes m :: "'a :: linorder"
  shows "m \<le> fold max ds m \<and> (\<forall>d \<in> set ds. d \<le> fold max ds m)"
proof (induction ds arbitrary: m)
  case (Cons d ds)
  show ?case using Cons.IH [of "max d m"] by simp
qed simp

lemma frame_entry_delta:
  assumes "u64_try_from (sint v - sint base) = Inr d"
  shows "frame_entry base d = Inr v"
proof -
  have "uint (word_of_int x :: 64 word) = x" if "0 \<le> x" "x < 2 ^ 64" for x
    using that by (simp add: uint_word_of_int take_bit_int_eq_self)
  from this [of "sint v - sint base"] assms have "uint d = sint v - sint base"
    by (auto simp: u64_try_from_def simp del: of_int_diff split: if_splits)
  then show ?thesis by (simp add: frame_entry_def)
qed

lemma frame_candidate_cells:
  assumes cand: "frame_candidate values = Inr (Some c)" and b: "built_from p c values"
  shows "frame_cells p = Inr values"
proof -
  define delta where "delta = (\<lambda>(base :: i64) (value :: i64 option). case value of
      Some v \<Rightarrow> u64_try_from (sint v - sint base) | None \<Rightarrow> Inr (0 :: 64 word))"
  from cand obtain base ds packed l w where base: "min_signed (present values) = Some base"
    and ds: "collect_results (map (delta base) values) = Inr ds" and w: "w = bit_width (fold max ds 0)"
    and pl: "packed_len (length values) w = Inr l" and pk: "pack ds w = Inr packed"
    and c: "c = \<lparr>cand_encoding = FrameOfReference, cand_bit_width = w, cand_auxiliary_count = 0,
              cand_payload = i64_to_le base @ packed\<rparr>"
    unfolding frame_candidate_def max_unsigned_width delta_def
    by (auto simp: Let_def result_simps split: option.splits)
  from ds have dsl: "length ds = length values" and nth: "i < length values \<Longrightarrow> delta base (values ! i) = Inr (ds ! i)" for i
    by (auto simp: collect_results_Inr list_eq_iff_nth_eq)
  have "present values \<noteq> []" using base min_signed_None [of "present values"] by auto
  then obtain v where "v \<in> set (present values)" by (cases "present values") auto
  then have "Some v \<in> set values" by (simp add: present_set)
  then have "present_rows values \<noteq> {}" by (auto simp: present_rows_def in_set_conv_nth)
  moreover have "finite (present_rows values)" by (simp add: present_rows_def)
  ultimately have "card (present_rows values) \<noteq> 0" by simp
  then have ok: "frame_ok p"
    using b c by (auto simp: frame_ok_def built_from_def parts_ok_def)
  have fb: "frame_base p = base" using b c by (simp add: frame_base_def built_from_def)
  have "unat d < 2 ^ w" if "d \<in> set ds" for d
  proof -
    have "d \<le> fold max ds 0" using fold_max_upper [of 0 ds] that by blast
    then have "unat d \<le> unat (fold max ds 0)" by (simp only: word_le_nat_alt)
    also have "\<dots> < 2 ^ w" unfolding w by (rule bit_width_bound)
    finally show ?thesis .
  qed
  then have "unpack packed (length values) w = Inr ds"
    using unpack_pack [OF pk] packed_len_bounds [OF pl] dsl by (simp add: values_fit_def)
  then have fd: "frame_deltas p = Inr ds" using b c by (simp add: frame_deltas_def built_from_def)
  have "collect_results (map (row_cell p (frame_entry base)) (enumerate 0 ds)) = Inr values"
  proof (rule cells_of_codes)
    fix i assume i: "i < length values"
    show "case values ! i of None \<Rightarrow> ds ! i = 0
       | Some v \<Rightarrow> frame_entry base (ds ! i) = Inr v \<and> value_valid (bp_data_type p) v"
      using nth [OF i] value_valid_nth(1) [OF b i]
      by (auto simp: delta_def frame_entry_delta split: option.splits)
  qed (use b dsl in \<open>auto simp: built_from_def\<close>)
  then show ?thesis
    using b c w by (simp add: frame_cells_def ok fd fb built_from_def)
qed

section \<open>The block\<close>

lemma candidate_shape:
  "dictionary_candidate values = Inr c \<Longrightarrow>
     cand_bit_width c \<le> 64 \<and> cand_auxiliary_count c < 2 ^ 32 \<and> cand_encoding c = Dictionary"
  "frame_candidate values = Inr (Some c) \<Longrightarrow>
     cand_bit_width c \<le> 64 \<and> cand_auxiliary_count c < 2 ^ 32 \<and> cand_encoding c = FrameOfReference"
  by (auto simp: dictionary_candidate_def frame_candidate_def Let_def result_simps u32_try_from_def
      bit_width_le_64 dest: packed_len_bounds split: if_splits option.splits)

lemma collect_validate:
  "collect_results (map (validate_value t) vs) = Inr us \<Longrightarrow> \<forall>v \<in> set vs. value_valid t v"
  by (induction vs arbitrary: us) (auto simp: result_simps)

lemma encode_block_decode:
  assumes "encode_block t values = Inr (Some bytes)"
  shows "decode_block bytes = Inr \<lparr>db_data_type = t, db_values = values\<rparr>"
proof -
  from assms obtain validity nulls dict frame c us where
    ty: "validate_type t = Inr ()" and us: "collect_results (map (validate_value t) (present values)) = Inr us"
    and n: "length values < 2 ^ 32" and bv: "build_validity values = Inr (validity, nulls)"
    and dict: "dictionary_candidate values = Inr dict" and frame: "frame_candidate values = Inr frame"
    and c: "c = (case frame of
           Some f \<Rightarrow> if length (cand_payload f) < length (cand_payload dict) then f else dict
         | None \<Rightarrow> dict)" and pl: "length (cand_payload c) < 2 ^ 32"
    and asm: "assemble \<lparr>h_data_type = t, h_encoding = cand_encoding c,
                     h_bit_width = cand_bit_width c, h_row_count = length values,
                     h_null_count = nulls, h_auxiliary_count = cand_auxiliary_count c,
                     h_validity_len = length validity, h_payload_len = length (cand_payload c)\<rparr>
                   validity (cand_payload c) = Inr bytes"
    by (auto simp: encode_block_def Let_def result_simps u32_try_from_def split: if_split_asm)
  define p where "p = \<lparr>bp_data_type = t, bp_encoding = cand_encoding c, bp_bit_width = cand_bit_width c,
    bp_row_count = length values, bp_null_count = nulls,
    bp_auxiliary_count = cand_auxiliary_count c, bp_validity = validity, bp_payload = cand_payload c\<rparr>"
  have kind: "cand_bit_width c \<le> 64 \<and> cand_auxiliary_count c < 2 ^ 32
    \<and> (cand_encoding c = Dictionary \<and> c = dict \<or> cand_encoding c = FrameOfReference \<and> frame = Some c)"
    using c candidate_shape(1) [OF dict] candidate_shape(2) [of "values" c] frame
    by (auto split: option.splits if_splits)
  obtain v' where "build_validity values = Inr (v', length (filter (\<lambda>v. v = None) values))"
    "length v' = div_ceil (length values) 8" "set_rows v' = present_rows values"
    by (rule build_validity_spec [OF n])
  with bv have vl: "length validity = (length values + 7) div 8"
    and vr: "set_rows validity = present_rows values"
    and nl: "nulls = length (filter (\<lambda>v. v = None) values)"
    by (simp_all add: div_ceil_def)
  have ok: "parts_ok p"
    using ty n pl kind card_present_rows [of "values"] vl vr nl
    by (simp add: parts_ok_def p_def) (auto simp: present_rows_def)
  then have "built_from p c values"
    using collect_validate [OF us] vr by (simp add: built_from_def p_def)
  then have "block_cells p = Inr values"
    using kind dictionary_candidate_cells [OF dict] frame_candidate_cells [of "values" c p] frame
    by (auto simp: block_cells_def p_def)
  moreover have "parse bytes = Inr p"
    using parse_assemble [OF ok] asm by (simp add: header_of_def p_def)
  ultimately show ?thesis by (simp add: decode_block_Inr p_def)
qed

end
