(* ===== verification/Sidecar_Select.thy ===== *)
theory Sidecar_Select
  imports Sidecar_Correct
begin

text \<open>
  Decoding of selected rows into typed Arrow arrays: what is appended is the selected part of the
  block's cells, and narrowing a validated value to the column's width loses nothing.
\<close>

section \<open>Selected cells\<close>

definition selected :: "bool list \<Rightarrow> 'a list \<Rightarrow> 'a list" where
  "selected selection xs = map snd (filter (\<lambda>(s, _). s) (zip selection xs))"

text \<open>The same selection by row number, as the loop makes it.\<close>

definition selected_from :: "bool list \<Rightarrow> nat \<Rightarrow> 'a list \<Rightarrow> 'a list" where
  "selected_from selection n xs = map snd (filter (\<lambda>(i, _). selection ! i) (enumerate n xs))"

lemma selected_from_0:
  assumes "length selection = length xs"
  shows "selected_from selection 0 xs = selected selection xs"
proof -
  have "selected_from (pre @ selection) (length pre) xs = selected selection xs" for pre
    using assms
  proof (induction xs arbitrary: selection pre)
    case (Cons x xs)
    then obtain s sel where "selection = s # sel" by (cases selection) auto
    with Cons.IH [of sel "pre @ [s]"] Cons.prems show ?case
      by (simp add: selected_from_def selected_def nth_append)
  qed (simp add: selected_from_def selected_def)
  from this [of "[]"] show ?thesis by simp
qed

lemma append_loop:
  assumes "n + length xs \<le> length selection"
  shows "try_fold (\<lambda>builder (row, c). bindr (f (row, c)) (\<lambda>v.
           append_selected selection row (map_option cast v) builder)) acc (enumerate n xs)
       = bindr (collect_results (map f (enumerate n xs)))
           (\<lambda>vs. Inr (acc @ map (map_option cast) (selected_from selection n vs)))"
  using assms
proof (induction xs arbitrary: n acc)
  case (Cons x xs)
  then show ?case
    by (cases "f (n, x)"; cases "collect_results (map f (enumerate (Suc n) xs))")
      (simp_all add: append_selected_def selected_from_def)
qed (simp add: selected_from_def)

lemma append_loop_max:
  fixes xs :: "'m :: linorder list"
  assumes "n + length xs \<le> length selection"
  shows "try_fold (\<lambda>(builder, m) (row, d). bindr (f (row, d)) (\<lambda>v.
           bindr (append_selected selection row (map_option cast v) builder)
             (\<lambda>builder. Inr (builder, max m d)))) (acc, m) (enumerate n xs)
       = bindr (collect_results (map f (enumerate n xs)))
           (\<lambda>vs. Inr (acc @ map (map_option cast) (selected_from selection n vs), fold max xs m))"
  using assms
proof (induction xs arbitrary: n acc m)
  case (Cons x xs)
  then show ?case
    by (cases "f (n, x)"; cases "collect_results (map f (enumerate (Suc n) xs))")
      (simp_all add: append_selected_def selected_from_def max.commute)
qed (simp add: selected_from_def)

section \<open>The two encodings\<close>

definition dictionary_visit_row ::
  "block_parts \<Rightarrow> byte list \<Rightarrow> nat \<times> 64 word \<Rightarrow> (sidecar_error, i64 option) result" where
  "dictionary_visit_row p dictionary = (\<lambda>(row, id).
     bindr (is_valid (bp_validity p) row) (\<lambda>valid.
       if valid then bindr (dictionary_value dictionary (unat id)) (\<lambda>v. Inr (Some v))
       else if id \<noteq> 0 then Inl Corrupt else Inr None))"

lemma visit_dictionary_body:
  "(\<lambda>builder (row, id).
      bindr (is_valid (bp_validity p) row) (\<lambda>valid.
      bindr (if valid then bindr (dictionary_value d (unat (id :: 64 word))) (\<lambda>v. Inr (Some v))
             else if id \<noteq> 0 then Inl Corrupt else Inr None) (\<lambda>value.
      append_selected selection row (map_option cast value) builder))) =
   (\<lambda>builder (row, c). bindr (dictionary_visit_row p d (row, c)) (\<lambda>v.
      append_selected selection row (map_option cast v) builder))"
  by (auto simp: fun_eq_iff dictionary_visit_row_def bindr_def split: sum.split)

definition dictionary_values_ok :: "block_parts \<Rightarrow> bool" where
  "dictionary_values_ok p \<longleftrightarrow> (\<forall>v \<in> set (dictionary_of p). value_valid (bp_data_type p) v)"

lemma dictionary_visit_row_cell:
  assumes "dictionary_ok p" and "dictionary_values_ok p"
  shows "dictionary_visit_row p (dictionary_prefix p) x = Inr y \<longleftrightarrow>
         row_cell p (dictionary_entry (dictionary_of p)) x = Inr y"
proof -
  have v: "value_valid (bp_data_type p) v" if "dictionary_entry (dictionary_of p) c = Inr v" for c v
    using that assms(2)
    by (auto simp: dictionary_entry_def dictionary_values_ok_def split: if_splits)
  obtain row c where x: "x = (row, c)" by (cases x)
  show ?thesis
    using v by (cases "is_valid (bp_validity p) row")
      (auto simp: x dictionary_visit_row_def row_cell_def result_simps dictionary_value_entry [OF assms(1)])
qed

lemma visit_dictionary_cells:
  assumes len: "length selection = bp_row_count p"
  shows "visit_dictionary p selection cast = Inr out \<longleftrightarrow> dictionary_values_ok p \<and>
     (\<exists>vs. dictionary_cells p = Inr vs \<and> out = map (map_option cast) (selected_from selection 0 vs))"
proof (cases "dictionary_ok p \<and> dictionary_values_ok p")
  case True
  then have val: "validate_dictionary_typed (bp_data_type p) (dictionary_prefix p) = Inr ()"
    by (simp add: validate_dictionary_typed_Inr dictionary_ok_def dictionary_of_def dictionary_values_ok_def)
  have "visit_dictionary p selection cast = bindr (dictionary_ids p) (\<lambda>ids.
      try_fold (\<lambda>builder (row, c). bindr (dictionary_visit_row p (dictionary_prefix p) (row, c)) (\<lambda>v.
        append_selected selection row (map_option cast v) builder)) [] (enumerate 0 ids))"
    using True val unfolding visit_dictionary_eq visit_dictionary_body dictionary_ok_def
      dictionary_prefix_def dictionary_ids_def checked_mul_def slice_def Let_def
    by simp
  moreover have "n = bp_row_count p" if "dictionary_ids p = Inr ids" "n = length ids" for ids n
    using that by (simp add: dictionary_ids_def unpack_length)
  moreover note c = collect_results_cong_Inr [OF dictionary_visit_row_cell]
  ultimately show ?thesis using True len
    by (cases "dictionary_ids p")
      (auto simp: append_loop dictionary_cells_def result_simps c)
next
  case False
  have "dictionary_ok p \<and> dictionary_values_ok p" if "visit_dictionary p selection cast = Inr out"
    using that unfolding visit_dictionary_eq Let_def
    by (auto simp: dictionary_ok_def dictionary_of_def dictionary_prefix_def dictionary_values_ok_def
        result_simps validate_dictionary_typed_Inr split: if_splits)
  with False show ?thesis by (auto simp: dictionary_cells_def split: if_splits)
qed

lemma visit_frame_body:
  "(\<lambda>(builder, max_delta) (row, delta).
      let max_delta = max max_delta delta in
      bindr (is_valid (bp_validity p) row) (\<lambda>valid.
      bindr (if valid then
               bindr (i64_try_from (sint base + uint (delta :: 64 word))) (\<lambda>value.
               bindr (validate_value (bp_data_type p) value) (\<lambda>_. Inr (Some value)))
             else if delta \<noteq> 0 then Inl Corrupt else Inr None) (\<lambda>value.
      bindr (append_selected selection row (map_option cast value) builder) (\<lambda>builder.
      Inr (builder, max_delta))))) =
   (\<lambda>(builder, m) (row, d). bindr (row_cell p (frame_entry base) (row, d)) (\<lambda>v.
      bindr (append_selected selection row (map_option cast v) builder)
        (\<lambda>builder. Inr (builder, max m d))))"
  by (auto simp: fun_eq_iff row_cell_def frame_entry_def bindr_def split: sum.split)

lemma visit_frame_cells:
  assumes len: "length selection = bp_row_count p"
  shows "visit_frame p selection cast = Inr out \<longleftrightarrow>
     (\<exists>vs. frame_cells p = Inr vs \<and> out = map (map_option cast) (selected_from selection 0 vs))"
proof (cases "frame_ok p")
  case True
  then have eq: "visit_frame p selection cast = bindr (frame_deltas p) (\<lambda>ds.
      bindr (try_fold (\<lambda>(builder, m) (row, d). bindr (row_cell p (frame_entry (frame_base p)) (row, d)) (\<lambda>v.
        bindr (append_selected selection row (map_option cast v) builder)
          (\<lambda>builder. Inr (builder, max m d)))) ([], 0) (enumerate 0 ds)) (\<lambda>(builder, m).
      if bp_bit_width p \<noteq> bit_width m then Inl Corrupt else Inr builder))"
    unfolding visit_frame_eq visit_frame_body frame_ok_def frame_deltas_def frame_base_def slice_def
    by (simp add: Let_def)
  show ?thesis
  proof (cases "frame_deltas p")
    case (Inr ds)
    then have "length ds = bp_row_count p" by (simp add: frame_deltas_def unpack_length)
    then show ?thesis
      using True len append_loop_max [of 0 ds selection "row_cell p (frame_entry (frame_base p))" cast "[]" 0]
      by (auto simp: eq Inr frame_cells_def result_simps split: if_splits)
  qed (simp add: eq frame_cells_def)
next
  case False
  have "frame_ok p" if "visit_frame p selection cast = Inr out"
    using that unfolding visit_frame_eq Let_def
    by (auto simp: frame_ok_def result_simps split: if_splits)
  with False show ?thesis by (auto simp: frame_cells_def)
qed

definition block_values_ok :: "block_parts \<Rightarrow> bool" where
  "block_values_ok p \<longleftrightarrow> (bp_encoding p = Dictionary \<longrightarrow> dictionary_values_ok p)"

lemma visit_selected_cells:
  assumes "length selection = bp_row_count p"
  shows "visit_selected p selection cast = Inr out \<longleftrightarrow> block_values_ok p \<and>
     (\<exists>vs. block_cells p = Inr vs \<and> out = map (map_option cast) (selected_from selection 0 vs))"
  using assms
  by (auto simp: visit_selected_def block_cells_def block_values_ok_def visit_dictionary_cells
      visit_frame_cells split: encoding.split)

lemma block_cells_facts:
  assumes "block_cells p = Inr vs"
  shows "length vs = bp_row_count p" and "Some v \<in> set vs \<Longrightarrow> value_valid (bp_data_type p) v"
proof -
  from assms obtain codes entry where u: "length codes = bp_row_count p"
    and c: "collect_results (map (row_cell p entry) (enumerate 0 codes)) = Inr vs"
    by (cases "bp_encoding p")
      (auto simp: block_cells_def dictionary_cells_def frame_cells_def result_simps
        dictionary_ids_def frame_deltas_def dest: unpack_length split: if_splits)
  then show "length vs = bp_row_count p" using collect_results_length by fastforce
  assume "Some v \<in> set vs"
  with c have "Inr (Some v) \<in> set (map (row_cell p entry) (enumerate 0 codes))"
    by (auto simp: collect_results_Inr)
  then show "value_valid (bp_data_type p) v"
    by (auto simp: row_cell_def result_simps split: if_splits dest: sym)
qed

section \<open>Typed arrays\<close>

text \<open>The values an array denotes, as signed 64-bit integers.\<close>

fun array_values :: "arrow_array \<Rightarrow> i64 option list" where
  "array_values (Int8Array xs) = map (map_option scast) xs"
| "array_values (Int16Array xs) = map (map_option scast) xs"
| "array_values (Int32Array xs) = map (map_option scast) xs"
| "array_values (Int64Array xs) = xs"
| "array_values (Date32Array xs) = map (map_option scast) xs"
| "array_values (Decimal128Array p s xs) = map (map_option ucast) xs"

lemma scast_ucast_narrow:
  fixes v :: i64
  assumes "fits_signed LENGTH('n) v" and "LENGTH('n) \<le> 64"
  shows "scast (ucast v :: 'n::len word) = v"
proof -
  have "sint (ucast v :: 'n word) = signed_take_bit (LENGTH('n) - 1) (uint v)"
    by (simp add: signed_ucast_eq)
  also have "\<dots> = signed_take_bit (LENGTH('n) - 1) (sint v)"
  proof -
    have "min (LENGTH('n) - 1) 63 = LENGTH('n) - 1" using assms(2) by simp
    then show ?thesis by (simp add: sint_uint)
  qed
  also have "\<dots> = sint v"
    using assms(1) by (intro signed_take_bit_int_eq_self) (simp_all add: fits_signed_def)
  finally have "sint (ucast v :: 'n word) = sint v" .
  then show ?thesis by (simp add: scast_eq)
qed

lemma narrow_lossless:
  fixes v :: i64
  shows "value_valid Int8 v \<Longrightarrow> scast (ucast v :: 8 word) = v"
    "value_valid Int16 v \<Longrightarrow> scast (ucast v :: 16 word) = v"
    "value_valid Int32 v \<Longrightarrow> scast (ucast v :: 32 word) = v"
    "value_valid Date32 v \<Longrightarrow> scast (ucast v :: 32 word) = v"
    "ucast (scast v :: 128 word) = v"
  using scast_ucast_narrow [where 'n = 8, of v] scast_ucast_narrow [where 'n = 16, of v]
    scast_ucast_narrow [where 'n = 32, of v]
  by (simp_all) (simp add: bit_eq_iff bit_simps)

lemma map_option_narrow:
  assumes "\<And>v. Some v \<in> set xs \<Longrightarrow> g (f v) = v"
  shows "map (map_option g) (map (map_option f) xs) = xs"
proof -
  have "map_option g (map_option f x) = x" if "x \<in> set xs" for x
    using assms that by (cases x) auto
  then show ?thesis by (simp add: map_idI)
qed

lemma set_selected: "set (selected selection xs) \<subseteq> set xs"
  by (auto simp: selected_def dest: set_zip_rightD)

lemma decode_selected_array_values:
  assumes "decode_selected_array dm bytes data_type selection = Inr arr"
  shows "\<exists>d. decode_block bytes = Inr d \<and> from_arrow data_type = Inr (db_data_type d)
           \<and> length selection = length (db_values d)
           \<and> array_values arr = selected selection (db_values d)"
proof -
  from assms obtain t p where t: "from_arrow data_type = Inr t" and p: "parse bytes = Inr p"
    and tp: "bp_data_type p = t" and len: "length selection = bp_row_count p"
    and vis: "(case t of
         Int8 \<Rightarrow> bindr (visit_selected p selection ucast) (\<lambda>b. Inr (Int8Array b))
       | Int16 \<Rightarrow> bindr (visit_selected p selection ucast) (\<lambda>b. Inr (Int16Array b))
       | Int32 \<Rightarrow> bindr (visit_selected p selection ucast) (\<lambda>b. Inr (Int32Array b))
       | Int64 \<Rightarrow> bindr (visit_selected p selection id) (\<lambda>b. Inr (Int64Array b))
       | Date32 \<Rightarrow> bindr (visit_selected p selection ucast) (\<lambda>b. Inr (Date32Array b))
       | Decimal128 q s \<Rightarrow> bindr (visit_selected p selection scast) (\<lambda>b.
           if dm q s then Inr (Decimal128Array q s b) else Inl Corrupt)) = Inr arr"
    by (auto simp: decode_selected_array_def result_simps split: if_splits)
  note cells = visit_selected_cells [OF len]
  from vis obtain vs where vs: "block_cells p = Inr vs"
    by (cases t) (auto simp: result_simps cells)
  have l: "length selection = length vs" using block_cells_facts(1) [OF vs] len by simp
  have valid: "Some v \<in> set (selected selection vs) \<Longrightarrow> value_valid t v" for v
    using block_cells_facts(2) [OF vs] set_selected [of selection vs] tp by blast
  have "array_values arr = selected selection vs"
    using vis valid narrow_lossless
    by (cases t) (auto simp: result_simps cells vs selected_from_0 [OF l] map_option_narrow
        map_option.id [unfolded id_def] option.map_id0 split: if_splits simp del: map_map)
  moreover have "decode_block bytes = Inr \<lparr>db_data_type = t, db_values = vs\<rparr>"
    using p vs tp by (simp add: decode_block_Inr)
  ultimately show ?thesis using t l by force
qed

end
