(* ===== verification/Sidecar_Properties.thy ===== *)
theory Sidecar_Properties
  imports Sidecar_Roundtrip Sidecar_Select
begin

text \<open>
  The properties of the predicate sidecar: bit packing is a bijection onto the canonical payloads,
  blocks round-trip, evaluation on the encoded form agrees with decoding, selected decoding agrees
  with decoding, and no input makes the readers index out of range.
\<close>

section \<open>Supporting facts\<close>

lemma pack_loop_fits:
  assumes "pack_loop w vs buffer buffered out = Inr bytes"
  shows "w < 64 \<Longrightarrow> values_fit w vs"
  using assms
proof (induction vs arbitrary: buffer buffered out)
  case (Cons v vs)
  have "(2 :: nat) ^ w < 2 ^ 64" using Cons.prems(1) by (intro power_strict_increasing) simp_all
  then have "unat (push_bit w 1 :: 64 word) = 2 ^ w" by (subst unat_push_bit_small) simp_all
  moreover have "\<not> push_bit w 1 \<le> v" using Cons.prems by (auto split: if_splits)
  ultimately have "unat v < 2 ^ w" by (simp add: word_le_nat_alt)
  moreover have "values_fit w vs"
    using Cons.IH [OF Cons.prems(1)] Cons.prems by (auto split: if_splits prod.splits)
  ultimately show ?case by simp
qed (simp add: values_fit_def)

lemma pack_Inr_fits:
  assumes "pack vs w = Inr bytes"
  shows "w \<le> 64" and "length vs * w + 7 < u64_limit" and "values_fit w vs"
proof -
  from assms obtain l where l: "packed_len (length vs) w = Inr l" and p: "pack_loop w vs 0 0 [] = Inr bytes"
    by (auto simp: pack_def result_simps)
  from packed_len_bounds [OF l] show w: "w \<le> 64" and "length vs * w + 7 < u64_limit" by simp_all
  show "values_fit w vs"
  proof (cases "w = 64")
    case True
    then show ?thesis using unat_less_2p [where 'a = 64] by (auto simp: values_fit_def)
  next
    case False
    with w pack_loop_fits [OF p] show ?thesis by simp
  qed
qed

lemma row_cell_not_panicked:
  assumes "parts_ok p" and "row < bp_row_count p" and "\<And>c. entry c \<noteq> Inl Panicked"
  shows "row_cell p entry (row, c) \<noteq> Inl Panicked"
  using assms(3) by (auto simp: row_cell_def is_valid_in_range [OF assms(1,2)] result_simps)

lemma collect_rows_Inl:
  assumes "collect_results (map f (enumerate 0 codes)) = Inl e"
  shows "\<exists>row c. row < length codes \<and> f (row, c) = Inl e"
proof -
  from assms obtain row c where "(row, c) \<in> set (enumerate 0 codes)" "f (row, c) = Inl e"
    by (auto dest!: collect_results_Inl)
  then show ?thesis by (auto simp: in_set_enumerate_eq)
qed

lemma cells_not_panicked:
  assumes "parts_ok p" and "length codes = bp_row_count p" and "\<And>c. entry c \<noteq> Inl Panicked"
  shows "collect_results (map (row_cell p entry) (enumerate 0 codes)) \<noteq> Inl Panicked"
  using collect_rows_Inl [of "row_cell p entry" codes Panicked] row_cell_not_panicked [of p _ entry] assms
  by metis

lemma evaluate_parts_not_panicked:
  assumes "parts_ok p"
  shows "evaluate_parts p predicates \<noteq> Inl Panicked"
proof
  assume pan: "evaluate_parts p predicates = Inl Panicked"
  have dv: "dictionary_value d c \<noteq> Inl Panicked" for d c
    by (simp add: dictionary_value_def result_simps)
  have fe: "frame_entry b c \<noteq> Inl Panicked" for b c
    by (simp add: frame_entry_def i64_try_from_def)
  have vd: "validate_dictionary d \<noteq> Inl Panicked" for d
    by (auto simp: validate_dictionary_def result_simps elim!: try_fold_Inl split: option.splits if_splits)
  show False
  proof (cases "bp_encoding p")
    case Dictionary
    with pan have "evaluate_dictionary p predicates = Inl Panicked" by (simp add: evaluate_parts_def)
    then show False
      unfolding evaluate_dictionary_eq evaluate_dictionary_body try_fold_collect Let_def
      using cells_not_panicked [OF assms] dv vd unpack_not_panicked
      by (auto simp: result_simps dest!: unpack_length split: if_splits)
  next
    case FrameOfReference
    with pan have "evaluate_frame p predicates = Inl Panicked" by (simp add: evaluate_parts_def)
    then show False
      unfolding evaluate_frame_eq evaluate_frame_body evaluate_frame_loop
      using cells_not_panicked [OF assms] fe unpack_not_panicked
      by (auto simp: result_simps Let_def dest!: unpack_length split: if_splits)
  qed
qed

lemma parse_steps_not_panicked [simp]:
  "validate_type t \<noteq> Inl Panicked" "from_format tag q s \<noteq> Inl Panicked"
  "encoding_from_tag tag \<noteq> Inl Panicked" "read_uint n bytes k \<noteq> Inl Panicked"
  "validate_validity validity rows nulls \<noteq> Inl Panicked"
proof -
  show t: "validate_type t \<noteq> Inl Panicked" for t by (cases t) auto
  show "from_format tag q s \<noteq> Inl Panicked"
    using t by (simp add: from_format_def result_simps)
qed (simp_all add: encoding_from_tag_def read_uint_def validate_validity_def result_simps)

lemma parse_not_panicked: "parse bytes \<noteq> Inl Panicked"
  by (simp add: parse_eq result_simps Let_def)

lemma decode_block_not_panicked: "decode_block bytes \<noteq> Inl Panicked"
proof
  assume pan: "decode_block bytes = Inl Panicked"
  with parse_not_panicked obtain p where p: "parse bytes = Inr p"
    by (cases "parse bytes") (auto simp: decode_block_def)
  have ok: "parts_ok p" by (rule parse_Inr_parts_ok [OF p])
  have row: "is_valid (bp_validity p) row \<noteq> Inl Panicked" if "row < bp_row_count p" for row
    using is_valid_in_range [OF ok that] by simp
  have dict: "decode_dictionary p \<noteq> Inl Panicked"
    unfolding decode_dictionary_eq Let_def using unpack_not_panicked row
    by (auto simp: result_simps dest!: collect_rows_Inl unpack_length split: if_splits)
  have frame: "decode_frame p \<noteq> Inl Panicked"
    unfolding decode_frame_eq Let_def using unpack_not_panicked row
    by (auto simp: result_simps i64_try_from_def dest!: collect_rows_Inl unpack_length split: if_splits)
  have len: "length enc = bp_row_count p"
    if "decode_dictionary p = Inr enc \<or> decode_frame p = Inr enc" for enc
    using that
    by (auto simp: decode_dictionary_eq decode_frame_eq result_simps Let_def
        dest!: unpack_length collect_results_length split: if_splits)
  show False
    using pan dict frame row len
    by (fastforce simp: decode_block_def p result_simps split: encoding.splits if_splits dest!: collect_rows_Inl)
qed

text \<open>A column chunk with a null that is worth encoding.\<close>

definition sample_column :: "i64 option list" where
  "sample_column = [None, Some 7, Some 7, Some 7, Some 7, Some 7, Some 7, Some 7, Some 7, Some 7,
     Some 7, Some 7, Some 7]"

lemmas encode_defs = encode_block_def present_def map_filter_def validate_value_def
  u32_try_from_def build_validity_def div_ceil_def set_bit_at_def dictionary_candidate_def
  frame_candidate_def Let_def sorted_distinct_def sort_key_def value_ids_def bit_width_def
  checked_mul_def checked_add_def packed_len_def pack_def flush_bytes.simps i64_to_le_def
  min_signed_def max_unsigned_def u64_try_from_def assemble_def HEADER_BYTES_def MAGIC_def
  ascii_def DIRECTORY_ENTRY_BYTES_def saturating_mul_def

lemma sample_encodes:
  obtains bytes where "encode_block (Decimal128 18 0) sample_column = Inr (Some bytes)"
proof -
  have "(case encode_block (Decimal128 18 0) sample_column of Inr (Some b) \<Rightarrow> True | _ \<Rightarrow> False)"
    by (simp add: sample_column_def encode_defs)
  then show thesis by (auto split: sum.splits option.splits intro: that)
qed

section \<open>Properties\<close>

text \<open>C18: Packing and unpacking are inverse: a list packs to a payload exactly when that payload,
  read with the same width and the list's length, unpacks to the list.  In particular every payload
  the reader accepts is the one the writer would have produced.\<close>

theorem pack_iff_unpack:
  "pack vs w = Inr bytes \<longleftrightarrow> unpack bytes (length vs) w = Inr vs"
  using unpack_pack pack_unpack pack_Inr_fits by blast

text \<open>C5: A column chunk that was encoded decodes to its logical type and its values, nulls
  included.\<close>

theorem encode_then_decode:
  "encode_block t values = Inr (Some bytes) \<Longrightarrow>
     decode_block bytes = Inr \<lparr>db_data_type = t, db_values = values\<rparr>"
  by (rule encode_block_decode)

theorem encode_then_decode_witness:
  "\<exists>bytes. encode_block (Decimal128 18 0) sample_column = Inr (Some bytes)
     \<and> decode_block bytes = Inr \<lparr>db_data_type = Decimal128 18 0, db_values = sample_column\<rparr>"
proof -
  obtain bytes where b: "encode_block (Decimal128 18 0) sample_column = Inr (Some bytes)"
    by (rule sample_encodes)
  from encode_then_decode [OF this] b show ?thesis by blast
qed

text \<open>C6: The scan evaluates a conjunction of predicates on the encoded bytes; for a block written by
  the encoder, under the Arrow type it was encoded for, the selection is the conjunction evaluated on
  the original values.\<close>

theorem encode_then_evaluate:
  assumes "encode_block t values = Inr (Some bytes)" and "from_arrow a = Inr t"
  shows "evaluate_all_bytes_for_type bytes a predicates
         = Inr (map (\<lambda>v. evaluate_all_values v predicates) values)"
proof -
  from encode_block_decode [OF assms(1)] obtain p where
    "parse bytes = Inr p" "block_cells p = Inr values" "bp_data_type p = t"
    by (auto simp: decode_block_Inr)
  then show ?thesis
    using assms(2) evaluate_parts_cells [of p predicates]
    by (simp add: evaluate_all_bytes_for_type_def evaluate_all_block_typed_def)
qed

theorem encode_then_evaluate_witness:
  "\<exists>bytes. encode_block (Decimal128 18 0) sample_column = Inr (Some bytes)
     \<and> evaluate_all_bytes_for_type bytes (ArrowDecimal128 18 0) [IsNotNull, Compare Less 8]
       = Inr (False # replicate 12 True)"
proof -
  obtain bytes where b: "encode_block (Decimal128 18 0) sample_column = Inr (Some bytes)"
    by (rule sample_encodes)
  have "from_arrow (ArrowDecimal128 18 0) = Inr (Decimal128 18 0)" by (simp add: from_arrow_def)
  from encode_then_evaluate [OF b this, of "[IsNotNull, Compare Less 8]"] b show ?thesis
    by (auto simp: sample_column_def evaluate_all_values_def numeral_eq_Suc)
qed

text \<open>C16: On arbitrary bytes, evaluation on the encoded form succeeds exactly when decoding does, and
  then selects exactly the rows whose decoded value satisfies every predicate.\<close>

theorem evaluate_equals_decode:
  "evaluate_all_block bytes predicates = Inr sel \<longleftrightarrow>
     (\<exists>d. decode_block bytes = Inr d
        \<and> sel = map (\<lambda>v. evaluate_all_values v predicates) (db_values d))"
  by (rule evaluate_all_block_decode)

text \<open>C20: Decoding selected rows into an Arrow array yields the selected rows of the full decoding:
  narrowing to the column's width loses no value.\<close>

theorem selected_decoding:
  assumes "decode_selected_array dm bytes a selection = Inr arr"
  shows "\<exists>d. decode_block bytes = Inr d \<and> from_arrow a = Inr (db_data_type d)
           \<and> length selection = length (db_values d)
           \<and> array_values arr = selected selection (db_values d)"
  using assms by (rule decode_selected_array_values)

text \<open>A frame-of-reference block of three 16-bit values, the second null.\<close>

definition sample_bytes :: "byte list" where
  "sample_bytes = MAGIC @ [1, 0, 40, 0, 2, 2, 1, 0, 0, 0, 0, 0, 3, 0, 0, 0, 1, 0, 0, 0, 1, 0, 0, 0,
     0, 0, 0, 0, 9, 0, 0, 0, 5, 5, 0, 0, 0, 0, 0, 0, 0, 4]"

lemma sample_parse:
  "parse sample_bytes = Inr \<lparr>bp_data_type = Int16, bp_encoding = FrameOfReference, bp_bit_width = 1,
     bp_row_count = 3, bp_null_count = 1, bp_auxiliary_count = 0, bp_validity = [5],
     bp_payload = [5, 0, 0, 0, 0, 0, 0, 0, 4]\<rparr>"
proof -
  have "total_ones [5] = 2" by (simp add: total_ones_def count_ones_def upt_rec)
  then have "validate_validity [5] 3 1 = Inr ()" by (simp add: validate_validity_def padding_mask_def)
  then show ?thesis
    by (simp add: parse_eq sample_bytes_def read_uint_def slice_def MAGIC_def ascii_def
        HEADER_BYTES_def VERSION_def from_format_def encoding_from_tag_def div_ceil_def
        checked_add_def Let_def cong: bindr_weak_cong)
qed

lemma sample_unpack: "unpack [4] 3 1 = Inr [0, 0, 1]"
proof -
  have "digits 1 3 4 = [0, 0, 1]" by (simp add: numeral_3_eq_3)
  then show ?thesis by (simp add: unpack_Inr)
qed

theorem selected_decoding_witness:
  "\<exists>d. decode_block sample_bytes = Inr d \<and> from_arrow ArrowInt16 = Inr (db_data_type d)
     \<and> length [True, False, True] = length (db_values d)
     \<and> array_values (Int16Array [Some 5, Some 6]) = selected [True, False, True] (db_values d)"
proof -
  have "decode_selected_array (\<lambda>_ _. True) sample_bytes ArrowInt16 [True, False, True]
        = Inr (Int16Array [Some 5, Some 6])"
    using sample_unpack
    by (simp add: decode_selected_array_def from_arrow_def sample_parse visit_selected_def
        visit_frame_eq slice_def Let_def is_valid_def test_bit_def i64_from_le_def i64_try_from_def
        validate_value_def fits_signed_def append_selected_def bit_width_def significant_bits.simps
        cong: bindr_weak_cong)
  from selected_decoding [OF this] show ?thesis .
qed

text \<open>C21: No byte string makes the decoder or the evaluator panic: every index they take lies in its
  slice, and every failure is an error value.\<close>

theorem readers_never_panic:
  "decode_block bytes \<noteq> Inl Panicked \<and> evaluate_all_block bytes predicates \<noteq> Inl Panicked"
proof
  show "decode_block bytes \<noteq> Inl Panicked" by (rule decode_block_not_panicked)
  show "evaluate_all_block bytes predicates \<noteq> Inl Panicked"
    using parse_not_panicked evaluate_parts_not_panicked parse_Inr_parts_ok
    by (auto simp: evaluate_all_block_def result_simps)
qed

text \<open>C22: The parser accepts exactly the byte strings that assembling a well-formed block
  produces (magic, version, header length, zero reserved bytes, agreeing row count and validity
  bitmap, clear padding, a null count that is the number of clear bits), and returns that block.\<close>

theorem parse_inverts_assemble:
  "parse bytes = Inr p \<longleftrightarrow>
     parts_ok p \<and> assemble (header_of p) (bp_validity p) (bp_payload p) = Inr bytes"
  using parse_assemble [of p] parse_Inr_parts_ok [of bytes p] assemble_parse [of bytes p] by auto

text \<open>A block is only kept when it and its directory entry take at most half the bytes of the raw
  fixed-width column, as the encoder's documentation promises.\<close>

theorem encode_halves:
  assumes "encode_block t values = Inr (Some bytes)"
  shows "2 * (length bytes + DIRECTORY_ENTRY_BYTES) \<le> length values * raw_width t"
proof -
  from assms have s: "saturating_mul (length bytes + DIRECTORY_ENTRY_BYTES) 2 \<le> length values * raw_width t"
    and b: "length values * raw_width t < u64_limit" and n: "length values < 2 ^ 32"
    by (auto simp: encode_block_def Let_def result_simps u32_try_from_def split: if_split_asm)
  have "raw_width t \<le> 16" by (cases t) simp_all
  with n have "length values * raw_width t \<le> 2 ^ 32 * 16" by (intro mult_le_mono) simp_all
  then have "length values * raw_width t < u64_max" by simp
  with s show ?thesis by (auto simp: saturating_mul_def min_def split: if_splits)
qed

theorem encode_halves_witness:
  "\<exists>bytes. encode_block (Decimal128 18 0) sample_column = Inr (Some bytes)
     \<and> 2 * (length bytes + DIRECTORY_ENTRY_BYTES) \<le> length sample_column * raw_width (Decimal128 18 0)"
proof -
  obtain bytes where b: "encode_block (Decimal128 18 0) sample_column = Inr (Some bytes)"
    by (rule sample_encodes)
  from encode_halves [OF this] b show ?thesis by blast
qed

end
