(* ===== verification/Native_Error.thy ===== *)
theory Native_Error
  imports Prelude
begin

text \<open>
  The error type of the engine (\<open>src/error.rs\<close>).  Message texts, paths and wrapped third-party
  errors are dropped; what remains is the variant and the numbers a caller can act on.  \<open>Panic\<close> is
  not a variant of the source: it is the outcome of an index or an \<open>expect\<close> that fails, and the
  theorems show where it cannot occur.
\<close>

datatype db_error =
    Io
  | Arrow
  | Parquet
  | ObjectStore
  | SqlParse
  | InvalidArgument
  | Unsupported
  | ResourceExhausted
  | NativeDiskQuotaExceeded (current_bytes: nat) (added_bytes: nat) (peak_bytes: nat) (limit_bytes: nat)
  | Cancelled
  | Catalog
  | TransactionClosed
  | TransactionConflict
  | NativeStorage
  | CommitOutcomeUnknown
  | NativeCommitPostCommitFailure (committed_generation: nat)
  | CopyPostCommitFailure
  | Execution
  | Internal
  | Panic

end
