(* ===== verification/Durable_Io.thy ===== *)
theory Durable_Io
  imports Native_Error "HOL-Library.AList"
begin

text \<open>
  Managed files (\<open>storage/native/io.rs\<close>): bounded reads, atomic creation and atomic replacement.

  A directory is an association list from names to regular files; a file is its bytes and whether
  they have been synced.  Each operation is a sequence of system calls.  A \<open>fault\<close> names the call
  that fails; the states between the calls are what a crash can leave behind, since a change of the
  directory that was not synced may be lost, which gives an earlier state of the sequence.
\<close>

section \<open>Bounded reads\<close>

type_synonym file_map = "string \<Rightarrow> byte list option"

definition read_bounded :: "file_map \<Rightarrow> string \<Rightarrow> nat \<Rightarrow> (db_error, byte list) result" where
  "read_bounded files path max_bytes = (case files path of
       None \<Rightarrow> Inl Io
     | Some bytes \<Rightarrow> if length bytes > max_bytes then Inl NativeStorage else Inr bytes)"

definition validate_size :: "nat \<Rightarrow> nat \<Rightarrow> (db_error, unit) result" where
  "validate_size len max_bytes = (if len > max_bytes then Inl NativeStorage else Inr ())"

text \<open>The read loop.  What one \<open>read\<close> call does is an event: it returns some of the requested
  bytes, at least one when any remain, or it is interrupted, or it fails.  \<open>None\<close>: the events given
  do not reach the end of the loop.\<close>

datatype read_event = Chunk nat | Interrupted | Read_Failed

definition CHUNK_BYTES :: nat where
  "CHUNK_BYTES = 8 * 1024"

definition read_call :: "nat \<Rightarrow> byte list \<Rightarrow> nat \<Rightarrow> byte list \<times> byte list" where
  "read_call requested rest n = (let k = min requested (max 1 n) in (take k rest, drop k rest))"

fun read_contents_bounded ::
  "nat \<Rightarrow> read_event list \<Rightarrow> byte list \<Rightarrow> byte list \<Rightarrow> (db_error, byte list) result option" where
  "read_contents_bounded max_bytes [] rest contents = None"
| "read_contents_bounded max_bytes (Interrupted # es) rest contents =
     read_contents_bounded max_bytes es rest contents"
| "read_contents_bounded max_bytes (Read_Failed # es) rest contents = Some (Inl Io)"
| "read_contents_bounded max_bytes (Chunk n # es) rest contents =
     (if length contents = max_bytes then
        (case read_call 1 rest n of
           ([], _) \<Rightarrow> Some (Inr contents)
         | (_ # _, _) \<Rightarrow> Some (Inl NativeStorage))
      else case read_call (min (max_bytes - length contents) CHUNK_BYTES) rest n of
           ([], _) \<Rightarrow> Some (Inr contents)
         | (got, rest') \<Rightarrow> read_contents_bounded max_bytes es rest' (contents @ got))"

section \<open>Atomic files\<close>

type_synonym dir = "(string \<times> byte list \<times> bool) list"

datatype fault = No_Fault | Fault (failing_call: nat) (written: nat) (cleanup_fails: bool)

definition lookup_file :: "dir \<Rightarrow> string \<Rightarrow> (byte list \<times> bool) option" where
  "lookup_file d name = map_of d name"

definition file_bytes :: "dir \<Rightarrow> file_map" where
  "file_bytes d name = map_option fst (lookup_file d name)"

definition exists_file :: "dir \<Rightarrow> string \<Rightarrow> bool" where
  "exists_file d name \<longleftrightarrow> lookup_file d name \<noteq> None"

definition put_file :: "string \<Rightarrow> byte list \<Rightarrow> bool \<Rightarrow> dir \<Rightarrow> dir" where
  "put_file name bytes synced d = AList.update name (bytes, synced) d"

definition remove_entry :: "string \<Rightarrow> dir \<Rightarrow> dir" where
  "remove_entry name d = AList.delete name d"

text \<open>The temporary name of an atomic operation, and the test for a leftover one.\<close>

definition temporary_name :: "string \<Rightarrow> string \<Rightarrow> string" where
  "temporary_name name unique = ''.'' @ name @ ''.'' @ unique @ ''.tmp''"

definition strip_prefix :: "string \<Rightarrow> string \<Rightarrow> string option" where
  "strip_prefix p s = (if take (length p) s = p then Some (drop (length p) s) else None)"

definition strip_suffix :: "string \<Rightarrow> string \<Rightarrow> string option" where
  "strip_suffix q s = (let k = length s - length q in
     if length q \<le> length s \<and> drop k s = q then Some (take k s) else None)"

definition is_atomic_create_temporary :: "(string \<Rightarrow> bool) \<Rightarrow> string \<Rightarrow> string \<Rightarrow> bool" where
  "is_atomic_create_temporary uuid_ok name target =
     (case Option.bind (strip_prefix (''.'' @ target @ ''.'') name) (strip_suffix ''.tmp'') of
        None \<Rightarrow> False
      | Some unique \<Rightarrow> uuid_ok unique)"

text \<open>\<open>remove_file\<close>: a missing file is not an error; a removal is synced.  The fault is the call
  that fails, 0 for the removal and 1 for the sync.\<close>

definition remove_file :: "nat option \<Rightarrow> string \<Rightarrow> dir \<Rightarrow> dir \<times> (db_error, unit) result" where
  "remove_file fail name d =
     (if fail = Some 0 then (d, Inl Io)
      else if \<not> exists_file d name then (d, Inr ())
      else if fail = Some 1 then (remove_entry name d, Inl Io)
      else (remove_entry name d, Inr ()))"

text \<open>The error paths of both operations remove the temporary file; when that fails too, it stays
  and the error is a storage error.\<close>

definition cleanup_temporary ::
  "fault \<Rightarrow> string \<Rightarrow> dir \<Rightarrow> dir \<times> (db_error, unit) result" where
  "cleanup_temporary fault tmp d = (case fault of
       Fault _ _ True \<Rightarrow> (d, Inl NativeStorage)
     | _ \<Rightarrow> (remove_entry tmp d, Inl Io))"

text \<open>The directory after each of the calls that write the temporary file: open, write, sync.\<close>

definition temporary_states :: "string \<Rightarrow> byte list \<Rightarrow> dir \<Rightarrow> dir list" where
  "temporary_states tmp bytes d =
     [d, put_file tmp [] False d, put_file tmp bytes False d, put_file tmp bytes True d]"

text \<open>Creation goes on with the link to the final name, the removal of the temporary name and the
  sync of the directory.\<close>

definition create_states :: "string \<Rightarrow> string \<Rightarrow> byte list \<Rightarrow> dir \<Rightarrow> dir list" where
  "create_states tmp name bytes d =
     (let linked = put_file name bytes True (put_file tmp bytes True d) in
      temporary_states tmp bytes d @ [linked, remove_entry tmp linked, remove_entry tmp linked])"

text \<open>Replacement goes on with the rename and the sync of the directory.\<close>

definition replace_states :: "string \<Rightarrow> string \<Rightarrow> byte list \<Rightarrow> dir \<Rightarrow> dir list" where
  "replace_states tmp name bytes d =
     temporary_states tmp bytes d @ [put_file name bytes True d, put_file name bytes True d]"

text \<open>The directory when call \<open>k\<close> fails: a failing write may have written part of the bytes.\<close>

definition failed_state :: "dir list \<Rightarrow> string \<Rightarrow> byte list \<Rightarrow> nat \<Rightarrow> nat \<Rightarrow> dir \<Rightarrow> dir" where
  "failed_state states tmp bytes k n d =
     (if k = 1 then put_file tmp (take n bytes) False d else states ! k)"

definition atomic_create ::
  "fault \<Rightarrow> string \<Rightarrow> string \<Rightarrow> byte list \<Rightarrow> dir \<Rightarrow> dir \<times> (db_error, unit) result" where
  "atomic_create fault tmp name bytes d =
     (let states = create_states tmp name bytes d in
      if exists_file d name then (d, Inl NativeStorage)
      else if exists_file d tmp then cleanup_temporary fault tmp d
      else case fault of
        Fault k n _ \<Rightarrow>
          if k < 6 then cleanup_temporary fault tmp (failed_state states tmp bytes k n d)
          else (states ! 6, Inr ())
      | No_Fault \<Rightarrow> (states ! 6, Inr ()))"

definition atomic_replace ::
  "fault \<Rightarrow> string \<Rightarrow> string \<Rightarrow> byte list \<Rightarrow> dir \<Rightarrow> dir \<times> (db_error, unit) result" where
  "atomic_replace fault tmp name bytes d =
     (let states = replace_states tmp name bytes d in
      if \<not> exists_file d name then (d, Inl Io)
      else if exists_file d tmp then cleanup_temporary fault tmp d
      else case fault of
        Fault k n _ \<Rightarrow>
          if k < 4 then cleanup_temporary fault tmp (failed_state states tmp bytes k n d)
          else if k = 4 then (states ! 4, Inl CommitOutcomeUnknown)
          else (states ! 5, Inr ())
      | No_Fault \<Rightarrow> (states ! 5, Inr ()))"

section \<open>The read loop is a bounded read\<close>

text \<open>Every event list without a failed call and with enough calls returns, and it returns what a
  single bounded read of the whole file returns.\<close>

definition chunk_events :: "read_event list \<Rightarrow> nat" where
  "chunk_events es = length (filter (\<lambda>e. e \<noteq> Interrupted) es)"

lemma read_contents_loop:
  assumes "Read_Failed \<notin> set es" and "length contents \<le> max_bytes" and "length rest < chunk_events es"
  shows "read_contents_bounded max_bytes es rest contents =
    Some (if length contents + length rest > max_bytes then Inl NativeStorage else Inr (contents @ rest))"
  using assms
proof (induction max_bytes es rest contents rule: read_contents_bounded.induct)
  case (1 max_bytes rest contents)
  then show ?case by (simp add: chunk_events_def)
next
  case (4 max_bytes n es rest contents)
  show ?case
  proof (cases "length contents = max_bytes")
    case True
    then show ?thesis by (cases rest) (auto simp: read_call_def Let_def)
  next
    case False
    define k where "k = min (min (max_bytes - length contents) CHUNK_BYTES) (max 1 n)"
    have k: "0 < k" "k \<le> max_bytes - length contents"
      using False 4 by (auto simp: k_def CHUNK_BYTES_def)
    show ?thesis
    proof (cases rest)
      case Nil
      then show ?thesis using False 4 by (simp add: read_call_def Let_def)
    next
      case (Cons b bs)
      then obtain g gs where got: "take k rest = g # gs" using k by (cases k) auto
      have call: "read_call (min (max_bytes - length contents) CHUNK_BYTES) rest n = (g # gs, drop k rest)"
        by (simp add: read_call_def Let_def k_def flip: got)
      have len: "length contents + length (g # gs) \<le> max_bytes"
        using 4(3) k unfolding got [symmetric] by simp
      have shorter: "length (drop k rest) < chunk_events es"
        using 4(4) k Cons by (simp add: chunk_events_def)
      have "read_contents_bounded max_bytes es (drop k rest) (contents @ g # gs) =
        Some (if length (contents @ g # gs) + length (drop k rest) > max_bytes then Inl NativeStorage
              else Inr ((contents @ g # gs) @ drop k rest))"
        by (rule 4(1)) (use False call 4(2) len shorter in auto)
      moreover have "length contents + length (g # gs) + length (drop k rest) = length contents + length rest"
        and "(g # gs) @ drop k rest = rest"
        unfolding got [symmetric] by simp_all
      ultimately show ?thesis using False call by simp
    qed
  qed
qed (simp_all add: chunk_events_def)

section \<open>Names\<close>

lemma strip_prefix_append [simp]: "strip_prefix p (p @ s) = Some s"
  by (simp add: strip_prefix_def)

lemma strip_suffix_append [simp]: "strip_suffix q (s @ q) = Some s"
  by (simp add: strip_suffix_def)

lemma strip_suffix_Some: "strip_suffix q s = Some t \<longleftrightarrow> s = t @ q"
  by (auto simp: strip_suffix_def Let_def) (metis append_take_drop_id)

lemma temporary_name_neq [simp]: "temporary_name name unique \<noteq> name" "name \<noteq> temporary_name name unique"
proof -
  have "length (temporary_name name unique) \<noteq> length name" by (simp add: temporary_name_def)
  then show "temporary_name name unique \<noteq> name" "name \<noteq> temporary_name name unique" by auto
qed

lemma temporary_name_dot: "hd (temporary_name name unique) = CHR ''.''"
  by (simp add: temporary_name_def)

text \<open>A temporary name that a crash leaves behind is recognised.\<close>

lemma temporary_recognised:
  "is_atomic_create_temporary uuid_ok (temporary_name name unique) name = uuid_ok unique"
proof -
  have "temporary_name name unique = (''.'' @ name @ ''.'') @ (unique @ ''.tmp'')"
    by (simp add: temporary_name_def)
  then show ?thesis
    by (simp only: is_atomic_create_temporary_def strip_prefix_append bind.bind_lunit
        strip_suffix_append option.case)
qed

section \<open>Atomicity\<close>

lemma lookup_put [simp]: "lookup_file (put_file n b s d) = (lookup_file d)(n \<mapsto> (b, s))"
  by (simp add: lookup_file_def put_file_def update_conv' fun_eq_iff)

lemma lookup_remove [simp]: "lookup_file (remove_entry n d) = (lookup_file d)(n := None)"
  by (simp add: lookup_file_def remove_entry_def delete_conv' fun_eq_iff)

lemma file_bytes_put [simp]: "file_bytes (put_file n b s d) = (file_bytes d)(n \<mapsto> b)"
  by (auto simp: file_bytes_def fun_eq_iff)

lemma file_bytes_remove [simp]: "file_bytes (remove_entry n d) = (file_bytes d)(n := None)"
  by (auto simp: file_bytes_def fun_eq_iff)

lemma exists_file_bytes: "exists_file d name \<longleftrightarrow> file_bytes d name \<noteq> None"
  by (simp add: exists_file_def file_bytes_def)

lemma not_exists_file: "\<not> exists_file d name \<longleftrightarrow> lookup_file d name = None"
  by (cases "lookup_file d name") (simp_all add: exists_file_def)

lemma lookup_file_bytes:
  "lookup_file d = (lookup_file d')(n \<mapsto> (b, s)) \<Longrightarrow> file_bytes d = (file_bytes d')(n \<mapsto> b)"
  by (auto simp: file_bytes_def fun_eq_iff)

text \<open>In every state of a creation or a replacement each name but the temporary one holds its old
  contents, or it is the target and holds the new contents, complete and synced.\<close>

lemma create_states_atomic:
  assumes "s \<in> set (create_states tmp name bytes d)" and "n \<noteq> tmp"
  shows "lookup_file s n = lookup_file d n \<or> n = name \<and> lookup_file s n = Some (bytes, True)"
  using assms by (cases "n = name") (auto simp: create_states_def temporary_states_def Let_def)

lemma replace_states_atomic:
  assumes "s \<in> set (replace_states tmp name bytes d)" and "n \<noteq> tmp"
  shows "lookup_file s n = lookup_file d n \<or> n = name \<and> lookup_file s n = Some (bytes, True)"
  using assms by (cases "n = name") (auto simp: replace_states_def temporary_states_def Let_def)

lemma failed_state_lookup:
  assumes "n' \<noteq> tmp" and "k < length states"
    and "\<And>s. s \<in> set states \<Longrightarrow> P (lookup_file s n')" and "P (lookup_file d n')"
  shows "P (lookup_file (failed_state states tmp bytes k n d) n')"
  using assms by (simp add: failed_state_def)

lemma cleanup_lookup:
  "cleanup_temporary fault tmp d = (d', r) \<Longrightarrow> n \<noteq> tmp \<Longrightarrow> lookup_file d' n = lookup_file d n"
  by (auto simp: cleanup_temporary_def split: fault.splits bool.splits)

lemma cleanup_result: "cleanup_temporary fault tmp d = (d', r) \<Longrightarrow> r = Inl NativeStorage \<or> r = Inl Io"
  by (auto simp: cleanup_temporary_def split: fault.splits bool.splits)

lemma less_cases:
  fixes k :: nat
  shows "k < 4 \<Longrightarrow> k = 0 \<or> k = 1 \<or> k = 2 \<or> k = 3"
    and "k < 6 \<Longrightarrow> k = 0 \<or> k = 1 \<or> k = 2 \<or> k = 3 \<or> k = 4 \<or> k = 5"
  by auto

text \<open>What a call that returns has done.  A creation that succeeds found the name free and has the
  new contents durable under it; one that fails did so or changed nothing a reader of the final
  names sees.\<close>

lemma atomic_create_Inr:
  assumes "tmp \<noteq> name" and "atomic_create fault tmp name bytes d = (d', Inr u)"
  shows "lookup_file d name = None" and "lookup_file d' = (lookup_file d)(name \<mapsto> (bytes, True))"
proof -
  have final: "lookup_file (create_states tmp name bytes d ! 6)
      = (lookup_file d)(name \<mapsto> (bytes, True))" if "lookup_file d tmp = None"
    using assms(1) that by (auto simp: create_states_def temporary_states_def Let_def fun_eq_iff)
  show "lookup_file d name = None"
    using assms(2) by (cases "lookup_file d name") (auto simp: atomic_create_def Let_def exists_file_def)
  show "lookup_file d' = (lookup_file d)(name \<mapsto> (bytes, True))"
    using assms(2) final by (cases "lookup_file d tmp")
      (auto simp: atomic_create_def Let_def exists_file_def dest!: cleanup_result
        split: if_splits fault.splits)
qed

lemma atomic_create_Inl:
  assumes "atomic_create fault tmp name bytes d = (d', Inl e)" and "n \<noteq> tmp"
  shows "lookup_file d' n = lookup_file d n
      \<or> n = name \<and> lookup_file d n = None \<and> lookup_file d' n = Some (bytes, True)"
proof -
  have P: "lookup_file (failed_state (create_states tmp name bytes d) tmp bytes k m d) n = lookup_file d n
      \<or> n = name \<and> lookup_file (failed_state (create_states tmp name bytes d) tmp bytes k m d) n
         = Some (bytes, True)" if "k < 6" for k m
    by (rule failed_state_lookup [where P = "\<lambda>x. x = lookup_file d n \<or> n = name \<and> x = Some (bytes, True)"])
      (use assms that create_states_atomic in \<open>auto simp: create_states_def temporary_states_def Let_def\<close>)
  show ?thesis
  proof (cases "lookup_file d name = None \<and> lookup_file d tmp = None")
    case True
    with assms(1) obtain k m c where "fault = Fault k m c" and "k < 6"
      and "cleanup_temporary fault tmp (failed_state (create_states tmp name bytes d) tmp bytes k m d)
        = (d', Inl e)"
      by (auto simp: atomic_create_def Let_def exists_file_def split: if_splits fault.splits)
    with P [of k m] cleanup_lookup [OF _ assms(2)] True show ?thesis by metis
  next
    case False
    with assms(1) have "d' = d \<or> cleanup_temporary fault tmp d = (d', Inl e)"
      by (auto simp: atomic_create_def Let_def exists_file_def split: if_splits)
    with cleanup_lookup [OF _ assms(2)] show ?thesis by metis
  qed
qed

lemma atomic_create_ok:
  assumes "tmp \<noteq> name" and "lookup_file d name = None" and "lookup_file d tmp = None"
  obtains d' where "atomic_create No_Fault tmp name bytes d = (d', Inr ())"
    and "lookup_file d' = (lookup_file d)(name \<mapsto> (bytes, True))"
proof -
  obtain d' where "atomic_create No_Fault tmp name bytes d = (d', Inr ())"
    using assms by (simp add: atomic_create_def Let_def exists_file_def)
  with atomic_create_Inr [OF assms(1) this] that show ?thesis by blast
qed

text \<open>A replacement has three outcomes: done, done but not known to be durable, and not done.\<close>

lemma atomic_replace_cases:
  assumes "tmp \<noteq> name" and "atomic_replace fault tmp name bytes d = (d', r)" and "n \<noteq> tmp"
  shows "r = Inr () \<or> r = Inl CommitOutcomeUnknown \<Longrightarrow>
      lookup_file d' n = ((lookup_file d)(name \<mapsto> (bytes, True))) n"
    and "r \<noteq> Inr () \<Longrightarrow> r \<noteq> Inl CommitOutcomeUnknown \<Longrightarrow> lookup_file d' n = lookup_file d n"
proof -
  have failed: "lookup_file (failed_state (replace_states tmp name bytes d) tmp bytes k m d) n
      = lookup_file d n" if "k < 4" for k m
    using that assms(3) by (auto dest!: less_cases simp: failed_state_def replace_states_def temporary_states_def)
  have final: "lookup_file (replace_states tmp name bytes d ! 4) = (lookup_file d)(name \<mapsto> (bytes, True))"
    "lookup_file (replace_states tmp name bytes d ! 5) = (lookup_file d)(name \<mapsto> (bytes, True))"
    by (simp_all add: replace_states_def temporary_states_def)
  show "r = Inr () \<or> r = Inl CommitOutcomeUnknown \<Longrightarrow>
      lookup_file d' n = ((lookup_file d)(name \<mapsto> (bytes, True))) n"
    using assms(2) final
    by (auto simp: atomic_replace_def Let_def dest: cleanup_result split: if_splits fault.splits)
  show "r \<noteq> Inr () \<Longrightarrow> r \<noteq> Inl CommitOutcomeUnknown \<Longrightarrow> lookup_file d' n = lookup_file d n"
    using assms(2) failed
    by (auto simp: atomic_replace_def Let_def dest!: cleanup_lookup [OF _ assms(3)]
        split: if_splits fault.splits)
qed

lemma atomic_create_error:
  "atomic_create fault tmp name bytes d = (d', Inl e) \<Longrightarrow> e = Io \<or> e = NativeStorage"
  by (auto simp: atomic_create_def Let_def dest!: cleanup_result split: if_splits fault.splits)

lemma atomic_replace_error:
  "atomic_replace fault tmp name bytes d = (d', Inl e) \<Longrightarrow> e = Io \<or> e = NativeStorage \<or> e = CommitOutcomeUnknown"
  by (auto simp: atomic_replace_def Let_def dest!: cleanup_result split: if_splits fault.splits)

lemma atomic_replace_ok:
  assumes "exists_file d name" and "lookup_file d tmp = None"
  shows "atomic_replace No_Fault tmp name bytes d = (put_file name bytes True d, Inr ())"
  using assms by (simp add: atomic_replace_def Let_def exists_file_def replace_states_def temporary_states_def)

lemma remove_file_lookup:
  "remove_file fail name d = (d', r) \<Longrightarrow>
     lookup_file d' = (lookup_file d)(name := None) \<or> lookup_file d' = lookup_file d \<and> r = Inl Io"
  by (cases "lookup_file d name") (auto simp: remove_file_def exists_file_def fun_eq_iff split: if_splits)

section \<open>Directories stay well formed\<close>

definition dir_ok :: "dir \<Rightarrow> bool" where
  "dir_ok d \<longleftrightarrow> distinct (map fst d)"

lemma lookup_None_iff: "lookup_file d name = None \<longleftrightarrow> name \<notin> fst ` set d"
  by (simp add: lookup_file_def map_of_eq_None_iff)

lemma dir_ok_put [simp]: "dir_ok d \<Longrightarrow> dir_ok (put_file n b s d)"
  by (simp add: dir_ok_def put_file_def distinct_update)

lemma dir_ok_remove [simp]: "dir_ok d \<Longrightarrow> dir_ok (remove_entry n d)"
  by (simp add: dir_ok_def remove_entry_def distinct_delete)

lemma dir_ok_states:
  assumes "dir_ok d"
  shows "s \<in> set (create_states tmp name bytes d) \<Longrightarrow> dir_ok s"
    and "s \<in> set (replace_states tmp name bytes d) \<Longrightarrow> dir_ok s"
  using assms by (auto simp: create_states_def replace_states_def temporary_states_def Let_def)

lemma dir_ok_cleanup: "cleanup_temporary fault tmp d = (d', r) \<Longrightarrow> dir_ok d \<Longrightarrow> dir_ok d'"
  by (auto simp: cleanup_temporary_def split: fault.splits bool.splits)

lemma dir_ok_failed:
  assumes "dir_ok d" and "k < length states" and "\<And>s. s \<in> set states \<Longrightarrow> dir_ok s"
  shows "dir_ok (failed_state states tmp bytes k n d)"
  using assms by (simp add: failed_state_def)

lemma length_states [simp]:
  "length (create_states tmp name bytes d) = 7" "length (replace_states tmp name bytes d) = 6"
  by (simp_all add: create_states_def replace_states_def temporary_states_def Let_def)

lemma dir_ok_create: "atomic_create fault tmp name bytes d = (d', r) \<Longrightarrow> dir_ok d \<Longrightarrow> dir_ok d'"
  using dir_ok_failed [of d _ "create_states tmp name bytes d"] dir_ok_states(1) [of d _ tmp name bytes]
  by (auto simp: atomic_create_def Let_def split: if_splits fault.splits elim!: dir_ok_cleanup)

lemma dir_ok_replace: "atomic_replace fault tmp name bytes d = (d', r) \<Longrightarrow> dir_ok d \<Longrightarrow> dir_ok d'"
  using dir_ok_failed [of d _ "replace_states tmp name bytes d"] dir_ok_states(2) [of d _ tmp name bytes]
  by (auto simp: atomic_replace_def Let_def split: if_splits fault.splits elim!: dir_ok_cleanup)

lemma dir_ok_remove_file: "remove_file fail name d = (d', r) \<Longrightarrow> dir_ok d \<Longrightarrow> dir_ok d'"
  by (auto simp: remove_file_def split: if_splits)

end
