(* ===== verification/Json_Envelope.thy ===== *)
theory Json_Envelope
  imports Durable_Io
begin

text \<open>
  Checksummed JSON files (\<open>storage/native/io/json.rs\<close>): the size-bounded writers, and the envelope
  of a value with the digest of its compact form that catalog generations, log records and
  checkpoints are stored in.  The JSON library and the digest are a parameter: the chunks the
  serialiser hands to its writer, the parser, and the digest of a byte sequence.  Serialising these
  values does not fail by itself.
\<close>

section \<open>Definitions\<close>

record 'v json =
  compact_chunks :: "'v \<Rightarrow> byte list list"
  pretty_chunks :: "'v \<times> string \<Rightarrow> byte list list"
  from_slice :: "byte list \<Rightarrow> ('v \<times> string) option"
  digest :: "byte list \<Rightarrow> string"

record bounded_bytes =
  bb_bytes :: "byte list"
  bb_limit :: nat
  bb_exceeded :: bool

definition bounded_bytes_new :: "nat \<Rightarrow> bounded_bytes" where
  "bounded_bytes_new limit = \<lparr>bb_bytes = [], bb_limit = limit, bb_exceeded = False\<rparr>"

text \<open>One \<open>write\<close> call: the writer and whether the call succeeded.\<close>

definition bounded_bytes_write :: "bounded_bytes \<Rightarrow> byte list \<Rightarrow> bounded_bytes \<times> bool" where
  "bounded_bytes_write w bytes =
     (if length bytes > saturating_sub (bb_limit w) (length (bb_bytes w))
      then (w\<lparr>bb_exceeded := True\<rparr>, False)
      else (w\<lparr>bb_bytes := bb_bytes w @ bytes\<rparr>, True))"

record bounded_digest =
  bd_input :: "byte list"
  bd_written :: nat
  bd_limit :: nat
  bd_exceeded :: bool

definition bounded_digest_new :: "nat \<Rightarrow> bounded_digest" where
  "bounded_digest_new limit = \<lparr>bd_input = [], bd_written = 0, bd_limit = limit, bd_exceeded = False\<rparr>"

definition bounded_digest_write :: "bounded_digest \<Rightarrow> byte list \<Rightarrow> bounded_digest \<times> bool" where
  "bounded_digest_write w bytes =
     (if length bytes > saturating_sub (bd_limit w) (bd_written w)
      then (w\<lparr>bd_exceeded := True\<rparr>, False)
      else (w\<lparr>bd_input := bd_input w @ bytes, bd_written := bd_written w + length bytes\<rparr>, True))"

text \<open>The serialiser writes its chunks in order and stops at the first failed write.\<close>

fun to_writer :: "('w \<Rightarrow> byte list \<Rightarrow> 'w \<times> bool) \<Rightarrow> 'w \<Rightarrow> byte list list \<Rightarrow> 'w \<times> bool" where
  "to_writer wr w [] = (w, True)"
| "to_writer wr w (c # cs) = (case wr w c of (w', ok) \<Rightarrow> if ok then to_writer wr w' cs else (w', False))"

text \<open>Exceeding the limit and any other failure are both storage errors, with different messages.\<close>

definition map_encoding_result :: "bool \<Rightarrow> bool \<Rightarrow> (db_error, unit) result" where
  "map_encoding_result exceeded ok =
     (if ok then Inr () else if exceeded then Inl NativeStorage else Inl NativeStorage)"

definition encode_bounded :: "nat \<Rightarrow> byte list list \<Rightarrow> bool \<Rightarrow> (db_error, byte list) result" where
  "encode_bounded max_bytes chunks trailing_newline =
     bindr (ok_or (checked_sub max_bytes (of_bool trailing_newline)) NativeStorage) (\<lambda>content_limit.
     case to_writer bounded_bytes_write (bounded_bytes_new content_limit) chunks of (w, encoded) \<Rightarrow>
     bindr (map_encoding_result (bb_exceeded w) encoded) (\<lambda>_.
     Inr (bb_bytes w @ (if trailing_newline then [10] else []))))"

definition sha256_bounded ::
  "(byte list \<Rightarrow> string) \<Rightarrow> nat \<Rightarrow> byte list list \<Rightarrow> (db_error, string) result" where
  "sha256_bounded sha256 max_bytes chunks =
     (case to_writer bounded_digest_write (bounded_digest_new max_bytes) chunks of (w, encoded) \<Rightarrow>
      bindr (map_encoding_result (bd_exceeded w) encoded) (\<lambda>_. Inr (sha256 (bd_input w))))"

text \<open>The digest of a value, and its sealed form: the pretty envelope with a trailing newline.\<close>

definition json_sha256 :: "('v, 'a) json_scheme \<Rightarrow> nat \<Rightarrow> 'v \<Rightarrow> (db_error, string) result" where
  "json_sha256 j max_bytes v = sha256_bounded (digest j) max_bytes (compact_chunks j v)"

definition seal :: "('v, 'a) json_scheme \<Rightarrow> nat \<Rightarrow> 'v \<Rightarrow> (db_error, byte list) result" where
  "seal j max_bytes v =
     bindr (json_sha256 j max_bytes v) (\<lambda>sha256.
     encode_bounded max_bytes (pretty_chunks j (v, sha256)) True)"

text \<open>What is relied on of the JSON library for a value: parsing its sealed form gives it back.\<close>

definition value_digest :: "('v, 'a) json_scheme \<Rightarrow> 'v \<Rightarrow> string" where
  "value_digest j v = digest j (concat (compact_chunks j v))"

definition reads_back :: "('v, 'a) json_scheme \<Rightarrow> 'v \<Rightarrow> bool" where
  "reads_back j v \<longleftrightarrow>
     from_slice j (concat (pretty_chunks j (v, value_digest j v)) @ [10]) = Some (v, value_digest j v)"

section \<open>The bounded writers\<close>

lemma bounded_bytes_chunks:
  assumes "length (bb_bytes w) \<le> bb_limit w" and "\<not> bb_exceeded w"
  shows "to_writer bounded_bytes_write w chunks = (w', ok) \<Longrightarrow>
     ok = (length (bb_bytes w @ concat chunks) \<le> bb_limit w)
     \<and> (ok \<longrightarrow> bb_bytes w' = bb_bytes w @ concat chunks) \<and> bb_exceeded w' = (\<not> ok)"
  using assms
proof (induction chunks arbitrary: w)
  case (Cons c cs)
  show ?case
  proof (cases "length (bb_bytes w @ c) \<le> bb_limit w")
    case True
    let ?w = "w\<lparr>bb_bytes := bb_bytes w @ c\<rparr>"
    have "bounded_bytes_write w c = (?w, True)" using True by (simp add: bounded_bytes_write_def)
    with Cons.prems have "to_writer bounded_bytes_write ?w cs = (w', ok)" by simp
    from Cons.IH [OF this] True Cons.prems show ?thesis by (simp add: add.assoc)
  next
    case False
    then have "bounded_bytes_write w c = (w\<lparr>bb_exceeded := True\<rparr>, False)"
      using Cons.prems by (auto simp: bounded_bytes_write_def)
    with False show ?thesis using Cons.prems by auto
  qed
qed auto

lemma encode_bounded_eq:
  "encode_bounded max_bytes chunks nl =
     (if length (concat chunks) + of_bool nl \<le> max_bytes
      then Inr (concat chunks @ (if nl then [10] else [])) else Inl NativeStorage)"
proof -
  obtain w ok where run: "to_writer bounded_bytes_write (bounded_bytes_new (max_bytes - of_bool nl)) chunks = (w, ok)"
    by (cases "to_writer bounded_bytes_write (bounded_bytes_new (max_bytes - of_bool nl)) chunks")
  from bounded_bytes_chunks [OF _ _ run]
  have "ok = (length (concat chunks) \<le> max_bytes - of_bool nl)" "ok \<Longrightarrow> bb_bytes w = concat chunks"
    by (simp_all add: bounded_bytes_new_def)
  with run show ?thesis
    by (auto simp: encode_bounded_def checked_sub_def map_encoding_result_def of_bool_def)
qed

lemma bounded_digest_chunks:
  assumes "bd_written w = length (bd_input w)" and "bd_written w \<le> bd_limit w"
  shows "to_writer bounded_digest_write w chunks = (w', ok) \<Longrightarrow>
     ok = (length (bd_input w @ concat chunks) \<le> bd_limit w)
     \<and> (ok \<longrightarrow> bd_input w' = bd_input w @ concat chunks)"
  using assms
proof (induction chunks arbitrary: w)
  case (Cons c cs)
  show ?case
  proof (cases "length (bd_input w @ c) \<le> bd_limit w")
    case True
    let ?w = "w\<lparr>bd_input := bd_input w @ c, bd_written := bd_written w + length c\<rparr>"
    have "bounded_digest_write w c = (?w, True)"
      using True Cons.prems by (simp add: bounded_digest_write_def)
    with Cons.prems have "to_writer bounded_digest_write ?w cs = (w', ok)" by simp
    from Cons.IH [OF this] True Cons.prems show ?thesis by (simp add: add.assoc)
  next
    case False
    then have "bounded_digest_write w c = (w\<lparr>bd_exceeded := True\<rparr>, False)"
      using Cons.prems by (auto simp: bounded_digest_write_def)
    with False show ?thesis using Cons.prems by auto
  qed
qed auto

lemma json_sha256_eq:
  "json_sha256 j max_bytes v =
     (if length (concat (compact_chunks j v)) \<le> max_bytes then Inr (value_digest j v) else Inl NativeStorage)"
proof -
  let ?cs = "compact_chunks j v"
  obtain w ok where run: "to_writer bounded_digest_write (bounded_digest_new max_bytes) ?cs = (w, ok)"
    by (cases "to_writer bounded_digest_write (bounded_digest_new max_bytes) ?cs")
  from bounded_digest_chunks [OF _ _ run]
  have "ok = (length (concat ?cs) \<le> max_bytes)" "ok \<Longrightarrow> bd_input w = concat ?cs"
    by (simp_all add: bounded_digest_new_def)
  with run show ?thesis
    by (auto simp: json_sha256_def sha256_bounded_def map_encoding_result_def value_digest_def)
qed

lemma seal_Inr:
  assumes "seal j max_bytes v = Inr bytes"
  shows "bytes = concat (pretty_chunks j (v, value_digest j v)) @ [10]" and "length bytes \<le> max_bytes"
    and "json_sha256 j max_bytes v = Inr (value_digest j v)"
  using assms by (auto simp: seal_def json_sha256_eq encode_bounded_eq split: if_splits)

section \<open>Sealed files\<close>

text \<open>The contract of a kind of file whose contents are a value in a byte form: what the form
  promises, and what follows for files written atomically and read with a bound.\<close>

locale sealed_file =
  fixes encode :: "'v \<Rightarrow> (db_error, byte list) result"
    and decode :: "byte list \<Rightarrow> (db_error, 'v) result"
    and valid :: "'v \<Rightarrow> bool"
    and limit :: nat
  assumes decode_encode: "valid v \<Longrightarrow> encode v = Inr bytes \<Longrightarrow> decode bytes = Inr v"
    and encode_bound: "encode v = Inr bytes \<Longrightarrow> length bytes \<le> limit"
begin

definition read :: "dir \<Rightarrow> string \<Rightarrow> (db_error, 'v) result" where
  "read d name = bindr (read_bounded (file_bytes d) name limit) decode"

lemma read_lookup:
  "valid v \<Longrightarrow> encode v = Inr bytes \<Longrightarrow> lookup_file d name = Some (bytes, s) \<Longrightarrow> read d name = Inr v"
  using encode_bound [of v bytes] by (simp add: read_def read_bounded_def file_bytes_def decode_encode)

lemma read_missing: "lookup_file d name = None \<Longrightarrow> read d name = Inl Io"
  by (simp add: read_def read_bounded_def file_bytes_def)

lemma read_cong: "lookup_file d name = lookup_file d' name \<Longrightarrow> read d name = read d' name"
  by (simp add: read_def read_bounded_def file_bytes_def)

lemma read_created:
  assumes "valid v" and "encode v = Inr bytes" and "tmp \<noteq> name"
    and "atomic_create fault tmp name bytes d = (d', Inr u)"
  shows "read d' name = Inr v"
    and "n \<noteq> name \<Longrightarrow> read d' n = read d n"
  using atomic_create_Inr [OF assms(3,4)] read_lookup [OF assms(1,2)]
  by (auto intro: read_cong)

text \<open>A crash while a file is created leaves it missing or complete; while it is replaced, with the
  old or the new value.\<close>

lemma create_crash:
  assumes "valid v" and "encode v = Inr bytes" and "lookup_file d name = None" and "tmp \<noteq> name"
    and "s \<in> set (create_states tmp name bytes d)"
  shows "read s name = Inl Io \<or> read s name = Inr v"
  using create_states_atomic [OF assms(5), of name] assms(3,4) read_lookup [OF assms(1,2)] read_missing
  by auto

lemma replace_crash:
  assumes "valid v" and "encode v = Inr bytes" and "tmp \<noteq> name"
    and "s \<in> set (replace_states tmp name bytes d)"
  shows "read s name = read d name \<or> read s name = Inr v"
  using replace_states_atomic [OF assms(4), of name] assms(3) read_lookup [OF assms(1,2)]
  by (metis read_cong)

end

end
