(* ===== verification/Decimal.thy ===== *)
theory Decimal
  imports Prelude
begin

text \<open>
  Decimal numbers in file names and in the \<open>CURRENT\<close> file: \<open>format!("{n}")\<close>, the zero-padded
  \<open>format!("{n:020}")\<close>, and \<open>str::parse::<u64>()\<close>.  Strings are their UTF-8 bytes.
\<close>

section \<open>Definitions\<close>

definition digit_char :: "nat \<Rightarrow> char" where
  "digit_char d = char_of (48 + d)"

definition is_ascii_digit :: "char \<Rightarrow> bool" where
  "is_ascii_digit c \<longleftrightarrow> 48 \<le> (of_char c :: nat) \<and> (of_char c :: nat) \<le> 57"

definition digit_value :: "char \<Rightarrow> nat" where
  "digit_value c = of_char c - 48"

fun show_nat :: "nat \<Rightarrow> string" where
  "show_nat n = (if n < 10 then [digit_char n] else show_nat (n div 10) @ [digit_char (n mod 10)])"

declare show_nat.simps [simp del]

fun digits_dec :: "nat \<Rightarrow> nat \<Rightarrow> string" where
  "digits_dec 0 n = []"
| "digits_dec (Suc k) n = digits_dec k (n div 10) @ [digit_char (n mod 10)]"

text \<open>Zero padding to a width; a number that needs more digits keeps them.\<close>

definition pad_dec :: "nat \<Rightarrow> nat \<Rightarrow> string" where
  "pad_dec width n = replicate (width - length (show_nat n)) (digit_char 0) @ show_nat n"

definition dec_value :: "string \<Rightarrow> nat" where
  "dec_value s = foldl (\<lambda>v c. 10 * v + digit_value c) 0 s"

text \<open>\<open>parse::<u64>\<close>: an optional plus sign, at least one digit, no overflow.\<close>

definition parse_u64 :: "string \<Rightarrow> nat option" where
  "parse_u64 s =
     (let ds = (case s of c # rest \<Rightarrow> if c = CHR ''+'' then rest else s | [] \<Rightarrow> []) in
      if ds \<noteq> [] \<and> list_all is_ascii_digit ds \<and> dec_value ds < u64_limit
      then Some (dec_value ds) else None)"

section \<open>Digits\<close>

lemma of_digit_char: "d < 10 \<Longrightarrow> (of_char (digit_char d) :: nat) = 48 + d"
  by (simp add: digit_char_def of_char_of take_bit_nat_eq_self)

lemma digit_value_char [simp]: "d < 10 \<Longrightarrow> digit_value (digit_char d) = d"
  by (simp add: digit_value_def of_digit_char)

lemma is_digit_char [simp]: "d < 10 \<Longrightarrow> is_ascii_digit (digit_char d)"
  by (simp add: is_ascii_digit_def of_digit_char)

lemma digit_char_value: "is_ascii_digit c \<Longrightarrow> digit_char (digit_value c) = c"
  by (simp add: is_ascii_digit_def digit_char_def digit_value_def)

lemma digit_value_less: "is_ascii_digit c \<Longrightarrow> digit_value c < 10"
  by (auto simp: is_ascii_digit_def digit_value_def)

lemma dec_value_snoc [simp]: "dec_value (s @ [c]) = 10 * dec_value s + digit_value c"
  by (simp add: dec_value_def)

lemma dec_value_Nil [simp]: "dec_value [] = 0"
  by (simp add: dec_value_def)

lemma dec_value_digits: "dec_value (digits_dec k n) = n mod 10 ^ k"
proof (induction k arbitrary: n)
  case (Suc k)
  have "10 * (n div 10 mod 10 ^ k) + n mod 10 = n mod 10 ^ Suc k"
    by (metis add.commute mod_mult2_eq mult.commute power_Suc)
  then show ?case by (simp add: Suc)
qed simp

lemma length_digits_dec [simp]: "length (digits_dec k n) = k"
  by (induction k arbitrary: n) simp_all

lemma digits_dec_digits [simp]: "list_all is_ascii_digit (digits_dec k n)"
  by (induction k arbitrary: n) simp_all

lemma digits_dec_0 [simp]: "digits_dec k 0 = replicate k (digit_char 0)"
  by (induction k) (simp_all add: replicate_append_same)

lemma digits_dec_value:
  "list_all is_ascii_digit s \<Longrightarrow> digits_dec (length s) (dec_value s) = s"
  by (induction s rule: rev_induct) (simp_all add: digit_char_value digit_value_less)

lemma show_nat_digits: "list_all is_ascii_digit (show_nat n)"
  by (induction n rule: show_nat.induct) (subst show_nat.simps, simp)

lemma show_nat_nonempty: "show_nat n \<noteq> []"
  by (subst show_nat.simps) simp

lemma dec_value_show: "dec_value (show_nat n) = n"
proof (induction n rule: show_nat.induct)
  case (1 n)
  then show ?case by (subst show_nat.simps) (auto simp: dec_value_def)
qed

lemma length_show_nat: "n < 10 ^ Suc k \<Longrightarrow> length (show_nat n) \<le> Suc k"
proof (induction k arbitrary: n)
  case 0
  then show ?case by (simp add: show_nat.simps)
next
  case (Suc k)
  then have "n div 10 < 10 ^ Suc k" by (simp add: div_less_iff_less_mult mult.commute)
  with Suc.IH [of "n div 10"] show ?case by (subst show_nat.simps) simp
qed

lemma length_u64: "n < u64_limit \<Longrightarrow> length (show_nat n) \<le> 20"
  using length_show_nat [of n 19] by simp

text \<open>The padded form has a fixed width, is the digit string of its number, and its lexicographic
  order is the numeric order.\<close>

lemma pad_dec_digits: "list_all is_ascii_digit (pad_dec k n)"
  using show_nat_digits by (simp add: pad_dec_def list_all_append) (simp add: list_all_iff)

lemma dec_value_zeros [simp]: "dec_value (replicate k (digit_char 0) @ s) = dec_value s"
  by (induction k) (simp_all add: dec_value_def)

lemma dec_value_pad: "dec_value (pad_dec k n) = n"
  by (simp add: pad_dec_def dec_value_show)

lemma length_pad_dec: "length (show_nat n) \<le> k \<Longrightarrow> length (pad_dec k n) = k"
  by (simp add: pad_dec_def)

lemma pad_dec_eq: "length (show_nat n) \<le> k \<Longrightarrow> pad_dec k n = digits_dec k n"
  using digits_dec_value [OF pad_dec_digits, of k n] by (simp add: dec_value_pad length_pad_dec)

lemma dec_value_Cons: "dec_value (c # s) = digit_value c * 10 ^ length s + dec_value s"
  by (induction s rule: rev_induct) (simp_all add: dec_value_def algebra_simps)

lemma dec_value_bound: "list_all is_ascii_digit s \<Longrightarrow> dec_value s < 10 ^ length s"
  using dec_value_digits [of "length s" "dec_value s"] digits_dec_value [of s]
  by (metis mod_less_divisor zero_less_numeral zero_less_power)

lemma digit_order:
  assumes "is_ascii_digit c" and "is_ascii_digit d"
  shows "c < d \<longleftrightarrow> digit_value c < digit_value d" and "c = d \<longleftrightarrow> digit_value c = digit_value d"
proof -
  show "c < d \<longleftrightarrow> digit_value c < digit_value d"
    using assms by (auto simp: less_char_def is_ascii_digit_def digit_value_def)
  show "c = d \<longleftrightarrow> digit_value c = digit_value d" using assms digit_char_value by metis
qed

lemma digit_strings_order:
  assumes "length s = length t" and "list_all is_ascii_digit s" and "list_all is_ascii_digit t"
  shows "s < t \<longleftrightarrow> dec_value s < dec_value t"
  using assms
proof (induction s t rule: list_induct2)
  case (Cons c s d t)
  let ?B = "10 ^ length s :: nat"
  have s: "dec_value s < ?B" and t: "dec_value t < ?B"
    using Cons dec_value_bound [of s] dec_value_bound [of t] by simp_all
  have "digit_value c < digit_value d \<Longrightarrow> digit_value c * ?B + dec_value s < digit_value d * ?B + dec_value t"
  proof -
    assume "digit_value c < digit_value d"
    then have "(digit_value c + 1) * ?B \<le> digit_value d * ?B" by (intro mult_le_mono1) simp
    with s show ?thesis by simp
  qed
  moreover have "digit_value d < digit_value c \<Longrightarrow> digit_value d * ?B + dec_value t < digit_value c * ?B + dec_value s"
  proof -
    assume "digit_value d < digit_value c"
    then have "(digit_value d + 1) * ?B \<le> digit_value c * ?B" by (intro mult_le_mono1) simp
    with t show ?thesis by simp
  qed
  ultimately show ?case
    using Cons digit_order [of c d] by (auto simp: dec_value_Cons not_less_iff_gr_or_eq)
qed simp

lemma pad_dec_less:
  assumes "length (show_nat m) \<le> k" and "length (show_nat n) \<le> k"
  shows "pad_dec k m < pad_dec k n \<longleftrightarrow> m < n"
  using digit_strings_order [OF _ pad_dec_digits pad_dec_digits, of k m k n] assms
  by (simp add: length_pad_dec dec_value_pad)

lemma pad_dec_inject: "pad_dec k m = pad_dec k n \<longleftrightarrow> m = n"
  by (metis dec_value_pad)

section \<open>Parsing\<close>

lemma digit_not_plus: "is_ascii_digit c \<Longrightarrow> c \<noteq> CHR ''+''"
  by (auto simp: is_ascii_digit_def)

lemma parse_u64_digits:
  assumes "list_all is_ascii_digit s"
  shows "parse_u64 s = (if s \<noteq> [] \<and> dec_value s < u64_limit then Some (dec_value s) else None)"
  using assms digit_not_plus by (cases s) (auto simp: parse_u64_def Let_def)

lemma parse_show: "n < u64_limit \<Longrightarrow> parse_u64 (show_nat n) = Some n"
  by (simp add: parse_u64_digits show_nat_digits show_nat_nonempty dec_value_show)

lemma parse_pad: "n < u64_limit \<Longrightarrow> parse_u64 (pad_dec k n) = Some n"
  by (simp add: parse_u64_digits pad_dec_digits dec_value_pad)
    (simp add: pad_dec_def show_nat_nonempty)

end
