(* ===== verification/Catalog_Name.thy ===== *)
theory Catalog_Name
  imports Native_Error
begin

text \<open>
  Catalog names (\<open>src/catalog_name.rs\<close>): storage keys are lower-case \<open>object\<close> or \<open>schema.object\<close>
  strings, the default schema being left out.  The parts of a parsed SQL name come from the SQL parser;
  a part is an identifier or something else.
\<close>

section \<open>Definitions\<close>

definition DEFAULT_SCHEMA :: string where
  "DEFAULT_SCHEMA = ''main''"

definition ascii_lower :: "char \<Rightarrow> char" where
  "ascii_lower c = (if 65 \<le> (of_char c :: nat) \<and> (of_char c :: nat) \<le> 90
     then char_of ((of_char c :: nat) + 32) else c)"

definition to_ascii_lowercase :: "string \<Rightarrow> string" where
  "to_ascii_lowercase s = map ascii_lower s"

definition eq_ignore_ascii_case :: "string \<Rightarrow> string \<Rightarrow> bool" where
  "eq_ignore_ascii_case a b \<longleftrightarrow> to_ascii_lowercase a = to_ascii_lowercase b"

text \<open>\<open>split_once\<close>, \<open>split\<close> and the last piece of \<open>rsplit\<close>.\<close>

fun split_once :: "char \<Rightarrow> string \<Rightarrow> (string \<times> string) option" where
  "split_once d [] = None"
| "split_once d (c # s) =
     (if c = d then Some ([], s) else map_option (\<lambda>(a, b). (c # a, b)) (split_once d s))"

fun split_on :: "char \<Rightarrow> string \<Rightarrow> string list" where
  "split_on d [] = [[]]"
| "split_on d (c # s) =
     (if c = d then [] # split_on d s
      else case split_on d s of [] \<Rightarrow> [[c]] | p # ps \<Rightarrow> (c # p) # ps)"

definition identifier_name :: "string \<Rightarrow> (db_error, string) result" where
  "identifier_name value =
     (if value = [] \<or> CHR ''.'' \<in> set value \<or> CHR 0x00 \<in> set value then Inl InvalidArgument
      else Inr (to_ascii_lowercase value))"

datatype name_part = Identifier string | OtherPart

definition object_parts :: "name_part list \<Rightarrow> (db_error, string list) result" where
  "object_parts parts = collect_results (map (\<lambda>part. case part of
       Identifier value \<Rightarrow> identifier_name value
     | OtherPart \<Rightarrow> Inl Unsupported) parts)"

definition dotted :: "string \<Rightarrow> string \<Rightarrow> string" where
  "dotted schema name = schema @ ''.'' @ name"

definition object_name :: "name_part list \<Rightarrow> (db_error, string) result" where
  "object_name parts = bindr (object_parts parts) (\<lambda>ps. case ps of
       [name] \<Rightarrow> Inr name
     | [schema, name] \<Rightarrow> if schema = DEFAULT_SCHEMA then Inr name else Inr (dotted schema name)
     | _ \<Rightarrow> Inl Unsupported)"

definition qualifier :: "name_part list \<Rightarrow> (db_error, string) result" where
  "qualifier parts = bindr (object_parts parts) (\<lambda>ps. case ps of
       [name] \<Rightarrow> Inr name
     | [schema, name] \<Rightarrow> Inr (dotted schema name)
     | _ \<Rightarrow> Inl Unsupported)"

definition schema_name :: "name_part list \<Rightarrow> (db_error, string) result" where
  "schema_name parts = (case parts of
       [Identifier value] \<Rightarrow> identifier_name value
     | _ \<Rightarrow> Inl Unsupported)"

definition local_name :: "string \<Rightarrow> (db_error, string) result" where
  "local_name value =
     (let parts = split_on (CHR ''.'') value in
      bindr (collect_results (map identifier_name parts)) (\<lambda>_. case parts of
        [name] \<Rightarrow> Inr name
      | [schema, name] \<Rightarrow> if eq_ignore_ascii_case schema DEFAULT_SCHEMA then Inr name
          else Inr (dotted (to_ascii_lowercase schema) name)
      | _ \<Rightarrow> Inl InvalidArgument))"

definition schema_of :: "string \<Rightarrow> string" where
  "schema_of name = (case split_once (CHR ''.'') name of Some (schema, _) \<Rightarrow> schema | None \<Rightarrow> DEFAULT_SCHEMA)"

definition object_of :: "string \<Rightarrow> string" where
  "object_of name = (case split_once (CHR ''.'') name of Some (_, n) \<Rightarrow> n | None \<Rightarrow> name)"

definition full_qualifier :: "string \<Rightarrow> string" where
  "full_qualifier name = (if CHR ''.'' \<in> set name then name else dotted DEFAULT_SCHEMA name)"

definition qualifier_matches :: "string \<Rightarrow> string \<Rightarrow> bool" where
  "qualifier_matches stored requested \<longleftrightarrow> eq_ignore_ascii_case stored requested
     \<or> CHR ''.'' \<notin> set requested \<and> eq_ignore_ascii_case (last (split_on (CHR ''.'') stored)) requested"

definition quote_identifier :: "string \<Rightarrow> string" where
  "quote_identifier value =
     ''\"'' @ concat (map (\<lambda>c. if c = CHR ''\"'' then ''\"\"'' else [c]) value) @ ''\"''"

definition quote :: "string \<Rightarrow> string" where
  "quote name = (case split_once (CHR ''.'') name of
       Some (schema, obj) \<Rightarrow> dotted (quote_identifier schema) (quote_identifier obj)
     | None \<Rightarrow> quote_identifier name)"

section \<open>Facts\<close>

lemma ascii_lower_idem [simp]: "ascii_lower (ascii_lower c) = ascii_lower c"
  by (simp add: ascii_lower_def of_char_of take_bit_nat_eq_self)

lemma lowercase_idem [simp]: "to_ascii_lowercase (to_ascii_lowercase s) = to_ascii_lowercase s"
  by (simp add: to_ascii_lowercase_def)

lemma lower_dot: "ascii_lower c = CHR ''.'' \<longleftrightarrow> c = CHR ''.''"
proof
  assume a: "ascii_lower c = CHR ''.''"
  have "(of_char (ascii_lower c) :: nat) \<ge> 97" if "65 \<le> (of_char c :: nat)" "(of_char c :: nat) \<le> 90"
    using that by (simp add: ascii_lower_def of_char_of take_bit_nat_eq_self)
  with a show "c = CHR ''.''" by (cases "65 \<le> (of_char c :: nat) \<and> (of_char c :: nat) \<le> 90")
      (auto simp: ascii_lower_def)
qed (simp add: ascii_lower_def)

lemma dot_lowercase: "CHR ''.'' \<in> set (to_ascii_lowercase s) \<longleftrightarrow> CHR ''.'' \<in> set s"
  by (auto simp: to_ascii_lowercase_def image_iff lower_dot eq_commute [of "CHR ''.''"])

lemma split_once_None: "split_once d s = None \<longleftrightarrow> d \<notin> set s"
  by (induction s) auto

lemma split_once_Some:
  "split_once d s = Some (a, b) \<longleftrightarrow> s = a @ d # b \<and> d \<notin> set a"
proof (induction s arbitrary: a)
  case (Cons c s)
  show ?case
  proof (cases a)
    case (Cons c' a')
    with Cons.IH [of a'] show ?thesis by auto
  qed auto
qed simp

text \<open>A normalised identifier: non-empty, lower case, no dot.\<close>

definition plain_name :: "string \<Rightarrow> bool" where
  "plain_name s \<longleftrightarrow> s \<noteq> [] \<and> CHR ''.'' \<notin> set s \<and> to_ascii_lowercase s = s"

lemma identifier_name_plain: "identifier_name v = Inr s \<Longrightarrow> plain_name s"
  using dot_lowercase [of v] lowercase_idem [of v]
  by (auto simp: identifier_name_def plain_name_def split: if_splits) (simp add: to_ascii_lowercase_def)

lemma schema_object_dotted:
  assumes "CHR ''.'' \<notin> set schema"
  shows "schema_of (dotted schema name) = schema" and "object_of (dotted schema name) = name"
proof -
  have "split_once (CHR ''.'') (dotted schema name) = Some (schema, name)"
    using assms by (simp add: split_once_Some dotted_def)
  then show "schema_of (dotted schema name) = schema" "object_of (dotted schema name) = name"
    by (simp_all add: schema_of_def object_of_def)
qed

lemma schema_object_plain:
  assumes "CHR ''.'' \<notin> set name"
  shows "schema_of name = DEFAULT_SCHEMA" and "object_of name = name"
proof -
  have "split_once (CHR ''.'') name = None" using assms by (simp add: split_once_None)
  then show "schema_of name = DEFAULT_SCHEMA" "object_of name = name"
    by (simp_all add: schema_of_def object_of_def)
qed

text \<open>The storage key determines the schema and the object, and both spellings of an object in the
  default schema have the same key.\<close>

lemma plain_identifier: "plain_name s \<Longrightarrow> CHR 0x00 \<notin> set s \<Longrightarrow> identifier_name s = Inr s"
  by (simp add: identifier_name_def plain_name_def)

lemma lower_nul: "CHR 0x00 \<notin> set s \<Longrightarrow> CHR 0x00 \<notin> set (to_ascii_lowercase s)"
proof -
  have "ascii_lower c = CHR 0x00 \<Longrightarrow> c = CHR 0x00" for c
  proof (rule ccontr)
    assume a: "ascii_lower c = CHR 0x00" and ne: "c \<noteq> CHR 0x00"
    then have r: "65 \<le> (of_char c :: nat) \<and> (of_char c :: nat) \<le> 90"
      by (auto simp: ascii_lower_def split: if_splits)
    then have "(of_char (ascii_lower c) :: nat) \<ge> 97"
      by (simp add: ascii_lower_def of_char_of take_bit_nat_eq_self)
    with a show False by simp
  qed
  then show "CHR 0x00 \<notin> set s \<Longrightarrow> CHR 0x00 \<notin> set (to_ascii_lowercase s)"
    by (auto simp: to_ascii_lowercase_def) (metis)
qed

lemma identifier_name_fixed: "identifier_name v = Inr s \<Longrightarrow> identifier_name s = Inr s"
  using identifier_name_plain [of v s] lower_nul [of v]
  by (intro plain_identifier) (auto simp: identifier_name_def split: if_splits)

lemma identifier_default: "identifier_name DEFAULT_SCHEMA = Inr DEFAULT_SCHEMA"
  by (simp add: identifier_name_def DEFAULT_SCHEMA_def to_ascii_lowercase_def ascii_lower_def)

lemma object_name_cases:
  assumes "object_name parts = Inr key"
  obtains v n where "parts = [Identifier v]" "identifier_name v = Inr n" "key = n"
  | u v sch n where "parts = [Identifier u, Identifier v]" "identifier_name u = Inr sch"
      "identifier_name v = Inr n" "key = (if sch = DEFAULT_SCHEMA then n else dotted sch n)"
proof -
  from assms obtain ps where ps: "object_parts parts = Inr ps" and k: "(case ps of
       [name] \<Rightarrow> Inr name
     | [schema, name] \<Rightarrow> if schema = DEFAULT_SCHEMA then Inr name else Inr (dotted schema name)
     | _ \<Rightarrow> Inl Unsupported) = Inr key"
    unfolding object_name_def bindr_eq_Inr by blast
  from k have "length ps = 1 \<or> length ps = 2" by (auto split: list.splits)
  moreover have "length parts = length ps"
    using ps by (auto simp: object_parts_def collect_results_Inr dest: map_eq_imp_length_eq)
  ultimately have "(\<exists>p. parts = [p]) \<or> (\<exists>p q. parts = [p, q])"
    by (auto simp: length_Suc_conv numeral_2_eq_2)
  then show thesis
  proof
    assume "\<exists>p. parts = [p]"
    then obtain p where "parts = [p]" ..
    with assms show thesis
      by (auto simp: object_name_def object_parts_def result_simps split: name_part.splits intro: that(1))
  next
    assume "\<exists>p q. parts = [p, q]"
    then obtain p q where "parts = [p, q]" by blast
    with assms show thesis
      by (auto simp: object_name_def object_parts_def result_simps split: name_part.splits if_splits
          intro: that(2))
  qed
qed

lemma object_name_key:
  assumes "object_name parts = Inr key"
  shows "plain_name (schema_of key) \<and> plain_name (object_of key)
    \<and> object_name [Identifier (schema_of key), Identifier (object_of key)] = Inr key"
  using assms
proof (cases rule: object_name_cases)
  case (1 v n)
  with identifier_name_plain [of v n] identifier_name_fixed [of v n] identifier_default
    schema_object_plain [of n] identifier_name_plain [OF identifier_default]
  show ?thesis by (simp add: plain_name_def object_name_def object_parts_def)
next
  case (2 u v sch n)
  with identifier_name_plain [of v n] identifier_name_fixed [of v n] identifier_name_plain [of u sch]
    identifier_name_fixed [of u sch] schema_object_plain [of n] schema_object_dotted [of sch n]
  show ?thesis by (auto simp: plain_name_def object_name_def object_parts_def)
qed

end
