(* ===== verification/Ordered_Map.thy ===== *)
theory Ordered_Map
  imports Prelude
begin

text \<open>
  \<open>BTreeMap\<close> and \<open>BTreeSet\<close>: key-ordered association lists without duplicate keys.  The order of the
  list is the iteration order.
\<close>

definition bt_ok :: "('k::linorder \<times> 'v) list \<Rightarrow> bool" where
  "bt_ok m \<longleftrightarrow> sorted_wrt (<) (map fst m)"

fun bt_insert :: "'k::linorder \<Rightarrow> 'v \<Rightarrow> ('k \<times> 'v) list \<Rightarrow> ('k \<times> 'v) list" where
  "bt_insert k v [] = [(k, v)]"
| "bt_insert k v ((k', v') # m) =
     (if k < k' then (k, v) # (k', v') # m
      else if k = k' then (k, v) # m
      else (k', v') # bt_insert k v m)"

definition bt_remove :: "'k::linorder \<Rightarrow> ('k \<times> 'v) list \<Rightarrow> ('k \<times> 'v) list" where
  "bt_remove k m = filter (\<lambda>(k', _). k' \<noteq> k) m"

text \<open>\<open>collect\<close>: a later entry for a key replaces an earlier one.\<close>

definition bt_collect :: "('k::linorder \<times> 'v) list \<Rightarrow> ('k \<times> 'v) list" where
  "bt_collect kvs = foldl (\<lambda>m (k, v). bt_insert k v m) [] kvs"

lemma bt_ok_Nil [simp]: "bt_ok []"
  by (simp add: bt_ok_def)

lemma bt_ok_distinct: "bt_ok m \<Longrightarrow> distinct (map fst m)"
  by (simp add: bt_ok_def strict_sorted_iff)

lemma set_bt_insert: "fst ` set (bt_insert k v m) = insert k (fst ` set m)"
  by (induction k v m rule: bt_insert.induct) auto

lemma bt_ok_insert [simp]: "bt_ok m \<Longrightarrow> bt_ok (bt_insert k v m)"
proof (induction k v m rule: bt_insert.induct)
  case (2 k v k' v' m)
  have "\<forall>x \<in> fst ` set (bt_insert k v m). k' < x" if "\<not> k < k'" "k \<noteq> k'" "bt_ok ((k', v') # m)"
    using that unfolding set_bt_insert by (auto simp: bt_ok_def)
  with 2 show ?case by (auto simp: bt_ok_def)
qed (simp add: bt_ok_def)

lemma map_of_bt_insert: "bt_ok m \<Longrightarrow> map_of (bt_insert k v m) = (map_of m)(k \<mapsto> v)"
proof (induction k v m rule: bt_insert.induct)
  case (2 k v k' v' m)
  then show ?case by (auto simp: fun_eq_iff bt_ok_def)
qed simp

lemma bt_ok_remove [simp]: "bt_ok m \<Longrightarrow> bt_ok (bt_remove k m)"
proof -
  assume "bt_ok m"
  moreover have "map fst (bt_remove k m) = filter (\<lambda>k'. k' \<noteq> k) (map fst m)"
    by (induction m) (auto simp: bt_remove_def)
  ultimately show ?thesis by (simp add: bt_ok_def sorted_wrt_filter)
qed

lemma map_of_bt_remove: "map_of (bt_remove k m) = (map_of m)(k := None)"
  by (induction m) (auto simp: bt_remove_def fun_eq_iff)

lemma bt_collect_snoc: "bt_collect (kvs @ [(k, v)]) = bt_insert k v (bt_collect kvs)"
  by (simp add: bt_collect_def)

lemma bt_ok_collect [simp]: "bt_ok (bt_collect kvs)"
  by (induction kvs rule: rev_induct) (auto simp: bt_collect_snoc bt_collect_def [of "[]"])

lemma map_of_bt_collect: "map_of (bt_collect kvs) = map_of (rev kvs)"
proof (induction kvs rule: rev_induct)
  case (snoc kv kvs)
  then show ?case by (cases kv) (simp add: bt_collect_snoc map_of_bt_insert)
qed (simp add: bt_collect_def)

lemma bt_keys_sorted: "bt_ok m \<Longrightarrow> map fst m = sorted_list_of_set (dom (map_of m))"
  by (simp add: bt_ok_def dom_map_of_conv_image_fst sorted_list_of_set.idem_if_sorted_distinct
      strict_sorted_iff flip: set_map)

text \<open>Two ordered maps with the same entries are equal.\<close>

lemma bt_ext:
  assumes "bt_ok m" and "bt_ok m'" and "map_of m = map_of m'"
  shows "m = m'"
proof -
  have "map fst m = map fst m'"
    using bt_keys_sorted [OF assms(1)] bt_keys_sorted [OF assms(2)] assms(3) by simp
  moreover have "map (the \<circ> map_of m) (map fst m) = map snd m" if "distinct (map fst m)" for m :: "('a \<times> 'b) list"
    using that by (induction m) (auto simp: rev_image_eqI)
  ultimately have "map snd m = map snd m'"
    using assms bt_ok_distinct by metis
  with \<open>map fst m = map fst m'\<close> show ?thesis by (metis zip_map_fst_snd)
qed

lemma bt_set_map_of: "bt_ok m \<Longrightarrow> (k, v) \<in> set m \<longleftrightarrow> map_of m k = Some v"
  by (simp add: map_of_eq_Some_iff bt_ok_distinct)

end
