(* ===== verification/Schema_Codec.thy ===== *)
theory Schema_Codec
  imports Native_Error
begin

text \<open>
  Stored Arrow schemas (\<open>storage/native/schema.rs\<close>): the IPC bytes of a schema in lower-case
  hexadecimal with their digest.  Arrow's IPC reader and the digest are parameters.
\<close>

section \<open>Definitions\<close>

definition MAX_SCHEMA_BYTES :: nat where
  "MAX_SCHEMA_BYTES = 8 * 1024 * 1024"

definition validate_encoded_size :: "nat \<Rightarrow> (db_error, unit) result" where
  "validate_encoded_size len = (if len > MAX_SCHEMA_BYTES then Inl NativeStorage else Inr ())"

definition HEX :: string where
  "HEX = ''0123456789abcdef''"

definition encode_hex :: "byte list \<Rightarrow> string" where
  "encode_hex bytes = concat (map (\<lambda>byte. [HEX ! unat (drop_bit 4 byte), HEX ! unat (byte AND 15)]) bytes)"

definition hex_digit :: "char \<Rightarrow> byte option" where
  "hex_digit c = (let b = (of_char c :: nat) in
     if 48 \<le> b \<and> b \<le> 57 then Some (of_nat (b - 48))
     else if 97 \<le> b \<and> b \<le> 102 then Some (of_nat (b - 97 + 10))
     else if 65 \<le> b \<and> b \<le> 70 then Some (of_nat (b - 65 + 10))
     else None)"

definition validate_hex_size :: "nat \<Rightarrow> (db_error, unit) result" where
  "validate_hex_size len = (if len > MAX_SCHEMA_BYTES * 2 then Inl NativeStorage else Inr ())"

text \<open>\<open>chunks_exact(2)\<close> with the pairs mapped and collected; the first bad pair wins.\<close>

fun decode_pairs :: "string \<Rightarrow> (db_error, byte list) result" where
  "decode_pairs (h # l # rest) = (case (hex_digit h, hex_digit l) of
       (Some high, Some low) \<Rightarrow>
         bindr (decode_pairs rest) (\<lambda>bytes. Inr ((push_bit 4 high OR low) # bytes))
     | _ \<Rightarrow> Inl NativeStorage)"
| "decode_pairs _ = Inr []"

definition decode_hex :: "string \<Rightarrow> (db_error, byte list) result" where
  "decode_hex encoded =
     bindr (validate_hex_size (length encoded)) (\<lambda>_.
     if length encoded mod 2 \<noteq> 0 then Inl NativeStorage else decode_pairs encoded)"

definition decode_schema ::
  "(byte list \<Rightarrow> string) \<Rightarrow> (byte list \<Rightarrow> 's option) \<Rightarrow> string \<Rightarrow> string \<Rightarrow> (db_error, 's) result" where
  "decode_schema sha256 from_flatbuffer encoded expected_sha256 =
     bindr (decode_hex encoded) (\<lambda>bytes.
     if sha256 bytes \<noteq> expected_sha256 then Inl NativeStorage
     else ok_or (from_flatbuffer bytes) NativeStorage)"

section \<open>Round trip\<close>

lemma hex_digit_HEX:
  assumes "n < 16"
  shows "hex_digit (HEX ! n) = Some (of_nat n)"
proof -
  have "\<forall>k \<in> set [0..<16]. hex_digit (HEX ! k) = Some (of_nat k)"
    by (simp add: upt_rec HEX_def hex_digit_def)
  then show ?thesis using assms by simp
qed

lemma nibbles:
  fixes b :: byte
  shows "unat (drop_bit 4 b) < 16" "unat (b AND 15) < 16"
    "push_bit 4 (of_nat (unat (drop_bit 4 b))) OR of_nat (unat (b AND 15)) = b"
proof -
  have "unat (drop_bit 4 b) = unat b div 2 ^ 4" by (rule unat_drop_bit)
  then show "unat (drop_bit 4 b) < 16" using unat_byte_bound [of b] by simp
  have m: "(15 :: byte) = mask 4" by (simp add: mask_eq_exp_minus_1)
  show "unat (b AND 15) < 16" using unat_and_mask [of b 4] by (simp add: m)
  show "push_bit 4 (of_nat (unat (drop_bit 4 b))) OR of_nat (unat (b AND 15)) = b"
    unfolding m by (rule bit_word_eqI) (auto simp: bit_simps)
qed

lemma decode_pairs_encode: "decode_pairs (encode_hex bytes) = Inr bytes"
  using nibbles by (induction bytes) (simp_all add: encode_hex_def hex_digit_HEX)

lemma length_encode_hex: "length (encode_hex bytes) = 2 * length bytes"
  by (induction bytes) (simp_all add: encode_hex_def)

lemma decode_encode_hex:
  "length bytes \<le> MAX_SCHEMA_BYTES \<Longrightarrow> decode_hex (encode_hex bytes) = Inr bytes"
  by (simp add: decode_hex_def validate_hex_size_def length_encode_hex decode_pairs_encode)

end
