(* ===== verification/Catalog_Manifest.thy ===== *)
theory Catalog_Manifest
  imports Json_Envelope Decimal Catalog_Name Ordered_Map Schema_Codec
begin

text \<open>
  The catalog of a native database (\<open>storage/native/manifest.rs\<close> and its submodules): numbered
  generation files, the \<open>CURRENT\<close> file that names the visible one, the two-phase commit that
  prepares a generation and then publishes it, and the removal of generations that are not current.
\<close>

section \<open>State\<close>

record table_reference =
  tr_table_id :: string
  tr_version :: nat
  tr_snapshot_id :: string
  tr_manifest_sha256 :: string

record view_reference =
  vr_version :: nat
  vr_sql :: string
  vr_schema_ipc_hex :: string
  vr_schema_sha256 :: string

text \<open>\<open>BTreeMap\<close> fields are key-ordered association lists, the \<open>BTreeSet\<close> is an ordered list.\<close>

record catalog_state =
  cs_database_id :: string
  cs_format_version :: nat
  cs_generation :: nat
  cs_transaction_id :: "string option"
  cs_schemas :: "string list"
  cs_tables :: "(string \<times> table_reference) list"
  cs_views :: "(string \<times> view_reference) list"

text \<open>The directories \<open>catalog\<close> and \<open>catalog/generations\<close>.\<close>

record catalog_dirs =
  catalog_dir :: dir
  generations_dir :: dir

text \<open>The parameters: JSON and SHA-256, \<open>Uuid::parse_str\<close>, and Arrow's schema reader.\<close>

record catalog_env =
  cat_json :: "catalog_state json"
  uuid_ok :: "string \<Rightarrow> bool"
  from_flatbuffer :: "byte list \<Rightarrow> unit option"

definition INITIAL_GENERATION :: nat where "INITIAL_GENERATION = 0"
definition LEGACY_FORMAT_VERSION :: nat where "LEGACY_FORMAT_VERSION = 1"
definition FORMAT_VERSION :: nat where "FORMAT_VERSION = 2"
definition MAX_CURRENT_BYTES :: nat where "MAX_CURRENT_BYTES = 32"
definition MAX_TABLE_NAME_BYTES :: nat where "MAX_TABLE_NAME_BYTES = 255"
definition MAX_VIEW_SQL_BYTES :: nat where "MAX_VIEW_SQL_BYTES = 1024 * 1024"
definition CATALOG_GENERATION_BUDGET_PER_TABLE_BYTES :: nat where
  "CATALOG_GENERATION_BUDGET_PER_TABLE_BYTES = 8 * 1024"
definition MAX_CATALOG_MANIFEST_BYTES :: nat where
  "MAX_CATALOG_MANIFEST_BYTES = 64 * 1024 * 1024"

section \<open>Validation\<close>

definition valid_sha256 :: "string \<Rightarrow> bool" where
  "valid_sha256 s \<longleftrightarrow> length s = 64 \<and> list_all (\<lambda>c. hex_digit c \<noteq> None) s"

definition table_reference_validate :: "catalog_env \<Rightarrow> table_reference \<Rightarrow> (db_error, unit) result" where
  "table_reference_validate E r =
     (if \<not> uuid_ok E (tr_table_id r) then Inl NativeStorage
      else if \<not> uuid_ok E (tr_snapshot_id r) then Inl NativeStorage
      else if tr_version r = 0 then Inl NativeStorage
      else if \<not> valid_sha256 (tr_manifest_sha256 r) then Inl NativeStorage
      else Inr ())"

definition view_schema :: "catalog_env \<Rightarrow> view_reference \<Rightarrow> (db_error, unit) result" where
  "view_schema E v =
     decode_schema (digest (cat_json E)) (from_flatbuffer E) (vr_schema_ipc_hex v) (vr_schema_sha256 v)"

definition view_reference_validate :: "catalog_env \<Rightarrow> view_reference \<Rightarrow> (db_error, unit) result" where
  "view_reference_validate E v =
     (if vr_version v = 0 then Inl NativeStorage
      else if vr_sql v = [] \<or> length (vr_sql v) > MAX_VIEW_SQL_BYTES \<or> CHR 0x00 \<in> set (vr_sql v)
      then Inl NativeStorage
      else bindr (view_schema E v) (\<lambda>_. Inr ()))"

definition validate_name :: "string \<Rightarrow> (db_error, unit) result" where
  "validate_name name =
     (if name = [] \<or> length name > MAX_TABLE_NAME_BYTES \<or> name \<noteq> to_ascii_lowercase name
         \<or> CHR 0x00 \<in> set name
      then Inl NativeStorage else Inr ())"

definition validate_tables ::
  "catalog_env \<Rightarrow> (string \<times> table_reference) list \<Rightarrow> (db_error, unit) result" where
  "validate_tables E tables = try_fold (\<lambda>_ (name, reference).
     if name = [] \<or> length name > MAX_TABLE_NAME_BYTES \<or> name \<noteq> to_ascii_lowercase name
        \<or> CHR 0x00 \<in> set name
     then Inl NativeStorage else table_reference_validate E reference) () tables"

definition validate_schemas :: "string list \<Rightarrow> (db_error, unit) result" where
  "validate_schemas schemas =
     (if DEFAULT_SCHEMA \<notin> set schemas then Inl NativeStorage
      else try_fold (\<lambda>_ schema. bindr (validate_name schema) (\<lambda>_.
        if CHR ''.'' \<in> set schema then Inl NativeStorage else Inr ())) () schemas)"

definition validate_object_schema :: "string list \<Rightarrow> string \<Rightarrow> (db_error, unit) result" where
  "validate_object_schema schemas name =
     (if schema_of name \<in> set schemas then Inr () else Inl NativeStorage)"

definition validate_catalog ::
  "catalog_env \<Rightarrow> string list \<Rightarrow> (string \<times> table_reference) list \<Rightarrow> (string \<times> view_reference) list
   \<Rightarrow> (db_error, unit) result" where
  "validate_catalog E schemas tables views =
     bindr (validate_schemas schemas) (\<lambda>_.
     bindr (validate_tables E tables) (\<lambda>_.
     bindr (try_fold (\<lambda>_ name. validate_object_schema schemas name) () (map fst tables)) (\<lambda>_.
     try_fold (\<lambda>_ (name, view).
       bindr (validate_name name) (\<lambda>_.
       bindr (validate_object_schema schemas name) (\<lambda>_.
       if name \<in> fst ` set tables then Inl NativeStorage
       else view_reference_validate E view))) () views)))"

definition validate_state :: "catalog_env \<Rightarrow> catalog_state \<Rightarrow> (db_error, unit) result" where
  "validate_state E state = validate_catalog E (cs_schemas state) (cs_tables state) (cs_views state)"

definition normalize_legacy :: "catalog_state \<Rightarrow> catalog_state" where
  "normalize_legacy state =
     (if cs_schemas state = [] then state\<lparr>cs_schemas := [DEFAULT_SCHEMA]\<rparr> else state)"

section \<open>Generation files\<close>

definition generation_name :: "nat \<Rightarrow> string" where
  "generation_name generation = pad_dec 20 generation @ ''.json''"

definition generation_from_name :: "string \<Rightarrow> nat option" where
  "generation_from_name name = (case strip_suffix ''.json'' name of
       None \<Rightarrow> None
     | Some digits \<Rightarrow>
         if length digits \<noteq> 20 \<or> \<not> list_all is_ascii_digit digits then None else parse_u64 digits)"

definition view_payload :: "nat \<Rightarrow> view_reference \<Rightarrow> (db_error, nat) result" where
  "view_payload bytes view =
     bindr (ok_or (checked_mul (length (vr_sql view)) 6) ResourceExhausted) (\<lambda>escaped_sql.
     ok_or (Option.bind (checked_add bytes escaped_sql)
       (\<lambda>bytes. checked_add bytes (length (vr_schema_ipc_hex view)))) ResourceExhausted)"

definition generation_budget :: "catalog_state \<Rightarrow> (db_error, nat) result" where
  "generation_budget state =
     bindr (ok_or (checked_mul
       (max (saturating_add (saturating_add (length (cs_tables state)) (length (cs_views state)))
              (length (cs_schemas state))) 1)
       CATALOG_GENERATION_BUDGET_PER_TABLE_BYTES) ResourceExhausted) (\<lambda>object_budget.
     bindr (try_fold view_payload 0 (map snd (cs_views state))) (\<lambda>view_payload_budget.
     ok_or (map_option (\<lambda>bytes. min bytes MAX_CATALOG_MANIFEST_BYTES)
       (checked_add object_budget view_payload_budget)) ResourceExhausted))"

definition encode_generation :: "catalog_env \<Rightarrow> catalog_state \<Rightarrow> (db_error, byte list) result" where
  "encode_generation E state =
     bindr (generation_budget state) (\<lambda>max_bytes. seal (cat_json E) max_bytes state)"

definition encoded_generation_size :: "catalog_env \<Rightarrow> catalog_state \<Rightarrow> (db_error, nat) result" where
  "encoded_generation_size E state = bindr (encode_generation E state) (\<lambda>bytes.
     if length bytes < u64_limit then Inr (length bytes) else Inl ResourceExhausted)"

definition validate_generation_size :: "catalog_env \<Rightarrow> catalog_state \<Rightarrow> (db_error, unit) result" where
  "validate_generation_size E state = bindr (encode_generation E state) (\<lambda>_. Inr ())"

text \<open>\<open>read_generation\<close> after its bounded read.\<close>

definition decode_generation :: "catalog_env \<Rightarrow> byte list \<Rightarrow> (db_error, catalog_state) result" where
  "decode_generation E bytes =
     bindr (ok_or (from_slice (cat_json E) bytes) NativeStorage) (\<lambda>(state, sha256).
     bindr (generation_budget state) (\<lambda>max_bytes.
     bindr (validate_size (length bytes) max_bytes) (\<lambda>_.
     bindr (json_sha256 (cat_json E) max_bytes state) (\<lambda>actual.
     if sha256 \<noteq> actual then Inl NativeStorage
     else if cs_format_version state \<noteq> LEGACY_FORMAT_VERSION \<and> cs_format_version state \<noteq> FORMAT_VERSION
     then Inl NativeStorage
     else Inr (normalize_legacy state)))))"

definition read_generation :: "catalog_env \<Rightarrow> catalog_dirs \<Rightarrow> nat \<Rightarrow> (db_error, catalog_state) result" where
  "read_generation E dirs generation =
     bindr (read_bounded (file_bytes (generations_dir dirs)) (generation_name generation)
       MAX_CATALOG_MANIFEST_BYTES) (decode_generation E)"

text \<open>Operations that write take the fault of their atomic file operation and the unique part of its
  temporary name.\<close>

definition write_generation ::
  "catalog_env \<Rightarrow> fault \<Rightarrow> string \<Rightarrow> catalog_state \<Rightarrow> catalog_dirs \<Rightarrow> catalog_dirs \<times> (db_error, unit) result"
  where
  "write_generation E fault unique state dirs = (case encode_generation E state of
       Inl e \<Rightarrow> (dirs, Inl e)
     | Inr bytes \<Rightarrow>
         (let name = generation_name (cs_generation state);
              (d, r) = atomic_create fault (temporary_name name unique) name bytes (generations_dir dirs)
          in (dirs\<lparr>generations_dir := d\<rparr>, r)))"

definition ensure_generation ::
  "catalog_env \<Rightarrow> fault \<Rightarrow> string \<Rightarrow> catalog_state \<Rightarrow> catalog_dirs \<Rightarrow> catalog_dirs \<times> (db_error, unit) result"
  where
  "ensure_generation E fault unique state dirs =
     (if exists_file (generations_dir dirs) (generation_name (cs_generation state)) then
        (dirs, bindr (read_generation E dirs (cs_generation state)) (\<lambda>existing.
           if existing \<noteq> state then Inl NativeStorage else Inr ()))
      else write_generation E fault unique state dirs)"

section \<open>The current generation\<close>

text \<open>The characters \<open>char::is_whitespace\<close> accepts, as UTF-8, and \<open>str::trim\<close>.\<close>

definition WHITE_SPACE :: "byte list list" where
  "WHITE_SPACE = [[9], [10], [11], [12], [13], [32], [0xC2, 0x85], [0xC2, 0xA0], [0xE1, 0x9A, 0x80]]
     @ map (\<lambda>b. [0xE2, 0x80, of_nat b]) ([0x80..<0x8B] @ [0xA8, 0xA9, 0xAF])
     @ [[0xE2, 0x81, 0x9F], [0xE3, 0x80, 0x80]]"

definition leading :: "byte list list \<Rightarrow> byte list \<Rightarrow> byte list option" where
  "leading ws s = find (\<lambda>w. w \<noteq> [] \<and> take (length w) s = w) ws"

lemma leading_shorter: "leading ws s = Some w \<Longrightarrow> length (drop (length w) s) < length s"
  by (cases s) (auto simp: leading_def find_Some_iff)

function trim_start :: "byte list list \<Rightarrow> byte list \<Rightarrow> byte list" where
  "trim_start ws s = (case leading ws s of None \<Rightarrow> s | Some w \<Rightarrow> trim_start ws (drop (length w) s))"
  by auto
termination
  by (relation "measure (length \<circ> snd)") (use leading_shorter in auto)

declare trim_start.simps [simp del]

definition trim :: "byte list \<Rightarrow> byte list" where
  "trim s = rev (trim_start (map rev WHITE_SPACE) (rev (trim_start WHITE_SPACE s)))"

text \<open>A file that is not UTF-8 is refused; since only white space and digits get past the rest, the
  refusal is the same storage error.\<close>

definition decode_current :: "byte list \<Rightarrow> (db_error, nat) result" where
  "decode_current bytes = ok_or (parse_u64 (unascii (trim bytes))) NativeStorage"

definition encode_current :: "nat \<Rightarrow> (db_error, byte list) result" where
  "encode_current generation =
     (let bytes = ascii (show_nat generation @ [CHR 0x0A])
      in bindr (validate_size (length bytes) MAX_CURRENT_BYTES) (\<lambda>_. Inr bytes))"

definition read_current :: "catalog_dirs \<Rightarrow> (db_error, nat) result" where
  "read_current dirs =
     bindr (read_bounded (file_bytes (catalog_dir dirs)) ''CURRENT'' MAX_CURRENT_BYTES) decode_current"

definition write_current ::
  "fault \<Rightarrow> string \<Rightarrow> nat \<Rightarrow> catalog_dirs \<Rightarrow> catalog_dirs \<times> (db_error, unit) result" where
  "write_current fault unique generation dirs = (case encode_current generation of
       Inl e \<Rightarrow> (dirs, Inl e)
     | Inr bytes \<Rightarrow>
         (let (d, r) = atomic_create fault (temporary_name ''CURRENT'' unique) ''CURRENT'' bytes (catalog_dir dirs)
          in (dirs\<lparr>catalog_dir := d\<rparr>, r)))"

section \<open>Loading\<close>

definition load :: "catalog_env \<Rightarrow> catalog_dirs \<Rightarrow> string \<Rightarrow> (db_error, catalog_state) result" where
  "load E dirs database_id =
     bindr (read_current dirs) (\<lambda>generation.
     bindr (read_generation E dirs generation) (\<lambda>state.
     if cs_generation state \<noteq> generation then Inl NativeStorage
     else if cs_database_id state \<noteq> database_id then Inl NativeStorage
     else bindr (validate_state E state) (\<lambda>_. Inr state)))"

definition load_generation ::
  "catalog_env \<Rightarrow> catalog_dirs \<Rightarrow> string \<Rightarrow> nat \<Rightarrow> (db_error, catalog_state) result" where
  "load_generation E dirs database_id generation =
     bindr (read_generation E dirs generation) (\<lambda>state.
     if cs_database_id state \<noteq> database_id then Inl NativeStorage
     else if cs_generation state \<noteq> generation then Inl NativeStorage
     else bindr (validate_state E state) (\<lambda>_. Inr state))"

definition initial_state :: "string \<Rightarrow> catalog_state" where
  "initial_state database_id =
     \<lparr>cs_database_id = database_id, cs_format_version = FORMAT_VERSION,
      cs_generation = INITIAL_GENERATION, cs_transaction_id = None,
      cs_schemas = [DEFAULT_SCHEMA], cs_tables = [], cs_views = []\<rparr>"

text \<open>Initialisation creates generation 0 and then \<open>CURRENT\<close>; each may already be there.\<close>

definition ensure_initial ::
  "catalog_env \<Rightarrow> fault \<Rightarrow> string \<Rightarrow> fault \<Rightarrow> string \<Rightarrow> string \<Rightarrow> catalog_dirs
   \<Rightarrow> catalog_dirs \<times> (db_error, unit) result" where
  "ensure_initial E fault1 unique1 fault2 unique2 database_id dirs =
     (case ensure_generation E fault1 unique1 (initial_state database_id) dirs of
        (dirs1, Inl e) \<Rightarrow> (dirs1, Inl e)
      | (dirs1, Inr _) \<Rightarrow>
          if exists_file (catalog_dir dirs1) ''CURRENT'' then
            (dirs1, bindr (read_current dirs1) (\<lambda>current.
               if current \<noteq> INITIAL_GENERATION then Inl NativeStorage else Inr ()))
          else write_current fault2 unique2 INITIAL_GENERATION dirs1)"

section \<open>The two-phase commit\<close>

definition next_state ::
  "string \<Rightarrow> nat \<Rightarrow> string \<Rightarrow> string list \<Rightarrow> (string \<times> table_reference) list
   \<Rightarrow> (string \<times> view_reference) list \<Rightarrow> catalog_state" where
  "next_state database_id generation transaction_id schemas tables views =
     \<lparr>cs_database_id = database_id, cs_format_version = FORMAT_VERSION, cs_generation = generation,
      cs_transaction_id = Some transaction_id, cs_schemas = schemas, cs_tables = tables,
      cs_views = views\<rparr>"

definition prepare_catalog_commit ::
  "catalog_env \<Rightarrow> fault \<Rightarrow> string \<Rightarrow> string \<Rightarrow> nat \<Rightarrow> string list \<Rightarrow> (string \<times> table_reference) list
   \<Rightarrow> (string \<times> view_reference) list \<Rightarrow> string \<Rightarrow> catalog_dirs
   \<Rightarrow> catalog_dirs \<times> (db_error, catalog_state) result" where
  "prepare_catalog_commit E fault unique database_id expected schemas tables views transaction_id dirs =
     (if \<not> uuid_ok E transaction_id then (dirs, Inl InvalidArgument)
      else case load E dirs database_id of Inl e \<Rightarrow> (dirs, Inl e) | Inr current \<Rightarrow>
      if cs_generation current \<noteq> expected then (dirs, Inl Catalog)
      else case checked_add expected 1 of None \<Rightarrow> (dirs, Inl ResourceExhausted) | Some generation \<Rightarrow>
      let state = next_state database_id generation transaction_id schemas tables views in
      case validate_state E state of Inl e \<Rightarrow> (dirs, Inl e) | Inr _ \<Rightarrow>
      case ensure_generation E fault unique state dirs of
        (dirs', Inl e) \<Rightarrow> (dirs', Inl e)
      | (dirs', Inr _) \<Rightarrow> (dirs', Inr state))"

definition prepare_commit ::
  "catalog_env \<Rightarrow> fault \<Rightarrow> string \<Rightarrow> string \<Rightarrow> nat \<Rightarrow> (string \<times> table_reference) list
   \<Rightarrow> string \<Rightarrow> catalog_dirs \<Rightarrow> catalog_dirs \<times> (db_error, catalog_state) result" where
  "prepare_commit E fault unique database_id expected tables transaction_id dirs =
     (case load E dirs database_id of Inl e \<Rightarrow> (dirs, Inl e) | Inr current \<Rightarrow>
      prepare_catalog_commit E fault unique database_id expected (cs_schemas current) tables
        (cs_views current) transaction_id dirs)"

text \<open>The checks of \<open>publish_prepared\<close> before it touches \<open>CURRENT\<close>.\<close>

definition publish_checks ::
  "catalog_env \<Rightarrow> catalog_dirs \<Rightarrow> string \<Rightarrow> nat \<Rightarrow> catalog_state \<Rightarrow> string \<Rightarrow> (db_error, byte list) result" where
  "publish_checks E dirs database_id expected state transaction_id =
     bindr (load E dirs database_id) (\<lambda>current.
     if cs_generation current \<noteq> expected then Inl Catalog
     else if cs_database_id state \<noteq> database_id then Inl NativeStorage
     else bindr (ok_or (checked_add expected 1) ResourceExhausted) (\<lambda>generation.
     if cs_generation state \<noteq> generation \<or> cs_transaction_id state \<noteq> Some transaction_id
     then Inl NativeStorage
     else bindr (load_generation E dirs database_id (cs_generation state)) (\<lambda>persisted.
     if persisted \<noteq> state then Inl NativeStorage
     else encode_current (cs_generation state))))"

text \<open>A fault of a publication strikes one of the five calls of the replacement (see
  \<^const>\<open>atomic_replace\<close>), the read of the catalog that verifies it afterwards (call 5), or the reads
  that check the prepared generation beforehand (call 6).\<close>

definition read_fails :: "fault \<Rightarrow> nat \<Rightarrow> bool" where
  "read_fails fault k \<longleftrightarrow> (case fault of No_Fault \<Rightarrow> False | Fault n _ _ \<Rightarrow> n = k)"

definition publish_prepared ::
  "catalog_env \<Rightarrow> fault \<Rightarrow> string \<Rightarrow> nat \<Rightarrow> catalog_state \<Rightarrow> string \<Rightarrow> catalog_dirs
   \<Rightarrow> catalog_dirs \<times> (db_error, catalog_state) result" where
  "publish_prepared E fault database_id expected state transaction_id dirs =
     (case if read_fails fault 6 then Inl Io else publish_checks E dirs database_id expected state transaction_id of
        Inl e \<Rightarrow> (dirs, Inl e)
      | Inr bytes \<Rightarrow>
      case atomic_replace fault (temporary_name ''CURRENT'' transaction_id) ''CURRENT'' bytes (catalog_dir dirs) of
        (d, Inl e) \<Rightarrow> (dirs\<lparr>catalog_dir := d\<rparr>, Inl e)
      | (d, Inr _) \<Rightarrow>
      let dirs' = dirs\<lparr>catalog_dir := d\<rparr> in
      case if read_fails fault 5 then Inl Io else load E dirs' database_id of
        Inl _ \<Rightarrow> (dirs', Inl (NativeCommitPostCommitFailure (cs_generation state)))
      | Inr committed \<Rightarrow>
      if committed \<noteq> state then (dirs', Inl (NativeCommitPostCommitFailure (cs_generation state)))
      else (dirs', Inr committed))"

section \<open>Planned updates\<close>

definition validate_planned_update_with_views ::
  "catalog_env \<Rightarrow> string \<Rightarrow> catalog_state \<Rightarrow> string list \<Rightarrow> string \<Rightarrow> table_reference
   \<Rightarrow> (string \<times> view_reference) list \<Rightarrow> (db_error, unit) result" where
  "validate_planned_update_with_views E fresh current schemas name reference views =
     bindr (ok_or (checked_add (cs_generation current) 1) ResourceExhausted) (\<lambda>generation.
     let state = next_state (cs_database_id current) generation fresh schemas
           (bt_insert name reference (cs_tables current)) views in
     bindr (validate_state E state) (\<lambda>_. validate_generation_size E state))"

definition validate_planned_update ::
  "catalog_env \<Rightarrow> string \<Rightarrow> catalog_state \<Rightarrow> string \<Rightarrow> table_reference \<Rightarrow> (db_error, unit) result" where
  "validate_planned_update E fresh current name reference =
     validate_planned_update_with_views E fresh current (cs_schemas current) name reference (cs_views current)"

definition validate_planned_transaction_update ::
  "catalog_env \<Rightarrow> string \<Rightarrow> catalog_state \<Rightarrow> string list \<Rightarrow> string \<Rightarrow> table_reference
   \<Rightarrow> (db_error, unit) result" where
  "validate_planned_transaction_update E fresh current schemas name reference =
     validate_planned_update_with_views E fresh current schemas name reference
       (bt_remove name (cs_views current))"

definition projected_generation_bytes ::
  "catalog_env \<Rightarrow> string \<Rightarrow> catalog_state \<Rightarrow> string list \<Rightarrow> (string \<times> table_reference) list
   \<Rightarrow> (string \<times> view_reference) list \<Rightarrow> (db_error, nat) result" where
  "projected_generation_bytes E fresh current schemas tables views =
     bindr (ok_or (checked_add (cs_generation current) 1) ResourceExhausted) (\<lambda>generation.
     encoded_generation_size E (next_state (cs_database_id current) generation fresh schemas tables views))"

section \<open>Removing generations\<close>

text \<open>The body of both directory loops: a generation file outside the kept range that reads back as
  a generation of this database is removed; anything else stays.  The faults of the removals are a
  function of the name; the entries come in the order the directory lists them.\<close>

definition removable :: "catalog_env \<Rightarrow> string \<Rightarrow> (nat \<Rightarrow> bool) \<Rightarrow> catalog_dirs \<Rightarrow> string \<Rightarrow> bool" where
  "removable E database_id keep dirs name = (case generation_from_name name of
       None \<Rightarrow> False
     | Some generation \<Rightarrow>
         \<not> keep generation \<and>
         (case read_generation E dirs generation of
            Inl _ \<Rightarrow> False
          | Inr state \<Rightarrow> cs_database_id state = database_id \<and> cs_generation state = generation
              \<and> is_ok (validate_tables E (cs_tables state))))"

fun sweep_generations ::
  "catalog_env \<Rightarrow> string \<Rightarrow> (nat \<Rightarrow> bool) \<Rightarrow> (string \<Rightarrow> nat option) \<Rightarrow> string list \<Rightarrow> catalog_dirs
   \<Rightarrow> catalog_dirs \<times> (db_error, unit) result" where
  "sweep_generations E database_id keep fails [] dirs = (dirs, Inr ())"
| "sweep_generations E database_id keep fails (name # names) dirs =
     (if \<not> removable E database_id keep dirs name
      then sweep_generations E database_id keep fails names dirs
      else case remove_file (fails name) name (generations_dir dirs) of
        (d, Inl e) \<Rightarrow> (dirs\<lparr>generations_dir := d\<rparr>, Inl e)
      | (d, Inr _) \<Rightarrow> sweep_generations E database_id keep fails names (dirs\<lparr>generations_dir := d\<rparr>))"

definition recover_future_generations ::
  "catalog_env \<Rightarrow> (string \<Rightarrow> nat option) \<Rightarrow> string \<Rightarrow> catalog_dirs \<Rightarrow> catalog_dirs \<times> (db_error, unit) result"
  where
  "recover_future_generations E fails database_id dirs = (case read_current dirs of
       Inl e \<Rightarrow> (dirs, Inl e)
     | Inr current \<Rightarrow> sweep_generations E database_id (\<lambda>generation. generation \<le> current) fails
         (map fst (generations_dir dirs)) dirs)"

definition prune_old_generations ::
  "catalog_env \<Rightarrow> (string \<Rightarrow> nat option) \<Rightarrow> string \<Rightarrow> nat \<Rightarrow> catalog_dirs
   \<Rightarrow> catalog_dirs \<times> (db_error, unit) result" where
  "prune_old_generations E fails database_id current dirs =
     sweep_generations E database_id (\<lambda>generation. generation \<ge> current) fails
       (map fst (generations_dir dirs)) dirs"

end
