(* ===== verification/Numbered_File.thy ===== *)
theory Numbered_File
  imports Durable_Io Decimal
begin

text \<open>
  File names of the form \<open>format!("{n:020}<suffix>")\<close>, which catalog generations and log records
  share: they sort by their number, differ from temporary names,
  and the number can be read back.
\<close>

lemma numbered_first: "is_ascii_digit (hd (pad_dec 20 n @ suffix))"
proof -
  have "pad_dec 20 n \<noteq> []" using show_nat_nonempty by (simp add: pad_dec_def)
  then show ?thesis using pad_dec_digits [of 20 n] by (cases "pad_dec 20 n") auto
qed

lemma numbered_not_temporary: "pad_dec 20 n @ suffix \<noteq> temporary_name name unique"
proof -
  have "hd (pad_dec 20 n @ suffix) \<noteq> CHR ''.''"
    using numbered_first [of n suffix] by (auto simp: is_ascii_digit_def)
  then show ?thesis using temporary_name_dot [of name unique] by metis
qed

lemma append_less_iff:
  fixes xs ys :: string
  assumes "length xs = length ys"
  shows "xs @ zs < ys @ zs \<longleftrightarrow> xs < ys"
  using assms by (induction xs ys rule: list_induct2) auto

lemma numbered_less:
  assumes "m < u64_limit" and "n < u64_limit"
  shows "pad_dec 20 m @ suffix < pad_dec 20 n @ suffix \<longleftrightarrow> m < n"
  using length_pad_dec [OF length_u64 [OF assms(1)]] length_pad_dec [OF length_u64 [OF assms(2)]]
    pad_dec_less [OF length_u64 [OF assms(1)] length_u64 [OF assms(2)]]
  by (simp add: append_less_iff)

text \<open>The number of a name: what the code computes after it has stripped the suffix.\<close>

lemma number_of_digits:
  assumes "length digits = 20" and "list_all is_ascii_digit digits" and "parse_u64 digits = Some n"
  shows "digits = pad_dec 20 n" and "n < u64_limit"
proof -
  have n: "n = dec_value digits" and b: "n < u64_limit"
    using assms parse_u64_digits [OF assms(2)] by (auto split: if_splits)
  then show "digits = pad_dec 20 n"
    using digits_dec_value [OF assms(2)] assms(1) length_u64 [OF b] by (simp add: pad_dec_eq n)
  show "n < u64_limit" by (rule b)
qed

lemma digits_of_number:
  assumes "n < u64_limit"
  shows "length (pad_dec 20 n) = 20" and "list_all is_ascii_digit (pad_dec 20 n)"
    and "parse_u64 (pad_dec 20 n) = Some n"
  using length_pad_dec [OF length_u64 [OF assms]] pad_dec_digits parse_pad [OF assms] by simp_all

end
