(* ===== verification/Catalog_Correct.thy ===== *)
theory Catalog_Correct
  imports Catalog_Manifest Numbered_File
begin

text \<open>
  Correctness of the catalog files: the generation files and \<open>CURRENT\<close> are sealed files, a prepared
  generation is invisible until it is published, publication is atomic, and the removal of other
  generations keeps the visible one.
\<close>

section \<open>The current generation file\<close>

lemma leading_None:
  assumes "c \<in> S" and "\<forall>w \<in> set ws. hd w \<notin> S"
  shows "leading ws (c # s) = None"
proof -
  have "\<not> (w \<noteq> [] \<and> take (length w) (c # s) = w)" if "w \<in> set ws" for w
    using bspec [OF assms(2) that] assms(1) by (cases w) auto
  then show ?thesis by (auto simp: leading_def find_None_iff)
qed

lemma trim_start_None: "leading ws s = None \<Longrightarrow> trim_start ws s = s"
  by (subst trim_start.simps) simp

lemma white_space_first:
  "\<forall>w \<in> set WHITE_SPACE. hd w \<notin> {b. 48 \<le> unat b \<and> unat b \<le> 57}"
  "\<forall>w \<in> set (map rev WHITE_SPACE). hd w \<notin> {b. 48 \<le> unat b \<and> unat b \<le> 57}"
  by (simp_all add: WHITE_SPACE_def upt_rec)

lemma digit_byte: "is_ascii_digit c \<Longrightarrow> (of_char c :: byte) \<in> {b. 48 \<le> unat b \<and> unat b \<le> 57}"
  using unat_of_nat_byte [of "of_char c"] by (simp add: of_nat_of_char is_ascii_digit_def)

lemma leading_digit:
  assumes "is_ascii_digit c"
  shows "leading WHITE_SPACE (of_char c # s) = None" "leading (map rev WHITE_SPACE) (of_char c # s) = None"
  by (rule leading_None [OF digit_byte [OF assms] white_space_first(1)],
      rule leading_None [OF digit_byte [OF assms] white_space_first(2)])

lemma trim_digits:
  assumes "list_all is_ascii_digit ds" and "ds \<noteq> []"
  shows "trim (ascii (ds @ [CHR 0x0A])) = ascii ds"
proof -
  obtain c cs where ds: "ds = c # cs" using assms(2) by (cases ds) auto
  obtain cs' c' where ds': "ds = cs' @ [c']" using assms(2) by (cases ds rule: rev_cases) auto
  have nl: "ascii (ds @ [CHR 0x0A]) = ascii ds @ [10]" by (simp add: ascii_def)
  have start: "trim_start WHITE_SPACE (ascii ds @ [10]) = ascii ds @ [10]"
    by (rule trim_start_None) (use assms(1) ds in \<open>simp add: ascii_def leading_digit\<close>)
  have digits: "trim_start (map rev WHITE_SPACE) (rev (ascii ds)) = rev (ascii ds)"
    by (rule trim_start_None) (use assms(1) ds' in \<open>simp add: ascii_def leading_digit\<close>)
  have "leading (map rev WHITE_SPACE) (10 # rev (ascii ds)) = Some [10]"
    by (simp add: leading_def WHITE_SPACE_def)
  then have "trim_start (map rev WHITE_SPACE) (10 # rev (ascii ds)) = rev (ascii ds)"
    by (subst trim_start.simps) (simp add: digits)
  then show ?thesis by (simp add: trim_def start nl)
qed

lemma encode_current_Inr:
  "g < u64_limit \<Longrightarrow> encode_current g = Inr (ascii (show_nat g @ [CHR 0x0A]))"
  using length_u64 [of g]
  by (simp add: encode_current_def Let_def validate_size_def MAX_CURRENT_BYTES_def ascii_def)

interpretation current_file: sealed_file encode_current decode_current "\<lambda>g. g < u64_limit" MAX_CURRENT_BYTES
proof
  fix v bytes
  assume "v < u64_limit" and "encode_current v = Inr bytes"
  then show "decode_current bytes = Inr v"
    using encode_current_Inr [of v] trim_digits [OF show_nat_digits show_nat_nonempty, of v]
    by (simp add: decode_current_def parse_show)
next
  fix v bytes
  assume "encode_current v = Inr bytes"
  then show "length bytes \<le> MAX_CURRENT_BYTES"
    by (auto simp: encode_current_def Let_def validate_size_def result_simps split: if_splits)
qed

lemma read_current_file: "read_current dirs = current_file.read (catalog_dir dirs) ''CURRENT''"
  by (simp add: read_current_def current_file.read_def)

lemma decode_current_bound: "decode_current bytes = Inr g \<Longrightarrow> g < u64_limit"
  by (auto simp: decode_current_def parse_u64_def Let_def result_simps split: if_splits)

lemma read_current_bound: "read_current dirs = Inr g \<Longrightarrow> g < u64_limit"
  by (auto simp only: read_current_def result_simps dest: decode_current_bound)

section \<open>Generation files\<close>

lemma generation_budget_bound: "generation_budget state = Inr b \<Longrightarrow> b \<le> MAX_CATALOG_MANIFEST_BYTES"
  by (auto simp: generation_budget_def result_simps)

definition storable :: "catalog_env \<Rightarrow> catalog_state \<Rightarrow> bool" where
  "storable E state \<longleftrightarrow> reads_back (cat_json E) state
     \<and> (cs_format_version state = LEGACY_FORMAT_VERSION \<or> cs_format_version state = FORMAT_VERSION)
     \<and> cs_schemas state \<noteq> []"

interpretation generation_file:
  sealed_file "encode_generation E" "decode_generation E" "storable E" MAX_CATALOG_MANIFEST_BYTES for E
proof
  fix v bytes
  assume v: "storable E v" and "encode_generation E v = Inr bytes"
  then obtain b where b: "generation_budget v = Inr b" and s: "seal (cat_json E) b v = Inr bytes"
    by (auto simp: encode_generation_def result_simps)
  from v have "from_slice (cat_json E) bytes = Some (v, value_digest (cat_json E) v)"
    by (simp add: seal_Inr(1) [OF s] storable_def reads_back_def)
  with v b seal_Inr(2,3) [OF s] show "decode_generation E bytes = Inr v"
    by (simp add: decode_generation_def validate_size_def storable_def normalize_legacy_def)
next
  fix v bytes
  assume "encode_generation E v = Inr bytes"
  then obtain b where b: "generation_budget v = Inr b" and s: "seal (cat_json E) b v = Inr bytes"
    by (auto simp: encode_generation_def result_simps)
  show "length bytes \<le> MAX_CATALOG_MANIFEST_BYTES"
    using generation_budget_bound [OF b] seal_Inr(2) [OF s] by simp
qed

lemma read_generation_file:
  "read_generation E dirs g = generation_file.read E (generations_dir dirs) (generation_name g)"
  by (simp add: read_generation_def generation_file.read_def)

lemma generation_name_inject [simp]: "generation_name g = generation_name g' \<longleftrightarrow> g = g'"
  by (simp add: generation_name_def pad_dec_inject)

lemma generation_name_not_temporary [simp]:
  "generation_name g \<noteq> temporary_name name unique" "temporary_name name unique \<noteq> generation_name g"
  using numbered_not_temporary [of g "''.json''"] by (simp_all add: generation_name_def) metis

lemma generation_from_name_Some:
  "generation_from_name name = Some g \<Longrightarrow> name = generation_name g \<and> g < u64_limit"
  using number_of_digits
  by (auto simp: generation_from_name_def generation_name_def strip_suffix_Some split: option.splits if_splits)

lemma generation_from_name_name: "g < u64_limit \<Longrightarrow> generation_from_name (generation_name g) = Some g"
  using digits_of_number [of g] by (simp add: generation_from_name_def generation_name_def)

section \<open>What loading depends on\<close>

lemma read_current_cong:
  "lookup_file (catalog_dir dirs') ''CURRENT'' = lookup_file (catalog_dir dirs) ''CURRENT''
   \<Longrightarrow> read_current dirs' = read_current dirs"
  unfolding read_current_file by (rule current_file.read_cong)

lemma read_generation_cong:
  "lookup_file (generations_dir dirs') (generation_name g) = lookup_file (generations_dir dirs) (generation_name g)
   \<Longrightarrow> read_generation E dirs' g = read_generation E dirs g"
  unfolding read_generation_file by (rule generation_file.read_cong)

lemma load_cong:
  assumes "lookup_file (catalog_dir dirs') ''CURRENT'' = lookup_file (catalog_dir dirs) ''CURRENT''"
    and "\<And>g. read_current dirs = Inr g \<Longrightarrow>
      lookup_file (generations_dir dirs') (generation_name g) = lookup_file (generations_dir dirs) (generation_name g)"
  shows "load E dirs' db = load E dirs db"
proof (cases "read_current dirs")
  case (Inr g)
  then show ?thesis
    using read_current_cong [OF assms(1)] read_generation_cong [OF assms(2) [OF Inr], of E]
    by (simp add: load_def)
qed (simp add: load_def read_current_cong [OF assms(1)])

lemma load_read_current: "load E dirs db = Inr c \<Longrightarrow> read_current dirs = Inr (cs_generation c)"
  by (auto simp: load_def result_simps split: if_splits)

lemma load_eq:
  "read_current dirs = Inr g \<Longrightarrow> load E dirs db = load_generation E dirs db g"
  by (cases "read_generation E dirs g") (simp_all add: load_def load_generation_def)

section \<open>Preparing a generation\<close>

text \<open>The states a crash can leave while a generation is prepared.\<close>

definition prepare_states :: "catalog_env \<Rightarrow> string \<Rightarrow> catalog_state \<Rightarrow> catalog_dirs \<Rightarrow> catalog_dirs list" where
  "prepare_states E unique state dirs =
     (let name = generation_name (cs_generation state) in
      if exists_file (generations_dir dirs) name then [dirs]
      else case encode_generation E state of
        Inl _ \<Rightarrow> [dirs]
      | Inr bytes \<Rightarrow> map (\<lambda>d. dirs\<lparr>generations_dir := d\<rparr>)
          (create_states (temporary_name name unique) name bytes (generations_dir dirs)))"

lemma write_generation_lookup:
  assumes "write_generation E fault unique state dirs = (dirs', r)"
  shows "catalog_dir dirs' = catalog_dir dirs"
    and "g \<noteq> cs_generation state \<Longrightarrow>
      lookup_file (generations_dir dirs') (generation_name g) = lookup_file (generations_dir dirs) (generation_name g)"
proof -
  let ?n = "generation_name (cs_generation state)"
  show "catalog_dir dirs' = catalog_dir dirs"
    using assms by (auto simp: write_generation_def Let_def split: sum.splits prod.splits)
  show "lookup_file (generations_dir dirs') (generation_name g) = lookup_file (generations_dir dirs) (generation_name g)"
    if "g \<noteq> cs_generation state"
  proof (cases "encode_generation E state")
    case (Inr bytes)
    obtain d where d: "atomic_create fault (temporary_name ?n unique) ?n bytes (generations_dir dirs) = (d, r)"
      and dirs': "dirs' = dirs\<lparr>generations_dir := d\<rparr>"
      using assms Inr by (auto simp: write_generation_def Let_def split: prod.splits)
    show ?thesis
    proof (cases r)
      case (Inl e)
      with atomic_create_Inl [OF d [unfolded Inl], of "generation_name g"] that dirs' show ?thesis by simp
    next
      case (Inr u)
      with atomic_create_Inr(2) [OF _ d [unfolded Inr]] that dirs' show ?thesis by simp
    qed
  qed (use assms in \<open>simp add: write_generation_def\<close>)
qed

lemma ensure_generation_lookup:
  assumes "ensure_generation E fault unique state dirs = (dirs', r)"
  shows "catalog_dir dirs' = catalog_dir dirs"
    and "g \<noteq> cs_generation state \<Longrightarrow>
      lookup_file (generations_dir dirs') (generation_name g) = lookup_file (generations_dir dirs) (generation_name g)"
  using assms write_generation_lookup by (auto simp: ensure_generation_def split: if_splits)

lemma ensure_generation_readable:
  assumes "storable E state" and "ensure_generation E fault unique state dirs = (dirs', Inr u)"
  shows "read_generation E dirs' (cs_generation state) = Inr state"
proof (cases "exists_file (generations_dir dirs) (generation_name (cs_generation state))")
  case True
  then show ?thesis using assms by (auto simp: ensure_generation_def result_simps split: if_splits)
next
  case False
  with assms(2) have w: "write_generation E fault unique state dirs = (dirs', Inr u)"
    by (simp add: ensure_generation_def)
  then obtain bytes where e: "encode_generation E state = Inr bytes"
    by (auto simp: write_generation_def split: sum.splits)
  with w obtain d where d: "atomic_create fault (temporary_name (generation_name (cs_generation state)) unique)
      (generation_name (cs_generation state)) bytes (generations_dir dirs) = (d, Inr u)"
    and dirs': "dirs' = dirs\<lparr>generations_dir := d\<rparr>"
    by (auto simp: write_generation_def Let_def split: prod.splits)
  show ?thesis
    using generation_file.read_created(1) [OF assms(1) e _ d] dirs' by (simp add: read_generation_file)
qed

lemma prepare_invisible:
  assumes "load E dirs db = Inr current" and "cs_generation state \<noteq> cs_generation current"
    and "ensure_generation E fault unique state dirs = (dirs', r)"
  shows "load E dirs' db = load E dirs db"
  using assms ensure_generation_lookup [OF assms(3)] load_read_current [OF assms(1)]
  by (intro load_cong) auto

lemma prepare_states_invisible:
  assumes "load E dirs db = Inr current" and "cs_generation state \<noteq> cs_generation current"
    and "s \<in> set (prepare_states E unique state dirs)"
  shows "load E s db = load E dirs db"
proof (rule load_cong)
  show "lookup_file (catalog_dir s) ''CURRENT'' = lookup_file (catalog_dir dirs) ''CURRENT''"
    using assms(3) by (auto simp: prepare_states_def Let_def split: if_splits sum.splits)
next
  fix g
  assume "read_current dirs = Inr g"
  then have "g \<noteq> cs_generation state" using assms(2) load_read_current [OF assms(1)] by simp
  then show "lookup_file (generations_dir s) (generation_name g) = lookup_file (generations_dir dirs) (generation_name g)"
    using assms(3) create_states_atomic [of _ _ "generation_name (cs_generation state)" _ _ "generation_name g"]
    by (fastforce simp: prepare_states_def Let_def split: if_splits sum.splits)
qed

section \<open>Publishing\<close>

text \<open>What the checks before publication establish: the catalog is at the expected generation, and
  the prepared one is its successor and is on disk.\<close>

lemma publish_checks_Inr:
  assumes "publish_checks E dirs db expected state txn = Inr bytes"
  obtains current where "load E dirs db = Inr current" and "cs_generation current = expected"
    and "cs_generation state = expected + 1" and "cs_generation state < u64_limit"
    and "cs_transaction_id state = Some txn" and "load_generation E dirs db (cs_generation state) = Inr state"
    and "encode_current (cs_generation state) = Inr bytes"
  using assms by (auto simp: publish_checks_def result_simps checked_add_def split: if_splits)

lemma load_published:
  assumes "load_generation E dirs db (cs_generation state) = Inr state"
    and "read_current dirs' = Inr (cs_generation state)" and "generations_dir dirs' = generations_dir dirs"
  shows "load E dirs' db = Inr state"
proof -
  have "read_generation E dirs' (cs_generation state) = read_generation E dirs (cs_generation state)"
    by (rule read_generation_cong) (simp add: assms(3))
  then show ?thesis using assms(1) by (simp add: load_eq [OF assms(2)] load_generation_def)
qed

lemma read_current_written:
  assumes "encode_current g = Inr bytes" and "g < u64_limit"
    and "lookup_file (catalog_dir dirs) ''CURRENT'' = Some (bytes, s)"
  shows "read_current dirs = Inr g"
  unfolding read_current_file by (rule current_file.read_lookup) (use assms in auto)

text \<open>Loading fails with a storage error only.\<close>

definition load_error :: "db_error \<Rightarrow> bool" where
  "load_error e \<longleftrightarrow> e = Io \<or> e = NativeStorage \<or> e = ResourceExhausted"

lemma read_bounded_error: "read_bounded files name limit = Inl e \<Longrightarrow> load_error e"
  by (auto simp: read_bounded_def load_error_def split: option.splits if_splits)

lemma generation_budget_error: "generation_budget state = Inl e \<Longrightarrow> load_error e"
  by (auto simp: generation_budget_def result_simps load_error_def view_payload_def elim!: try_fold_Inl)

lemma decode_generation_error: "decode_generation E bytes = Inl e \<Longrightarrow> load_error e"
proof (cases "from_slice (cat_json E) bytes")
  case (Some p)
  obtain state sha where p: "p = (state, sha)" by (cases p)
  assume e: "decode_generation E bytes = Inl e"
  show ?thesis
  proof (cases "generation_budget state")
    case (Inl e')
    then show ?thesis using e Some p generation_budget_error by (simp add: decode_generation_def)
  next
    case (Inr b)
    then have "e = NativeStorage"
      using e Some p by (simp add: decode_generation_def validate_size_def json_sha256_eq split: if_splits)
    then show ?thesis by (simp add: load_error_def)
  qed
qed (simp add: decode_generation_def load_error_def)

lemma read_generation_error: "read_generation E dirs g = Inl e \<Longrightarrow> load_error e"
  by (auto simp: read_generation_def bindr_eq_Inl dest: read_bounded_error decode_generation_error)

lemma decode_pairs_error: "decode_pairs s = Inl e \<Longrightarrow> e = NativeStorage"
  by (induction s rule: decode_pairs.induct) (auto simp: result_simps split: option.splits)

lemma table_reference_error: "table_reference_validate E r = Inl e \<Longrightarrow> e = NativeStorage"
  by (auto simp: table_reference_validate_def split: if_splits)

lemma view_reference_error: "view_reference_validate E v = Inl e \<Longrightarrow> e = NativeStorage"
  by (auto simp: view_reference_validate_def view_schema_def decode_schema_def decode_hex_def
      validate_hex_size_def result_simps split: if_splits dest: decode_pairs_error)

lemma validate_name_error: "validate_name name = Inl e \<Longrightarrow> e = NativeStorage"
  by (auto simp: validate_name_def split: if_splits)

lemma validate_tables_error: "validate_tables E tables = Inl e \<Longrightarrow> e = NativeStorage"
  unfolding validate_tables_def by (erule try_fold_Inl) (auto split: if_splits dest: table_reference_error)

lemma validate_schemas_error: "validate_schemas schemas = Inl e \<Longrightarrow> e = NativeStorage"
  by (auto simp: validate_schemas_def result_simps split: if_splits elim!: try_fold_Inl dest: validate_name_error)

lemma validate_object_schema_error: "validate_object_schema schemas name = Inl e \<Longrightarrow> e = NativeStorage"
  by (auto simp: validate_object_schema_def split: if_splits)

lemma validate_state_error: "validate_state E state = Inl e \<Longrightarrow> e = NativeStorage"
  by (auto simp: validate_state_def validate_catalog_def bindr_eq_Inl split: if_splits elim!: try_fold_Inl
      dest: validate_tables_error validate_schemas_error validate_name_error view_reference_error
        validate_object_schema_error)

lemma load_generation_error: "load_generation E dirs db g = Inl e \<Longrightarrow> load_error e"
  by (auto simp: load_generation_def result_simps load_error_def split: if_splits
      dest: validate_state_error dest!: read_generation_error)

lemma load_error: "load E dirs db = Inl e \<Longrightarrow> load_error e"
proof (cases "read_current dirs")
  case (Inl e')
  then have "load_error e'"
    by (auto simp: read_current_def decode_current_def result_simps dest: read_bounded_error)
      (simp add: load_error_def)
  moreover assume "load E dirs db = Inl e"
  ultimately show ?thesis using Inl by (simp add: load_def)
next
  case (Inr g)
  moreover assume "load E dirs db = Inl e"
  ultimately show ?thesis by (simp add: load_eq load_generation_error)
qed

lemma publish_checks_error:
  "publish_checks E dirs db expected state txn = Inl e \<Longrightarrow> load_error e \<or> e = Catalog"
  by (auto simp: publish_checks_def result_simps encode_current_def Let_def validate_size_def
      split: if_splits dest: load_error load_generation_error) (simp_all add: load_error_def)

lemma encode_generation_error: "encode_generation E state = Inl e \<Longrightarrow> load_error e"
  by (auto simp: encode_generation_def seal_def json_sha256_eq encode_bounded_eq bindr_eq_Inl split: if_splits
      dest: generation_budget_error) (simp_all add: load_error_def)

lemma ensure_generation_error: "ensure_generation E fault unique state dirs = (dirs', Inl e) \<Longrightarrow> load_error e"
  using encode_generation_error read_generation_error atomic_create_error
  by (fastforce simp: ensure_generation_def write_generation_def Let_def bindr_eq_Inl load_error_def
      split: if_splits sum.splits prod.splits)

text \<open>What a preparation that succeeds has done, and what one that fails has not.\<close>

lemma prepare_catalog_commit_Inr:
  assumes "prepare_catalog_commit E fault unique db base schemas tables views txn dirs = (dirs', Inr prepared)"
    and "storable E (next_state db (base + 1) txn schemas tables views)"
  obtains old where "prepared = next_state db (base + 1) txn schemas tables views"
    and "load E dirs db = Inr old" and "cs_generation old = base" and "base + 1 < u64_limit"
    and "load E dirs' db = Inr old" and "load_generation E dirs' db (base + 1) = Inr prepared"
    and "catalog_dir dirs' = catalog_dir dirs"
proof -
  let ?new = "next_state db (base + 1) txn schemas tables views"
  obtain old where old: "load E dirs db = Inr old" "cs_generation old = base" and b: "base + 1 < u64_limit"
    and v: "validate_state E ?new = Inr ()" and e: "ensure_generation E fault unique ?new dirs = (dirs', Inr ())"
    and p: "prepared = ?new"
    using assms(1) by (auto simp: prepare_catalog_commit_def Let_def checked_add_def
        split: if_splits sum.splits option.splits prod.splits)
  have g: "cs_generation ?new = base + 1" by (simp add: next_state_def)
  have "read_generation E dirs' (base + 1) = Inr ?new"
    using ensure_generation_readable [OF assms(2) e] g by simp
  then have "load_generation E dirs' db (base + 1) = Inr ?new"
    using v g by (simp add: load_generation_def) (simp add: next_state_def)
  moreover have "load E dirs' db = Inr old"
    using prepare_invisible [OF old(1) _ e] old g by simp
  moreover have "catalog_dir dirs' = catalog_dir dirs" by (rule ensure_generation_lookup(1) [OF e])
  ultimately show ?thesis using that p old b by blast
qed

lemma prepare_catalog_commit_load:
  assumes "prepare_catalog_commit E fault unique db base schemas tables views txn dirs = (dirs', Inr prepared)"
  shows "load E dirs' db = load E dirs db"
proof -
  let ?new = "next_state db (base + 1) txn schemas tables views"
  obtain old where old: "load E dirs db = Inr old" "cs_generation old = base"
    and e: "ensure_generation E fault unique ?new dirs = (dirs', Inr ())"
    using assms by (auto simp: prepare_catalog_commit_def Let_def checked_add_def
        split: if_splits sum.splits option.splits prod.splits)
  show ?thesis using prepare_invisible [OF old(1) _ e] old(2) by (simp add: next_state_def)
qed

lemma prepare_catalog_commit_Inl:
  assumes "prepare_catalog_commit E fault unique db base schemas tables views txn dirs = (dirs', Inl e)"
  shows "load E dirs' db = load E dirs db" and "load_error e \<or> e = InvalidArgument \<or> e = Catalog"
proof -
  let ?new = "next_state db (base + 1) txn schemas tables views"
  have g: "cs_generation ?new = base + 1" by (simp add: next_state_def)
  have r: "ResourceExhausted = e \<Longrightarrow> load_error e" by (auto simp: load_error_def)
  have n: "NativeStorage = e \<Longrightarrow> load_error e" by (auto simp: load_error_def)
  consider "dirs' = dirs \<and> (load_error e \<or> e = InvalidArgument \<or> e = Catalog)"
    | old where "load E dirs db = Inr old" "cs_generation old = base"
        "ensure_generation E fault unique ?new dirs = (dirs', Inl e)"
    using assms r n load_error [of E dirs db] validate_state_error [of E ?new]
    by (auto simp: prepare_catalog_commit_def Let_def checked_add_def
        split: if_splits sum.splits option.splits prod.splits)
  then have "load E dirs' db = load E dirs db \<and> (load_error e \<or> e = InvalidArgument \<or> e = Catalog)"
  proof cases
    case (2 old)
    then show ?thesis using prepare_invisible [OF 2(1) _ 2(3)] ensure_generation_error [OF 2(3)] g by simp
  qed simp
  then show "load E dirs' db = load E dirs db" and "load_error e \<or> e = InvalidArgument \<or> e = Catalog"
    by blast+
qed

text \<open>Each outcome of a publication says what is visible afterwards; verification after the
  replacement fails only when its read does.\<close>

definition publish_outcome ::
  "catalog_env \<Rightarrow> string \<Rightarrow> catalog_state \<Rightarrow> catalog_dirs \<Rightarrow> catalog_dirs \<Rightarrow> (db_error, catalog_state) result
   \<Rightarrow> bool" where
  "publish_outcome E db state dirs dirs' r \<longleftrightarrow> (case r of
       Inr committed \<Rightarrow> committed = state \<and> load E dirs' db = Inr state
     | Inl e \<Rightarrow>
         if e = CommitOutcomeUnknown \<or> e = NativeCommitPostCommitFailure (cs_generation state)
         then load E dirs' db = Inr state
         else (load_error e \<or> e = Catalog) \<and> load E dirs' db = load E dirs db)"

lemma publish_prepared_outcome:
  assumes "publish_prepared E fault db expected state txn dirs = (dirs', r)"
  shows "publish_outcome E db state dirs dirs' r"
proof (cases "if read_fails fault 6 then Inl Io else publish_checks E dirs db expected state txn")
  case (Inl e)
  then have "load_error e \<or> e = Catalog"
    using publish_checks_error [of E dirs db expected state txn e]
    by (auto simp: load_error_def split: if_splits)
  then show ?thesis
    using assms Inl by (auto simp: publish_prepared_def publish_outcome_def load_error_def)
next
  case (Inr bytes)
  note chk = Inr
  let ?tmp = "temporary_name ''CURRENT'' txn"
  obtain current where g: "cs_generation state < u64_limit"
    and p: "load_generation E dirs db (cs_generation state) = Inr state"
    and e: "encode_current (cs_generation state) = Inr bytes"
    by (rule publish_checks_Inr) (use Inr in \<open>auto split: if_splits\<close>)
  obtain d r' where rep: "atomic_replace fault ?tmp ''CURRENT'' bytes (catalog_dir dirs) = (d, r')"
    by (cases "atomic_replace fault ?tmp ''CURRENT'' bytes (catalog_dir dirs)")
  have new: "load E (dirs\<lparr>catalog_dir := d\<rparr>) db = Inr state" if "r' = Inr () \<or> r' = Inl CommitOutcomeUnknown"
  proof -
    have "lookup_file d ''CURRENT'' = Some (bytes, True)"
      using atomic_replace_cases(1) [OF _ rep _ that, of "''CURRENT''"] by simp
    then have "read_current (dirs\<lparr>catalog_dir := d\<rparr>) = Inr (cs_generation state)"
      by (intro read_current_written [OF e g]) simp
    then show ?thesis using load_published [OF p] by simp
  qed
  have old: "load E (dirs\<lparr>catalog_dir := d\<rparr>) db = load E dirs db" if "r' \<noteq> Inr ()" "r' \<noteq> Inl CommitOutcomeUnknown"
    using atomic_replace_cases(2) [OF _ rep _ that, of "''CURRENT''"] by (intro load_cong) simp_all
  show ?thesis
  proof (cases r')
    case (Inl err)
    with assms Inr rep have "dirs' = dirs\<lparr>catalog_dir := d\<rparr>" "r = Inl err" by (auto simp: publish_prepared_def)
    then show ?thesis using new old Inl atomic_replace_error [OF rep [unfolded Inl]]
      by (auto simp: publish_outcome_def load_error_def)
  next
    case (Inr u)
    have "load E (dirs\<lparr>catalog_dir := d\<rparr>) db = Inr state" using new Inr by simp
    with assms chk rep Inr
    have "dirs' = dirs\<lparr>catalog_dir := d\<rparr> \<and> (r = Inr state \<or> r = Inl (NativeCommitPostCommitFailure (cs_generation state)))"
      by (auto simp: publish_prepared_def Let_def split: if_splits)
    with \<open>load E (dirs\<lparr>catalog_dir := d\<rparr>) db = Inr state\<close> show ?thesis by (auto simp: publish_outcome_def)
  qed
qed

text \<open>Without faults, a prepared generation is published.\<close>

lemma publish_prepared_ok:
  assumes "publish_checks E dirs db expected state txn = Inr bytes"
    and "lookup_file (catalog_dir dirs) (temporary_name ''CURRENT'' txn) = None"
  shows "\<exists>dirs'. publish_prepared E No_Fault db expected state txn dirs = (dirs', Inr state)"
proof -
  let ?d = "put_file ''CURRENT'' bytes True (catalog_dir dirs)"
  obtain current where l: "load E dirs db = Inr current" and g: "cs_generation state < u64_limit"
    and p: "load_generation E dirs db (cs_generation state) = Inr state"
    and e: "encode_current (cs_generation state) = Inr bytes"
    by (rule publish_checks_Inr [OF assms(1)])
  have "exists_file (catalog_dir dirs) ''CURRENT''"
    using load_read_current [OF l]
    by (auto simp: read_current_def read_bounded_def exists_file_bytes result_simps split: option.splits)
  then have "atomic_replace No_Fault (temporary_name ''CURRENT'' txn) ''CURRENT'' bytes (catalog_dir dirs) = (?d, Inr ())"
    using atomic_replace_ok assms(2) by blast
  moreover have "read_current (dirs\<lparr>catalog_dir := ?d\<rparr>) = Inr (cs_generation state)"
    by (rule read_current_written [OF e g]) simp
  then have "load E (dirs\<lparr>catalog_dir := ?d\<rparr>) db = Inr state"
    using load_published [OF p] by simp
  ultimately show ?thesis by (simp add: publish_prepared_def read_fails_def assms(1) Let_def)
qed

lemma publish_prepared_unread:
  assumes "publish_prepared E No_Fault db expected state txn dirs = (dirs', Inr committed)"
  shows "publish_prepared E (Fault 5 n c) db expected state txn dirs
    = (dirs', Inl (NativeCommitPostCommitFailure (cs_generation state)))"
proof -
  obtain bytes where chk: "publish_checks E dirs db expected state txn = Inr bytes"
    using assms by (auto simp: publish_prepared_def read_fails_def split: sum.splits)
  obtain d r where rep: "atomic_replace No_Fault (temporary_name ''CURRENT'' txn) ''CURRENT'' bytes (catalog_dir dirs) = (d, r)"
    by (metis prod.exhaust)
  have d: "r = Inr ()" "dirs' = dirs\<lparr>catalog_dir := d\<rparr>"
    using assms chk rep by (auto simp: publish_prepared_def read_fails_def Let_def split: sum.splits if_splits)
  then have "atomic_replace (Fault 5 n c) (temporary_name ''CURRENT'' txn) ''CURRENT'' bytes (catalog_dir dirs) = (d, Inr ())"
    using rep by (auto simp: atomic_replace_def Let_def cleanup_temporary_def split: if_splits)
  then show ?thesis using chk d by (simp add: publish_prepared_def read_fails_def Let_def)
qed

section \<open>Removing generations\<close>

lemma removable_cong:
  assumes "lookup_file (generations_dir dirs') name = lookup_file (generations_dir dirs) name"
  shows "removable E db keep dirs' name = removable E db keep dirs name"
proof (cases "generation_from_name name")
  case (Some g)
  with generation_from_name_Some have "name = generation_name g" by simp
  then have "read_generation E dirs' g = read_generation E dirs g"
    using assms by (intro read_generation_cong) simp
  then show ?thesis by (simp add: removable_def Some)
qed (simp add: removable_def)

lemma removable_keep: "removable E db keep dirs (generation_name g) \<Longrightarrow> g < u64_limit \<Longrightarrow> \<not> keep g"
  by (auto simp: removable_def generation_from_name_name)

lemma removable_missing: "lookup_file (generations_dir dirs) name = None \<Longrightarrow> \<not> removable E db keep dirs name"
  using generation_from_name_Some
  by (fastforce simp: removable_def read_generation_file generation_file.read_missing split: option.splits)

lemma sweep_lookup:
  assumes "sweep_generations E db keep fails names dirs = (dirs', r)"
  shows "catalog_dir dirs' = catalog_dir dirs"
    and "lookup_file (generations_dir dirs') name = lookup_file (generations_dir dirs) name
      \<or> name \<in> set names \<and> lookup_file (generations_dir dirs') name = None \<and> removable E db keep dirs name"
proof -
  have "catalog_dir dirs' = catalog_dir dirs \<and>
    (lookup_file (generations_dir dirs') name = lookup_file (generations_dir dirs) name
      \<or> name \<in> set names \<and> lookup_file (generations_dir dirs') name = None \<and> removable E db keep dirs name)"
    using assms
  proof (induction names arbitrary: dirs)
    case (Cons n ns)
    show ?case
    proof (cases "removable E db keep dirs n")
      case False
      then show ?thesis using Cons.IH [of dirs] Cons.prems by auto
    next
      case True
      obtain d q where rm: "remove_file (fails n) n (generations_dir dirs) = (d, q)"
        by (cases "remove_file (fails n) n (generations_dir dirs)")
      let ?dirs = "dirs\<lparr>generations_dir := d\<rparr>"
      have d: "lookup_file d name = lookup_file (generations_dir dirs) name \<or> name = n \<and> lookup_file d name = None"
        using remove_file_lookup [OF rm] by (auto split: if_splits)
      show ?thesis
      proof (cases q)
        case (Inl e)
        then show ?thesis using Cons.prems True rm d by auto
      next
        case (Inr u)
        then have "sweep_generations E db keep fails ns ?dirs = (dirs', r)" using Cons.prems True rm by simp
        from Cons.IH [OF this] d removable_cong [of ?dirs name dirs] True show ?thesis by auto
      qed
    qed
  qed simp
  then show "catalog_dir dirs' = catalog_dir dirs"
    and "lookup_file (generations_dir dirs') name = lookup_file (generations_dir dirs) name
      \<or> name \<in> set names \<and> lookup_file (generations_dir dirs') name = None \<and> removable E db keep dirs name"
    by blast+
qed

lemma sweep_complete:
  assumes "sweep_generations E db keep fails names dirs = (dirs', Inr u)" and "name \<in> set names"
  shows "\<not> removable E db keep dirs' name"
  using assms
proof (induction names arbitrary: dirs)
  case (Cons n ns)
  show ?case
  proof (cases "name \<in> set ns")
    case True
    with Cons show ?thesis by (auto split: if_splits prod.splits sum.splits)
  next
    case False
    with Cons.prems have n: "name = n" by simp
    show ?thesis
    proof (cases "removable E db keep dirs n")
      case False
      with Cons.prems have "sweep_generations E db keep fails ns dirs = (dirs', Inr u)" by simp
      from sweep_lookup(2) [OF this, of n] False n removable_cong [of dirs' n dirs] removable_missing
      show ?thesis by blast
    next
      case True
      with Cons.prems obtain d where rm: "remove_file (fails n) n (generations_dir dirs) = (d, Inr ())"
        and sw: "sweep_generations E db keep fails ns (dirs\<lparr>generations_dir := d\<rparr>) = (dirs', Inr u)"
        by (auto split: prod.splits sum.splits)
      have "lookup_file d n = None" using remove_file_lookup [OF rm] by auto
      with sweep_lookup(2) [OF sw, of n] have "lookup_file (generations_dir dirs') n = None" by auto
      with n removable_missing show ?thesis by blast
    qed
  qed
qed simp

lemma sweep_keeps_load:
  assumes "sweep_generations E db keep fails names dirs = (dirs', r)"
    and "\<And>g. read_current dirs = Inr g \<Longrightarrow> keep g"
  shows "load E dirs' db' = load E dirs db'"
proof (rule load_cong)
  show "lookup_file (catalog_dir dirs') ''CURRENT'' = lookup_file (catalog_dir dirs) ''CURRENT''"
    using sweep_lookup(1) [OF assms(1)] by simp
next
  fix g
  assume "read_current dirs = Inr g"
  then have "\<not> removable E db keep dirs (generation_name g)"
    using assms(2) removable_keep read_current_bound by blast
  then show "lookup_file (generations_dir dirs') (generation_name g) = lookup_file (generations_dir dirs) (generation_name g)"
    using sweep_lookup(2) [OF assms(1), of "generation_name g"] by blast
qed

lemma sweep_all:
  assumes "sweep_generations E db keep fails (map fst (generations_dir dirs)) dirs = (dirs', Inr u)"
  shows "\<not> removable E db keep dirs' name"
proof (cases "name \<in> set (map fst (generations_dir dirs))")
  case True
  then show ?thesis using sweep_complete [OF assms] by blast
next
  case False
  then have "lookup_file (generations_dir dirs) name = None"
    by (simp add: lookup_file_def map_of_eq_None_iff)
  with sweep_lookup(2) [OF assms, of name] have "lookup_file (generations_dir dirs') name = None" by auto
  then show ?thesis by (rule removable_missing)
qed

section \<open>What a loaded catalog satisfies\<close>

definition name_ok :: "string \<Rightarrow> bool" where
  "name_ok name \<longleftrightarrow> name \<noteq> [] \<and> length name \<le> MAX_TABLE_NAME_BYTES \<and> to_ascii_lowercase name = name \<and> CHR 0x00 \<notin> set name"

definition catalog_ok :: "catalog_state \<Rightarrow> bool" where
  "catalog_ok state \<longleftrightarrow> DEFAULT_SCHEMA \<in> set (cs_schemas state)
     \<and> (\<forall>name \<in> set (cs_schemas state). name_ok name \<and> CHR ''.'' \<notin> set name)
     \<and> (\<forall>name \<in> fst ` set (cs_tables state) \<union> fst ` set (cs_views state). name_ok name \<and> schema_of name \<in> set (cs_schemas state))
     \<and> fst ` set (cs_tables state) \<inter> fst ` set (cs_views state) = {}
     \<and> (\<forall>(name, table) \<in> set (cs_tables state). tr_version table > 0 \<and> valid_sha256 (tr_manifest_sha256 table))"

lemma validate_name_Inr: "validate_name name = Inr u \<longleftrightarrow> name_ok name"
  by (auto simp: validate_name_def name_ok_def)

lemma disjoint_images: "(\<And>x. x \<in> B \<Longrightarrow> f x \<notin> A) \<Longrightarrow> A \<inter> f ` B = {}"
  by auto

lemma validate_state_ok:
  assumes "validate_state E state = Inr u"
  shows "catalog_ok state"
proof -
  let ?t = "cs_tables state" and ?v = "cs_views state" and ?s = "cs_schemas state"
  have v: "validate_schemas ?s = Inr ()" "validate_tables E ?t = Inr ()"
    and t: "\<forall>name \<in> set (map fst ?t). validate_object_schema ?s name = Inr ()"
    and w: "\<forall>x \<in> set ?v. (\<lambda>(name, view). bindr (validate_name name) (\<lambda>_. bindr (validate_object_schema ?s name) (\<lambda>_.
       if name \<in> fst ` set ?t then Inl NativeStorage else view_reference_validate E view))) x = Inr ()"
    using assms unfolding validate_state_def validate_catalog_def bindr_eq_Inr try_fold_unit_Inr by simp_all
  have views: "name_ok name" "validate_object_schema ?s name = Inr ()" "name \<notin> fst ` set ?t" if "(name, view) \<in> set ?v" for name view
    using bspec [OF w that] by (simp_all add: result_simps validate_name_Inr split: if_splits)
  have schemas: "DEFAULT_SCHEMA \<in> set ?s \<and> (\<forall>name \<in> set ?s. name_ok name \<and> CHR ''.'' \<notin> set name)"
    using v(1) by (auto simp: validate_schemas_def result_simps try_fold_unit_Inr validate_name_Inr split: if_splits)
  have tables: "\<forall>(name, table) \<in> set ?t. name_ok name \<and> tr_version table > 0 \<and> valid_sha256 (tr_manifest_sha256 table)"
    using v(2) by (fastforce simp: validate_tables_def try_fold_unit_Inr name_ok_def table_reference_validate_def split: if_splits)
  have known: "validate_object_schema ?s name = Inr () \<Longrightarrow> schema_of name \<in> set ?s" for name
    by (simp add: validate_object_schema_def split: if_splits)
  have "name_ok name \<and> schema_of name \<in> set ?s" if "name \<in> fst ` set ?t \<union> fst ` set ?v" for name
    using that tables t known views by fastforce
  moreover have "fst ` set ?t \<inter> fst ` set ?v = {}"
    by (rule disjoint_images) (use views(3) in \<open>metis prod.collapse\<close>)
  moreover have "\<forall>(name, table) \<in> set ?t. tr_version table > 0 \<and> valid_sha256 (tr_manifest_sha256 table)"
    using tables by blast
  ultimately show ?thesis unfolding catalog_ok_def using schemas by blast
qed

lemma load_ok: "load E dirs db = Inr state \<Longrightarrow> catalog_ok state \<and> cs_database_id state = db"
  using validate_state_ok by (auto simp: load_def result_simps split: if_splits)

end
