(* ===== verification/Wal_Log.thy ===== *)
theory Wal_Log
  imports Json_Envelope Decimal
begin

text \<open>
  The write-ahead log of a native database (\<open>storage/native/wal.rs\<close>, \<open>wal/record.rs\<close>,
  \<open>wal/checkpoint.rs\<close>): one sealed file per record, named by its log sequence number, a checkpoint
  file, and the transaction table the records determine.
\<close>

section \<open>Records\<close>

definition MAX_RECORD_BYTES :: nat where "MAX_RECORD_BYTES = 64 * 1024"
definition RECORD_FORMAT_VERSION :: nat where "RECORD_FORMAT_VERSION = 1"

datatype transaction_mode = ReadOnly | ReadWrite

datatype record_kind =
    Begin (snapshot_generation: nat) (mode: transaction_mode)
  | Catalog_Commit (expected_generation: nat) (logged_generation: nat)
  | Abort

record wal_record =
  wr_format_version :: nat
  wr_database_id :: string
  wr_lsn :: nat
  wr_transaction_id :: string
  wr_kind :: record_kind

record checkpoint =
  cp_format_version :: nat
  cp_database_id :: string
  cp_next_lsn :: nat
  cp_catalog_generation :: nat

text \<open>The parameters: JSON and digests for both kinds of file, and \<open>Uuid::parse_str\<close>.\<close>

record log_env =
  rec_json :: "wal_record json"
  cp_json :: "checkpoint json"
  log_uuid_ok :: "string \<Rightarrow> bool"

definition record_new :: "string \<Rightarrow> nat \<Rightarrow> string \<Rightarrow> record_kind \<Rightarrow> wal_record" where
  "record_new database_id lsn transaction_id kind =
     \<lparr>wr_format_version = RECORD_FORMAT_VERSION, wr_database_id = database_id, wr_lsn = lsn,
      wr_transaction_id = transaction_id, wr_kind = kind\<rparr>"

definition record_validate :: "log_env \<Rightarrow> wal_record \<Rightarrow> string \<Rightarrow> nat \<Rightarrow> (db_error, unit) result" where
  "record_validate L r database_id expected_lsn =
     (if wr_format_version r \<noteq> RECORD_FORMAT_VERSION then Inl NativeStorage
      else if wr_database_id r \<noteq> database_id then Inl NativeStorage
      else if wr_lsn r = 0 \<or> wr_lsn r \<noteq> expected_lsn then Inl NativeStorage
      else if \<not> log_uuid_ok L (wr_transaction_id r) then Inl NativeStorage
      else case wr_kind r of
        Catalog_Commit expected generation \<Rightarrow>
          if checked_add expected 1 \<noteq> Some generation then Inl NativeStorage else Inr ()
      | _ \<Rightarrow> Inr ())"

definition record_name :: "nat \<Rightarrow> string" where
  "record_name lsn = pad_dec 20 lsn @ ''.wal''"

definition lsn_from_name :: "string \<Rightarrow> nat option" where
  "lsn_from_name name = (case strip_suffix ''.wal'' name of
       None \<Rightarrow> None
     | Some digits \<Rightarrow>
         if length digits \<noteq> 20 \<or> \<not> list_all is_ascii_digit digits then None else parse_u64 digits)"

definition record_encode :: "log_env \<Rightarrow> wal_record \<Rightarrow> (db_error, byte list) result" where
  "record_encode L r =
     bindr (record_validate L r (wr_database_id r) (wr_lsn r)) (\<lambda>_. seal (rec_json L) MAX_RECORD_BYTES r)"

definition record_write ::
  "log_env \<Rightarrow> fault \<Rightarrow> string \<Rightarrow> wal_record \<Rightarrow> dir \<Rightarrow> dir \<times> (db_error, unit) result" where
  "record_write L fault unique r d = (case record_encode L r of
       Inl e \<Rightarrow> (d, Inl e)
     | Inr bytes \<Rightarrow>
         atomic_create fault (temporary_name (record_name (wr_lsn r)) unique) (record_name (wr_lsn r)) bytes d)"

definition record_decode :: "log_env \<Rightarrow> string \<Rightarrow> nat \<Rightarrow> byte list \<Rightarrow> (db_error, wal_record) result" where
  "record_decode L database_id expected_lsn bytes =
     bindr (ok_or (from_slice (rec_json L) bytes) NativeStorage) (\<lambda>(r, sha256).
     bindr (record_validate L r database_id expected_lsn) (\<lambda>_.
     bindr (json_sha256 (rec_json L) MAX_RECORD_BYTES r) (\<lambda>actual.
     if sha256 \<noteq> actual then Inl NativeStorage else Inr r)))"

definition record_read :: "log_env \<Rightarrow> dir \<Rightarrow> string \<Rightarrow> nat \<Rightarrow> (db_error, wal_record) result" where
  "record_read L d database_id lsn =
     bindr (read_bounded (file_bytes d) (record_name lsn) MAX_RECORD_BYTES) (record_decode L database_id lsn)"

section \<open>Checkpoints\<close>

definition CHECKPOINT_FILE :: string where "CHECKPOINT_FILE = ''CHECKPOINT''"
definition CHECKPOINT_FORMAT_VERSION :: nat where "CHECKPOINT_FORMAT_VERSION = 1"
definition CHECKPOINT_MAX_BYTES :: nat where "CHECKPOINT_MAX_BYTES = 16 * 1024"

definition checkpoint_validate :: "checkpoint \<Rightarrow> string \<Rightarrow> (db_error, unit) result" where
  "checkpoint_validate c database_id =
     (if cp_format_version c \<noteq> CHECKPOINT_FORMAT_VERSION then Inl NativeStorage
      else if cp_database_id c \<noteq> database_id then Inl NativeStorage
      else if cp_next_lsn c = 0 then Inl NativeStorage
      else Inr ())"

definition checkpoint_decode :: "log_env \<Rightarrow> string \<Rightarrow> byte list \<Rightarrow> (db_error, checkpoint) result" where
  "checkpoint_decode L database_id bytes =
     bindr (ok_or (from_slice (cp_json L) bytes) NativeStorage) (\<lambda>(c, sha256).
     bindr (checkpoint_validate c database_id) (\<lambda>_.
     bindr (json_sha256 (cp_json L) CHECKPOINT_MAX_BYTES c) (\<lambda>actual.
     if sha256 \<noteq> actual then Inl NativeStorage else Inr c)))"

definition checkpoint_read :: "log_env \<Rightarrow> dir \<Rightarrow> string \<Rightarrow> (db_error, nat \<times> nat) result" where
  "checkpoint_read L d database_id =
     (if \<not> exists_file d CHECKPOINT_FILE then Inr (1, 0)
      else bindr (read_bounded (file_bytes d) CHECKPOINT_FILE CHECKPOINT_MAX_BYTES) (\<lambda>bytes.
           bindr (checkpoint_decode L database_id bytes) (\<lambda>c.
           Inr (cp_next_lsn c, cp_catalog_generation c))))"

definition checkpoint_encode :: "log_env \<Rightarrow> string \<Rightarrow> checkpoint \<Rightarrow> (db_error, byte list) result" where
  "checkpoint_encode L database_id c =
     bindr (checkpoint_validate c database_id) (\<lambda>_. seal (cp_json L) CHECKPOINT_MAX_BYTES c)"

definition checkpoint_write ::
  "log_env \<Rightarrow> fault \<Rightarrow> string \<Rightarrow> string \<Rightarrow> nat \<Rightarrow> nat \<Rightarrow> dir \<Rightarrow> dir \<times> (db_error, unit) result" where
  "checkpoint_write L fault unique database_id next_lsn catalog_generation d =
     (let c = \<lparr>cp_format_version = CHECKPOINT_FORMAT_VERSION, cp_database_id = database_id,
               cp_next_lsn = next_lsn, cp_catalog_generation = catalog_generation\<rparr>;
          tmp = temporary_name CHECKPOINT_FILE unique in
      case checkpoint_encode L database_id c of
        Inl e \<Rightarrow> (d, Inl e)
      | Inr bytes \<Rightarrow>
          if exists_file d CHECKPOINT_FILE then atomic_replace fault tmp CHECKPOINT_FILE bytes d
          else atomic_create fault tmp CHECKPOINT_FILE bytes d)"

section \<open>The transaction table\<close>

record catalog_commit =
  cc_transaction_id :: string
  cc_expected_generation :: nat
  cc_generation :: nat

datatype transaction_state = Active | CatalogCommitted catalog_commit | Aborted

type_synonym transactions = "(string \<times> transaction_state) list"

text \<open>The log in memory, with its directory.  The hash map is an association list; where its
  iteration order could matter the code sorts.\<close>

record wal =
  w_dir :: dir
  w_database_id :: string
  w_next_lsn :: nat
  w_transactions :: transactions

definition validate_transition :: "transactions \<Rightarrow> string \<Rightarrow> record_kind \<Rightarrow> (db_error, unit) result" where
  "validate_transition ts transaction_id kind = (case (map_of ts transaction_id, kind) of
       (None, Begin _ _) \<Rightarrow> Inr ()
     | (Some Active, Catalog_Commit _ _) \<Rightarrow> Inr ()
     | (Some Active, Abort) \<Rightarrow> Inr ()
     | _ \<Rightarrow> Inl NativeStorage)"

definition next_transaction_state :: "wal_record \<Rightarrow> transaction_state" where
  "next_transaction_state r = (case wr_kind r of
       Begin _ _ \<Rightarrow> Active
     | Catalog_Commit expected generation \<Rightarrow> CatalogCommitted
         \<lparr>cc_transaction_id = wr_transaction_id r, cc_expected_generation = expected,
          cc_generation = generation\<rparr>
     | Abort \<Rightarrow> Aborted)"

definition apply_record :: "transactions \<Rightarrow> wal_record \<Rightarrow> (db_error, transactions) result" where
  "apply_record ts r =
     bindr (validate_transition ts (wr_transaction_id r) (wr_kind r)) (\<lambda>_.
     Inr (AList.update (wr_transaction_id r) (next_transaction_state r) ts))"

section \<open>Appending\<close>

text \<open>What can go wrong in one append: the atomic creation, the inspection of the path after a
  failed creation, and the final sync.\<close>

record append_faults =
  af_create :: fault
  af_inspect_fails :: bool
  af_sync_fails :: bool

definition no_append_faults :: append_faults where
  "no_append_faults = \<lparr>af_create = No_Fault, af_inspect_fails = False, af_sync_fails = False\<rparr>"

definition ambiguous_append_error :: "record_kind \<Rightarrow> db_error" where
  "ambiguous_append_error kind = (case kind of
       Catalog_Commit _ _ \<Rightarrow> CommitOutcomeUnknown
     | _ \<Rightarrow> NativeStorage)"

text \<open>After a failed write: is the record nevertheless published?\<close>

definition reconcile ::
  "log_env \<Rightarrow> append_faults \<Rightarrow> string \<Rightarrow> wal_record \<Rightarrow> db_error \<Rightarrow> dir \<Rightarrow> (db_error, unit) result" where
  "reconcile L f database_id r write_error d =
     (let ambiguous = ambiguous_append_error (wr_kind r) in
      if af_inspect_fails f then Inl ambiguous
      else if \<not> exists_file d (record_name (wr_lsn r)) then Inl write_error
      else case record_read L d database_id (wr_lsn r) of
        Inl _ \<Rightarrow> Inl ambiguous
      | Inr persisted \<Rightarrow>
          if persisted \<noteq> r then Inl ambiguous
          else if af_sync_fails f then Inl ambiguous
          else Inr ())"

definition append_record ::
  "log_env \<Rightarrow> append_faults \<Rightarrow> string \<Rightarrow> string \<Rightarrow> record_kind \<Rightarrow> wal \<Rightarrow> wal \<times> (db_error, unit) result"
  where
  "append_record L f unique transaction_id kind w =
     (case validate_transition (w_transactions w) transaction_id kind of Inl e \<Rightarrow> (w, Inl e) | Inr _ \<Rightarrow>
      let lsn = w_next_lsn w; r = record_new (w_database_id w) lsn transaction_id kind in
      case record_write L (af_create f) unique r (w_dir w) of (d, outcome) \<Rightarrow>
      let w' = w\<lparr>w_dir := d\<rparr> in
      case (case outcome of Inr _ \<Rightarrow> Inr () | Inl e \<Rightarrow> reconcile L f (w_database_id w) r e d) of
        Inl e \<Rightarrow> (w', Inl e)
      | Inr _ \<Rightarrow>
      case apply_record (w_transactions w) r of Inl e \<Rightarrow> (w', Inl e) | Inr ts \<Rightarrow>
      case checked_add lsn 1 of
        None \<Rightarrow> (w'\<lparr>w_transactions := ts\<rparr>, Inl ResourceExhausted)
      | Some next \<Rightarrow> (w'\<lparr>w_transactions := ts, w_next_lsn := next\<rparr>, Inr ()))"

definition wal_begin ::
  "log_env \<Rightarrow> append_faults \<Rightarrow> string \<Rightarrow> string \<Rightarrow> nat \<Rightarrow> wal \<Rightarrow> wal \<times> (db_error, unit) result" where
  "wal_begin L f unique transaction_id generation w =
     (if \<not> log_uuid_ok L transaction_id then (w, Inl InvalidArgument)
      else append_record L f unique transaction_id (Begin generation ReadWrite) w)"

definition commit_catalog ::
  "log_env \<Rightarrow> append_faults \<Rightarrow> string \<Rightarrow> string \<Rightarrow> nat \<Rightarrow> nat \<Rightarrow> wal \<Rightarrow> wal \<times> (db_error, unit) result" where
  "commit_catalog L f unique transaction_id expected generation w =
     append_record L f unique transaction_id (Catalog_Commit expected generation) w"

definition wal_abort ::
  "log_env \<Rightarrow> append_faults \<Rightarrow> string \<Rightarrow> string \<Rightarrow> wal \<Rightarrow> wal \<times> (db_error, unit) result" where
  "wal_abort L f unique transaction_id w = append_record L f unique transaction_id Abort w"

definition transaction_is_active :: "wal \<Rightarrow> string \<Rightarrow> bool" where
  "transaction_is_active w transaction_id \<longleftrightarrow> map_of (w_transactions w) transaction_id = Some Active"

definition wal_stats :: "wal \<Rightarrow> nat \<times> nat \<times> nat" where
  "wal_stats w = (w_next_lsn w, length (w_transactions w),
     length (filter (\<lambda>(_, t). t = Active) (w_transactions w)))"

definition catalog_commits :: "wal \<Rightarrow> catalog_commit list" where
  "catalog_commits w = List.map_filter
     (\<lambda>(_, t). case t of CatalogCommitted c \<Rightarrow> Some c | _ \<Rightarrow> None) (w_transactions w)"

text \<open>The faults and the unique names of the aborts, one per transaction.\<close>

fun abort_all ::
  "log_env \<Rightarrow> (string \<Rightarrow> append_faults \<times> string) \<Rightarrow> string list \<Rightarrow> wal \<Rightarrow> wal \<times> (db_error, unit) result"
  where
  "abort_all L f [] w = (w, Inr ())"
| "abort_all L f (t # ts) w = (case wal_abort L (fst (f t)) (snd (f t)) t w of
       (w', Inl e) \<Rightarrow> (w', Inl e)
     | (w', Inr _) \<Rightarrow> abort_all L f ts w')"

definition abort_recovered_transactions ::
  "log_env \<Rightarrow> (string \<Rightarrow> append_faults \<times> string) \<Rightarrow> wal \<Rightarrow> wal \<times> (db_error, unit) result" where
  "abort_recovered_transactions L f w =
     abort_all L f (sort (map fst (filter (\<lambda>(_, t). t = Active) (w_transactions w)))) w"

section \<open>Checkpointing and opening\<close>

fun remove_records ::
  "(string \<Rightarrow> nat option) \<Rightarrow> nat \<Rightarrow> string list \<Rightarrow> dir \<Rightarrow> nat \<Rightarrow> dir \<times> (db_error, nat) result" where
  "remove_records fails next_lsn [] d removed = (d, Inr removed)"
| "remove_records fails next_lsn (name # names) d removed = (case lsn_from_name name of
       None \<Rightarrow> remove_records fails next_lsn names d removed
     | Some lsn \<Rightarrow>
         if lsn < next_lsn then
           (case remove_file (fails name) name d of
              (d', Inl e) \<Rightarrow> (d', Inl e)
            | (d', Inr _) \<Rightarrow> remove_records fails next_lsn names d' (saturating_add removed 1))
         else remove_records fails next_lsn names d removed)"

definition wal_checkpoint ::
  "log_env \<Rightarrow> fault \<Rightarrow> string \<Rightarrow> (string \<Rightarrow> nat option) \<Rightarrow> nat \<Rightarrow> wal \<Rightarrow> wal \<times> (db_error, nat) result" where
  "wal_checkpoint L fault unique fails catalog_generation w =
     (if \<exists>(_, t) \<in> set (w_transactions w). t = Active then (w, Inl InvalidArgument)
      else case checkpoint_write L fault unique (w_database_id w) (w_next_lsn w) catalog_generation (w_dir w) of
        (d, Inl e) \<Rightarrow> (w\<lparr>w_dir := d\<rparr>, Inl e)
      | (d, Inr _) \<Rightarrow>
      case remove_records fails (w_next_lsn w) (map fst d) d 0 of
        (d', Inl e) \<Rightarrow> (w\<lparr>w_dir := d'\<rparr>, Inl e)
      | (d', Inr removed) \<Rightarrow> (w\<lparr>w_dir := d', w_transactions := []\<rparr>, Inr removed))"

definition rsplit_once :: "char \<Rightarrow> string \<Rightarrow> (string \<times> string) option" where
  "rsplit_once c s =
     (if c \<in> set s
      then Some (rev (tl (dropWhile (\<lambda>x. x \<noteq> c) (rev s))), rev (takeWhile (\<lambda>x. x \<noteq> c) (rev s)))
      else None)"

definition is_log_temporary :: "log_env \<Rightarrow> string \<Rightarrow> bool" where
  "is_log_temporary L name =
     (case Option.bind (strip_prefix ''.'' name) (strip_suffix ''.tmp'') of
        None \<Rightarrow> False
      | Some inner \<Rightarrow> (case rsplit_once CHR ''.'' inner of
          None \<Rightarrow> False
        | Some (target, unique) \<Rightarrow>
            log_uuid_ok L unique \<and> (lsn_from_name target \<noteq> None \<or> target = CHECKPOINT_FILE)))"

fun remove_atomic_temps ::
  "log_env \<Rightarrow> (string \<Rightarrow> nat option) \<Rightarrow> string list \<Rightarrow> dir \<Rightarrow> dir \<times> (db_error, unit) result" where
  "remove_atomic_temps L fails [] d = (d, Inr ())"
| "remove_atomic_temps L fails (name # names) d =
     (if \<not> is_log_temporary L name then remove_atomic_temps L fails names d
      else case remove_file (fails name) name d of
        (d', Inl e) \<Rightarrow> (d', Inl e)
      | (d', Inr _) \<Rightarrow> remove_atomic_temps L fails names d')"

text \<open>The replay loop of \<open>Wal::open\<close> over the sorted names.\<close>

fun replay_records ::
  "log_env \<Rightarrow> (string \<Rightarrow> nat option) \<Rightarrow> string list \<Rightarrow> wal \<Rightarrow> wal \<times> (db_error, unit) result" where
  "replay_records L fails [] w = (w, Inr ())"
| "replay_records L fails (name # names) w =
     (if name = CHECKPOINT_FILE then replay_records L fails names w
      else case lsn_from_name name of None \<Rightarrow> (w, Inl NativeStorage) | Some lsn \<Rightarrow>
      if lsn < w_next_lsn w then
        (case remove_file (fails name) name (w_dir w) of
           (d, Inl e) \<Rightarrow> (w\<lparr>w_dir := d\<rparr>, Inl e)
         | (d, Inr _) \<Rightarrow> replay_records L fails names (w\<lparr>w_dir := d\<rparr>))
      else if lsn \<noteq> w_next_lsn w then (w, Inl NativeStorage)
      else case record_read L (w_dir w) (w_database_id w) lsn of Inl e \<Rightarrow> (w, Inl e) | Inr r \<Rightarrow>
      case apply_record (w_transactions w) r of Inl e \<Rightarrow> (w, Inl e) | Inr ts \<Rightarrow>
      case checked_add (w_next_lsn w) 1 of
        None \<Rightarrow> (w\<lparr>w_transactions := ts\<rparr>, Inl ResourceExhausted)
      | Some next \<Rightarrow> replay_records L fails names (w\<lparr>w_transactions := ts, w_next_lsn := next\<rparr>))"

definition wal_open ::
  "log_env \<Rightarrow> (string \<Rightarrow> nat option) \<Rightarrow> string \<Rightarrow> dir \<Rightarrow> dir \<times> (db_error, wal) result" where
  "wal_open L fails database_id d =
     (case remove_atomic_temps L fails (map fst d) d of
        (d1, Inl e) \<Rightarrow> (d1, Inl e)
      | (d1, Inr _) \<Rightarrow>
      case checkpoint_read L d1 database_id of Inl e \<Rightarrow> (d1, Inl e) | Inr (next_lsn, _) \<Rightarrow>
      case replay_records L fails (sort (map fst d1))
             \<lparr>w_dir = d1, w_database_id = database_id, w_next_lsn = next_lsn, w_transactions = []\<rparr> of
        (w, Inl e) \<Rightarrow> (w_dir w, Inl e)
      | (w, Inr _) \<Rightarrow> (w_dir w, Inr w))"

end
