(* ===== verification/Wal_Correct.thy ===== *)
theory Wal_Correct
  imports Wal_Log Numbered_File
begin

text \<open>
  Correctness of the write-ahead log: opening the log directory rebuilds the log that was in memory,
  after any sequence of appends and checkpoints, and after a crash in the middle of an append it
  rebuilds the log with or without the record, never anything else.
\<close>

section \<open>Record and checkpoint files\<close>

definition record_storable :: "log_env \<Rightarrow> string \<Rightarrow> nat \<Rightarrow> wal_record \<Rightarrow> bool" where
  "record_storable L db lsn r \<longleftrightarrow> reads_back (rec_json L) r \<and> wr_database_id r = db \<and> wr_lsn r = lsn"

interpretation record_file:
  sealed_file "record_encode L" "record_decode L db lsn" "record_storable L db lsn" MAX_RECORD_BYTES for L db lsn
proof
  fix v bytes
  assume v: "record_storable L db lsn v" and "record_encode L v = Inr bytes"
  then obtain u where c: "record_validate L v db lsn = Inr u" and s: "seal (rec_json L) MAX_RECORD_BYTES v = Inr bytes"
    by (auto simp: record_encode_def record_storable_def result_simps)
  from v have "from_slice (rec_json L) bytes = Some (v, value_digest (rec_json L) v)"
    by (simp add: seal_Inr(1) [OF s] record_storable_def reads_back_def)
  with c seal_Inr(3) [OF s] show "record_decode L db lsn bytes = Inr v"
    by (simp add: record_decode_def)
next
  fix v bytes
  assume "record_encode L v = Inr bytes"
  then obtain u where "seal (rec_json L) MAX_RECORD_BYTES v = Inr bytes"
    by (auto simp: record_encode_def result_simps)
  then show "length bytes \<le> MAX_RECORD_BYTES" by (rule seal_Inr(2))
qed

lemma record_read_file: "record_read L d db lsn = record_file.read L db lsn d (record_name lsn)"
  by (simp add: record_read_def record_file.read_def)

definition checkpoint_storable :: "log_env \<Rightarrow> checkpoint \<Rightarrow> bool" where
  "checkpoint_storable L c \<longleftrightarrow> reads_back (cp_json L) c"

interpretation checkpoint_file:
  sealed_file "checkpoint_encode L db" "checkpoint_decode L db" "checkpoint_storable L" CHECKPOINT_MAX_BYTES for L db
proof
  fix v bytes
  assume v: "checkpoint_storable L v" and "checkpoint_encode L db v = Inr bytes"
  then obtain u where c: "checkpoint_validate v db = Inr u" and s: "seal (cp_json L) CHECKPOINT_MAX_BYTES v = Inr bytes"
    by (auto simp: checkpoint_encode_def result_simps)
  from v have "from_slice (cp_json L) bytes = Some (v, value_digest (cp_json L) v)"
    by (simp add: seal_Inr(1) [OF s] checkpoint_storable_def reads_back_def)
  with c seal_Inr(3) [OF s] show "checkpoint_decode L db bytes = Inr v"
    by (simp add: checkpoint_decode_def)
next
  fix v bytes
  assume "checkpoint_encode L db v = Inr bytes"
  then obtain u where "seal (cp_json L) CHECKPOINT_MAX_BYTES v = Inr bytes"
    by (auto simp: checkpoint_encode_def result_simps)
  then show "length bytes \<le> CHECKPOINT_MAX_BYTES" by (rule seal_Inr(2))
qed

lemma checkpoint_read_file:
  "checkpoint_read L d db =
     (if lookup_file d CHECKPOINT_FILE = None then Inr (1, 0)
      else bindr (checkpoint_file.read L db d CHECKPOINT_FILE)
        (\<lambda>c. Inr (cp_next_lsn c, cp_catalog_generation c)))"
  by (cases "read_bounded (file_bytes d) CHECKPOINT_FILE CHECKPOINT_MAX_BYTES")
    (auto simp: checkpoint_read_def checkpoint_file.read_def exists_file_def)

lemma checkpoint_read_cong:
  "lookup_file d' CHECKPOINT_FILE = lookup_file d CHECKPOINT_FILE \<Longrightarrow> checkpoint_read L d' db = checkpoint_read L d db"
  unfolding checkpoint_read_file using checkpoint_file.read_cong [of d' CHECKPOINT_FILE d L db] by simp

lemma record_read_cong:
  "lookup_file d' (record_name lsn) = lookup_file d (record_name lsn) \<Longrightarrow> record_read L d' db lsn = record_read L d db lsn"
  unfolding record_read_file by (rule record_file.read_cong)

section \<open>Names in the log directory\<close>

lemma record_name_inject [simp]: "record_name m = record_name n \<longleftrightarrow> m = n"
  by (simp add: record_name_def pad_dec_inject)

lemma record_name_not_temporary [simp]:
  "record_name n \<noteq> temporary_name name unique" "temporary_name name unique \<noteq> record_name n"
  using numbered_not_temporary [of n "''.wal''"] by (simp_all add: record_name_def) metis

lemma record_name_not_checkpoint [simp]: "record_name n \<noteq> CHECKPOINT_FILE" "CHECKPOINT_FILE \<noteq> record_name n"
proof -
  have "record_name n \<noteq> CHECKPOINT_FILE"
    using numbered_first [of n "''.wal''"] by (auto simp: record_name_def CHECKPOINT_FILE_def is_ascii_digit_def)
  then show "record_name n \<noteq> CHECKPOINT_FILE" "CHECKPOINT_FILE \<noteq> record_name n" by auto
qed

lemma checkpoint_not_temporary [simp]:
  "CHECKPOINT_FILE \<noteq> temporary_name name unique" "temporary_name name unique \<noteq> CHECKPOINT_FILE"
  by (simp_all add: CHECKPOINT_FILE_def temporary_name_def)

lemma lsn_from_record_name: "n < u64_limit \<Longrightarrow> lsn_from_name (record_name n) = Some n"
  using digits_of_number [of n] by (simp add: lsn_from_name_def record_name_def)

lemma lsn_from_name_Some: "lsn_from_name name = Some n \<Longrightarrow> name = record_name n \<and> n < u64_limit"
  using number_of_digits
  by (auto simp: lsn_from_name_def record_name_def strip_suffix_Some split: option.splits if_splits)

lemma lsn_from_checkpoint [simp]: "lsn_from_name CHECKPOINT_FILE = None"
proof (cases "lsn_from_name CHECKPOINT_FILE")
  case (Some n)
  then show ?thesis using lsn_from_name_Some [OF Some] by simp
qed

lemma record_name_less:
  "m < u64_limit \<Longrightarrow> n < u64_limit \<Longrightarrow> record_name m < record_name n \<longleftrightarrow> m < n"
  unfolding record_name_def by (rule numbered_less)

lemma record_name_before_checkpoint: "record_name n < CHECKPOINT_FILE"
proof -
  obtain c s where n: "record_name n = c # s" by (cases "record_name n") (auto simp: record_name_def)
  then have "is_ascii_digit c" using numbered_first [of n "''.wal''"] by (simp add: record_name_def)
  then have "c < CHR ''C''" by (simp add: is_ascii_digit_def less_char_def)
  then show ?thesis by (simp add: n CHECKPOINT_FILE_def)
qed

text \<open>The unique part of a temporary name is a UUID, which has no dot.\<close>

definition unique_ok :: "log_env \<Rightarrow> string \<Rightarrow> bool" where
  "unique_ok L unique \<longleftrightarrow> log_uuid_ok L unique \<and> CHR ''.'' \<notin> set unique"

lemma while_not_in:
  "c \<notin> set xs \<Longrightarrow> takeWhile (\<lambda>x. x \<noteq> c) (xs @ c # ys) = xs"
  "c \<notin> set xs \<Longrightarrow> dropWhile (\<lambda>x. x \<noteq> c) (xs @ c # ys) = c # ys"
  by (induction xs) auto

lemma rsplit_once_last: "c \<notin> set u \<Longrightarrow> rsplit_once c (t @ c # u) = Some (t, u)"
  using while_not_in [of c "rev u" "rev t"] by (simp add: rsplit_once_def)

lemma temporary_is_log_temporary:
  assumes "unique_ok L unique" and "lsn_from_name target \<noteq> None \<or> target = CHECKPOINT_FILE"
  shows "is_log_temporary L (temporary_name target unique)"
proof -
  have "temporary_name target unique = ''.'' @ ((target @ CHR ''.'' # unique) @ ''.tmp'')"
    by (simp add: temporary_name_def)
  then have "Option.bind (strip_prefix ''.'' (temporary_name target unique)) (strip_suffix ''.tmp'')
      = Some (target @ CHR ''.'' # unique)"
    by (simp only: strip_prefix_append bind.bind_lunit strip_suffix_append)
  with assms show ?thesis by (auto simp: is_log_temporary_def unique_ok_def rsplit_once_last)
qed

lemma log_names_not_temporary [simp]: "\<not> is_log_temporary L (record_name n)" "\<not> is_log_temporary L CHECKPOINT_FILE"
proof -
  have "hd (record_name n) \<noteq> CHR ''.''"
    using numbered_first [of n "''.wal''"] by (auto simp: record_name_def is_ascii_digit_def)
  moreover have "record_name n \<noteq> []" by (simp add: record_name_def)
  ultimately have "strip_prefix ''.'' (record_name n) = None"
    by (cases "record_name n") (auto simp: strip_prefix_def)
  then show "\<not> is_log_temporary L (record_name n)" by (simp add: is_log_temporary_def)
  show "\<not> is_log_temporary L CHECKPOINT_FILE"
    by (simp add: is_log_temporary_def CHECKPOINT_FILE_def strip_prefix_def)
qed

section \<open>What a log directory represents\<close>

text \<open>The directory of a log that starts at \<open>start\<close> and has the records \<open>recs\<close>: besides them only
  temporary files, the checkpoint, and records the checkpoint has superseded.\<close>

definition log_repr :: "log_env \<Rightarrow> string \<Rightarrow> dir \<Rightarrow> nat \<Rightarrow> wal_record list \<Rightarrow> bool" where
  "log_repr L db d start recs \<longleftrightarrow>
     dir_ok d \<and> 1 \<le> start \<and> start + length recs < u64_limit
     \<and> (\<exists>generation. checkpoint_read L d db = Inr (start, generation))
     \<and> (\<forall>name \<in> fst ` set d. is_log_temporary L name \<or> name = CHECKPOINT_FILE
          \<or> (\<exists>lsn < start + length recs. name = record_name lsn))
     \<and> (\<forall>i < length recs. record_read L d db (start + i) = Inr (recs ! i))"

lemma remove_entry_filter: "remove_entry name d = filter (\<lambda>(n, _). n \<noteq> name) d"
  by (induction d) (auto simp: remove_entry_def)

lemma remove_file_ok: "remove_file None name d = (remove_entry name d, Inr ())"
proof (cases "exists_file d name")
  case False
  then have "name \<notin> fst ` set d" by (simp add: exists_file_def lookup_None_iff)
  then have "remove_entry name d = d"
    by (auto simp: remove_entry_filter rev_image_eqI intro!: filter_True)
  then show ?thesis using False by (simp add: remove_file_def)
qed (simp add: remove_file_def)

lemma remove_atomic_temps_ok:
  "remove_atomic_temps L (\<lambda>_. None) names d =
     (filter (\<lambda>(n, _). \<not> (n \<in> set names \<and> is_log_temporary L n)) d, Inr ())"
proof (induction names arbitrary: d)
  case (Cons name names)
  then show ?case
    by (auto simp: remove_file_ok remove_entry_filter intro!: filter_cong)
qed simp

lemma lookup_filter:
  assumes "P name"
  shows "lookup_file (filter (\<lambda>(n, _). P n) d) name = lookup_file d name"
  using assms by (induction d) (auto simp: lookup_file_def)

text \<open>Removing files that are not part of the log does not change what it represents.\<close>

lemma log_repr_filter:
  assumes "log_repr L db d start recs" and "P CHECKPOINT_FILE"
    and "\<And>i. i < length recs \<Longrightarrow> P (record_name (start + i))"
  shows "log_repr L db (filter (\<lambda>(n, _). P n) d) start recs"
proof -
  let ?d = "filter (\<lambda>(n, _). P n) d"
  have "dir_ok ?d"
    using assms(1) by (auto simp: log_repr_def dir_ok_def distinct_map inj_on_def)
  moreover have "checkpoint_read L ?d db = checkpoint_read L d db"
    by (rule checkpoint_read_cong) (simp add: lookup_filter [of P] assms(2))
  moreover have "record_read L ?d db (start + i) = record_read L d db (start + i)" if "i < length recs" for i
    by (rule record_read_cong) (simp add: lookup_filter [of P] assms(3) that)
  ultimately show ?thesis using assms(1) by (auto simp: log_repr_def)
qed

section \<open>Replaying\<close>

lemma replay_append:
  "replay_records L fails (xs @ ys) w = (case replay_records L fails xs w of
       (w', Inl e) \<Rightarrow> (w', Inl e) | (w', Inr _) \<Rightarrow> replay_records L fails ys w')"
  by (induction L fails xs w rule: replay_records.induct)
    (auto split: option.splits prod.splits sum.splits)

lemma replay_old:
  assumes "\<forall>lsn \<in> set olds. lsn < w_next_lsn w \<and> lsn < u64_limit"
  shows "replay_records L (\<lambda>_. None) (map record_name olds) w =
    (w\<lparr>w_dir := filter (\<lambda>(n, _). n \<notin> record_name ` set olds) (w_dir w)\<rparr>, Inr ())"
  using assms
proof (induction olds arbitrary: w)
  case (Cons lsn olds)
  let ?w = "w\<lparr>w_dir := remove_entry (record_name lsn) (w_dir w)\<rparr>"
  have "replay_records L (\<lambda>_. None) (map record_name olds) ?w =
    (?w\<lparr>w_dir := filter (\<lambda>(n, _). n \<notin> record_name ` set olds) (w_dir ?w)\<rparr>, Inr ())"
    by (rule Cons.IH) (use Cons.prems in auto)
  then show ?case
    using Cons.prems
    by (simp add: lsn_from_record_name remove_file_ok remove_entry_filter)
      (auto intro!: filter_cong arg_cong [where f = "\<lambda>d. w\<lparr>w_dir := d\<rparr>"])
qed simp

lemma replay_new:
  assumes "\<And>i. i < length recs \<Longrightarrow> record_read L (w_dir w) (w_database_id w) (w_next_lsn w + i) = Inr (recs ! i)"
    and "try_fold apply_record (w_transactions w) recs = Inr ts"
    and "w_next_lsn w + length recs < u64_limit"
  shows "replay_records L fails (map record_name [w_next_lsn w..<w_next_lsn w + length recs]) w =
    (w\<lparr>w_transactions := ts, w_next_lsn := w_next_lsn w + length recs\<rparr>, Inr ())"
  using assms
proof (induction recs arbitrary: w)
  case (Cons r recs)
  from Cons.prems(2) obtain ts' where ts': "apply_record (w_transactions w) r = Inr ts'"
    and rest: "try_fold apply_record ts' recs = Inr ts" by (auto simp: result_simps)
  let ?w = "w\<lparr>w_transactions := ts', w_next_lsn := w_next_lsn w + 1\<rparr>"
  have names: "[w_next_lsn w..<w_next_lsn w + length (r # recs)]
      = w_next_lsn w # [w_next_lsn ?w..<w_next_lsn ?w + length recs]"
    using upt_conv_Cons [of "w_next_lsn w" "w_next_lsn w + length (r # recs)"] by simp
  have "replay_records L fails (map record_name [w_next_lsn ?w..<w_next_lsn ?w + length recs]) ?w =
    (?w\<lparr>w_transactions := ts, w_next_lsn := w_next_lsn ?w + length recs\<rparr>, Inr ())"
  proof (rule Cons.IH)
    show "record_read L (w_dir ?w) (w_database_id ?w) (w_next_lsn ?w + i) = Inr (recs ! i)" if "i < length recs" for i
      using Cons.prems(1) [of "Suc i"] that by simp
  qed (use rest Cons.prems(3) in simp_all)
  moreover have "record_read L (w_dir w) (w_database_id w) (w_next_lsn w) = Inr r"
    using Cons.prems(1) [of 0] by simp
  ultimately show ?case
    using Cons.prems(3) ts' unfolding names
    by (simp add: lsn_from_record_name checked_add_def)
qed simp

text \<open>The sorted names of a directory without temporary files: superseded records, the records of
  the log in order, the checkpoint.\<close>

lemma sorted_record_names:
  assumes "\<forall>lsn \<in> set lsns. lsn < u64_limit" and "sorted_wrt (<) lsns"
  shows "sorted_wrt (<) (map record_name lsns)"
  using assms by (induction lsns) (auto simp: record_name_less)

lemma sorted_log_names:
  assumes "log_repr L db d start recs" and "\<forall>name \<in> fst ` set d. \<not> is_log_temporary L name"
  obtains olds cps where "sort (map fst d) = map record_name (olds @ [start..<start + length recs]) @ cps"
    and "\<forall>lsn \<in> set olds. lsn < start" and "cps = [] \<or> cps = [CHECKPOINT_FILE]"
proof -
  define A where "A = {lsn. lsn < start \<and> record_name lsn \<in> fst ` set d}"
  define cps where "cps = (if CHECKPOINT_FILE \<in> fst ` set d then [CHECKPOINT_FILE] else [])"
  let ?olds = "sorted_list_of_set A"
  let ?lsns = "?olds @ [start..<start + length recs]"
  have finA: "finite A" by (simp add: A_def)
  have bound: "\<forall>lsn \<in> set ?lsns. lsn < u64_limit"
    using assms(1) finA by (auto simp: log_repr_def A_def)
  have present: "record_name lsn \<in> fst ` set d" if "start \<le> lsn" "lsn < start + length recs" for lsn
  proof -
    have "record_read L d db (start + (lsn - start)) = Inr (recs ! (lsn - start))"
      using assms(1) that unfolding log_repr_def by (metis add_diff_inverse_nat add_less_cancel_left not_le)
    then have "lookup_file d (record_name lsn) \<noteq> None"
      using that record_file.read_missing [of d "record_name lsn" L db lsn]
      by (cases "lookup_file d (record_name lsn)") (auto simp: record_read_file)
    then show ?thesis by (simp add: lookup_None_iff)
  qed
  have "sorted_wrt (<) ?lsns" using finA by (auto simp: sorted_wrt_append A_def)
  then have "sorted_wrt (<) (map record_name ?lsns @ cps)"
    using sorted_record_names [OF bound] record_name_before_checkpoint
    by (auto simp: sorted_wrt_append cps_def)
  then have sd: "sorted (map record_name ?lsns @ cps)" "distinct (map record_name ?lsns @ cps)"
    by (simp_all only: strict_sorted_iff)
  have names: "name = CHECKPOINT_FILE \<or> name \<in> record_name ` A \<or> name \<in> record_name ` {start..<start + length recs}"
    if name: "name \<in> fst ` set d" for name
  proof (cases "name = CHECKPOINT_FILE")
    case False
    then obtain lsn where "lsn < start + length recs" "name = record_name lsn"
      using assms name unfolding log_repr_def by blast
    with name show ?thesis by (cases "lsn < start") (auto simp: A_def)
  qed simp
  have "set (map record_name ?lsns @ cps) = fst ` set d"
  proof
    show "set (map record_name ?lsns @ cps) \<subseteq> fst ` set d"
      using present finA by (auto simp: cps_def A_def split: if_splits)
    show "fst ` set d \<subseteq> set (map record_name ?lsns @ cps)"
    proof
      fix name
      assume "name \<in> fst ` set d"
      with names [OF this] finA show "name \<in> set (map record_name ?lsns @ cps)"
        by (auto simp: cps_def intro: rev_image_eqI)
    qed
  qed
  moreover have "distinct (map fst d)" using assms(1) by (simp add: log_repr_def dir_ok_def)
  ultimately have sorted_names: "sort (map fst d) = map record_name ?lsns @ cps"
    using sd sorted_list_of_set_sort_remdups [of "map fst d"] distinct_remdups_id
    by (metis set_map sorted_list_of_set.idem_if_sorted_distinct)
  have olds: "\<forall>lsn \<in> set ?olds. lsn < start" using finA by (simp add: A_def)
  have "cps = [] \<or> cps = [CHECKPOINT_FILE]" by (simp add: cps_def)
  with sorted_names olds show ?thesis by (rule that)
qed

lemma wal_open_repr:
  assumes "log_repr L db d start recs" and "try_fold apply_record [] recs = Inr ts"
  obtains d' where "wal_open L (\<lambda>_. None) db d =
      (d', Inr \<lparr>w_dir = d', w_database_id = db, w_next_lsn = start + length recs, w_transactions = ts\<rparr>)"
    and "log_repr L db d' start recs"
proof -
  let ?keep = "\<lambda>n. \<not> (n \<in> set (map fst d) \<and> is_log_temporary L n)"
  define d1 where "d1 = filter (\<lambda>(n, _). ?keep n) d"
  have r1: "log_repr L db d1 start recs"
    unfolding d1_def by (rule log_repr_filter [OF assms(1)]) simp_all
  have "\<forall>name \<in> fst ` set d1. \<not> is_log_temporary L name" by (auto simp: d1_def image_iff) 
  then obtain olds cps where names: "sort (map fst d1) = map record_name (olds @ [start..<start + length recs]) @ cps"
    and olds: "\<forall>lsn \<in> set olds. lsn < start" and cps: "cps = [] \<or> cps = [CHECKPOINT_FILE]"
    by (rule sorted_log_names [OF r1])
  define d' where "d' = filter (\<lambda>(n, _). n \<notin> record_name ` set olds) d1"
  have r': "log_repr L db d' start recs"
    unfolding d'_def by (rule log_repr_filter [OF r1]) (use olds in auto)
  let ?w0 = "\<lparr>w_dir = d1, w_database_id = db, w_next_lsn = start, w_transactions = []\<rparr>"
  let ?w1 = "?w0\<lparr>w_dir := d'\<rparr>"
  let ?w2 = "?w1\<lparr>w_transactions := ts, w_next_lsn := start + length recs\<rparr>"
  have old: "replay_records L (\<lambda>_. None) (map record_name olds) ?w0 = (?w1, Inr ())"
    using replay_old [of olds ?w0 L] olds r1 by (force simp: d'_def log_repr_def)
  have new: "replay_records L (\<lambda>_. None) (map record_name [start..<start + length recs]) ?w1 = (?w2, Inr ())"
    using replay_new [of recs L ?w1 ts] r' assms(2) by (simp add: log_repr_def)
  have skip: "replay_records L (\<lambda>_. None) cps ?w2 = (?w2, Inr ())" using cps by auto
  have "replay_records L (\<lambda>_. None) (sort (map fst d1)) ?w0 = (?w2, Inr ())"
    by (simp only: names map_append replay_append old new skip prod.case sum.case)
  moreover have "remove_atomic_temps L (\<lambda>_. None) (map fst d) d = (d1, Inr ())"
    unfolding d1_def by (rule remove_atomic_temps_ok)
  moreover obtain generation where "checkpoint_read L d1 db = Inr (start, generation)"
    using r1 by (auto simp: log_repr_def)
  ultimately have "wal_open L (\<lambda>_. None) db d = (d', Inr ?w2)"
    by (simp add: wal_open_def)
  with r' that show ?thesis by simp
qed

section \<open>Appending\<close>

text \<open>A log in memory agrees with its directory.\<close>

definition wal_ok :: "log_env \<Rightarrow> wal \<Rightarrow> bool" where
  "wal_ok L w \<longleftrightarrow> (\<exists>start recs. log_repr L (w_database_id w) (w_dir w) start recs
     \<and> w_next_lsn w = start + length recs \<and> try_fold apply_record [] recs = Inr (w_transactions w))"

text \<open>Temporary files do not matter.\<close>

lemma log_repr_same:
  assumes "log_repr L db d start recs" and "dir_ok d'"
    and "\<And>n. \<not> is_log_temporary L n \<Longrightarrow> lookup_file d' n = lookup_file d n"
  shows "log_repr L db d' start recs"
proof -
  have "checkpoint_read L d' db = checkpoint_read L d db"
    by (rule checkpoint_read_cong) (simp add: assms(3))
  moreover have "record_read L d' db lsn = record_read L d db lsn" for lsn
    by (rule record_read_cong) (simp add: assms(3))
  moreover have "name \<in> fst ` set d" if "name \<in> fst ` set d'" "\<not> is_log_temporary L name" for name
    using assms(3) [OF that(2)] that(1) lookup_None_iff by metis
  ultimately show ?thesis using assms(1,2) unfolding log_repr_def by metis
qed

lemma log_repr_snoc:
  assumes "log_repr L db d start recs" and "dir_ok d'" and "start + length recs + 1 < u64_limit"
    and "\<And>n. \<not> is_log_temporary L n \<Longrightarrow> n \<noteq> record_name (start + length recs) \<Longrightarrow> lookup_file d' n = lookup_file d n"
    and "record_read L d' db (start + length recs) = Inr r"
  shows "log_repr L db d' start (recs @ [r])"
proof -
  have "checkpoint_read L d' db = checkpoint_read L d db"
    by (rule checkpoint_read_cong) (simp add: assms(4))
  moreover have "record_read L d' db (start + i) = Inr ((recs @ [r]) ! i)" if "i < Suc (length recs)" for i
  proof (cases "i = length recs")
    case False
    then have "record_read L d' db (start + i) = record_read L d db (start + i)"
      by (intro record_read_cong) (simp add: assms(4))
    with assms(1) that False show ?thesis by (simp add: log_repr_def nth_append)
  qed (use assms(5) in simp)
  moreover have "is_log_temporary L name \<or> name = CHECKPOINT_FILE
      \<or> (\<exists>lsn < start + length (recs @ [r]). name = record_name lsn)" if name: "name \<in> fst ` set d'" for name
  proof (cases "is_log_temporary L name \<or> name = record_name (start + length recs)")
    case False
    then have "name \<in> fst ` set d" using assms(4) [of name] name lookup_None_iff by metis
    then show ?thesis using assms(1) unfolding log_repr_def by force
  qed auto
  ultimately show ?thesis using assms(1-3) by (simp add: log_repr_def)
qed

text \<open>After a record has been written, or the write has failed, the directory represents the log
  with or without it; with it exactly when the record file exists.\<close>

definition written_or_not :: "log_env \<Rightarrow> string \<Rightarrow> dir \<Rightarrow> nat \<Rightarrow> wal_record list \<Rightarrow> wal_record \<Rightarrow> bool" where
  "written_or_not L db d start recs r \<longleftrightarrow>
     (if exists_file d (record_name (start + length recs))
      then log_repr L db d start (recs @ [r]) else log_repr L db d start recs)"

lemma log_repr_next_free:
  "log_repr L db d start recs \<Longrightarrow> lookup_file d (record_name (start + length recs)) = None"
  unfolding log_repr_def lookup_None_iff by fastforce

lemma written_or_not_I:
  assumes "log_repr L db d start recs" and "dir_ok d'" and "start + length recs + 1 < u64_limit"
    and "unique_ok L unique" and "record_storable L db (start + length recs) r" and "record_encode L r = Inr bytes"
    and "\<And>n. n \<noteq> temporary_name (record_name (start + length recs)) unique \<Longrightarrow>
      lookup_file d' n = lookup_file d n
      \<or> n = record_name (start + length recs) \<and> lookup_file d' n = Some (bytes, True)"
  shows "written_or_not L db d' start recs r"
proof -
  let ?n = "record_name (start + length recs)"
  have tmp: "is_log_temporary L (temporary_name ?n unique)"
    using assms(3,4) by (intro temporary_is_log_temporary) (simp_all add: lsn_from_record_name)
  then have other: "lookup_file d' n = lookup_file d n \<or> n = ?n \<and> lookup_file d' n = Some (bytes, True)"
    if "\<not> is_log_temporary L n" for n
    using assms(7) [of n] that by blast
  have new: "lookup_file d ?n = None" by (rule log_repr_next_free [OF assms(1)])
  show ?thesis
  proof (cases "lookup_file d' ?n")
    case None
    have "log_repr L db d' start recs"
      by (rule log_repr_same [OF assms(1,2)]) (use other None new in fastforce)
    then show ?thesis using None by (simp add: written_or_not_def exists_file_def)
  next
    case (Some v)
    then have "lookup_file d' ?n = Some (bytes, True)" using other [of ?n] new by simp
    then have "record_read L d' db (start + length recs) = Inr r"
      unfolding record_read_file by (rule record_file.read_lookup [OF assms(5,6)])
    then have "log_repr L db d' start (recs @ [r])"
      by (intro log_repr_snoc [OF assms(1-3)]) (use other in auto)
    then show ?thesis using Some by (simp add: written_or_not_def exists_file_def)
  qed
qed

lemma record_write_outcome:
  assumes "log_repr L db d start recs" and "start + length recs + 1 < u64_limit" and "unique_ok L unique"
    and "record_storable L db (start + length recs) r" and "record_write L fault unique r d = (d', q)"
  shows "written_or_not L db d' start recs r"
    and "q = Inr u \<Longrightarrow> exists_file d' (record_name (start + length recs))"
proof -
  let ?n = "record_name (start + length recs)"
  have lsn: "wr_lsn r = start + length recs" using assms(4) by (simp add: record_storable_def)
  have free: "lookup_file d ?n = None" by (rule log_repr_next_free [OF assms(1)])
  have d: "dir_ok d" using assms(1) by (simp add: log_repr_def)
  have "written_or_not L db d' start recs r \<and> (q = Inr u \<longrightarrow> exists_file d' ?n)"
  proof (cases "record_encode L r")
    case (Inl e)
    then show ?thesis using assms(1,5) free by (auto simp: record_write_def written_or_not_def exists_file_def)
  next
    case (Inr bytes)
    have c: "atomic_create fault (temporary_name ?n unique) ?n bytes d = (d', q)"
      using assms(5) Inr lsn by (simp add: record_write_def)
    note I = written_or_not_I [OF assms(1) dir_ok_create [OF c d] assms(2-4) Inr]
    show ?thesis
    proof (cases q)
      case (Inl e)
      have "written_or_not L db d' start recs r"
        by (rule I) (use atomic_create_Inl [OF c [unfolded Inl]] in blast)
      then show ?thesis using Inl by simp
    next
      case (Inr v)
      have created: "lookup_file d' = (lookup_file d)(?n \<mapsto> (bytes, True))"
        by (rule atomic_create_Inr(2) [OF _ c [unfolded Inr]]) simp
      then have "written_or_not L db d' start recs r" by (intro I) auto
      then show ?thesis using created by (simp add: exists_file_def)
    qed
  qed
  then show "written_or_not L db d' start recs r" "q = Inr u \<Longrightarrow> exists_file d' ?n" by blast+
qed

text \<open>Appending, on every path.  A success adds the record to the directory and to the memory; an
  error leaves the memory alone, and the directory has the record only when the error says so.\<close>

lemma reconcile_exists: "reconcile L f db r we d = Inr u \<Longrightarrow> exists_file d (record_name (wr_lsn r))"
  by (auto simp: reconcile_def Let_def split: if_splits)

lemma reconcile_definite:
  "reconcile L f db r we d = Inl e \<Longrightarrow> exists_file d (record_name (wr_lsn r)) \<Longrightarrow> e = ambiguous_append_error (wr_kind r)"
  by (auto simp: reconcile_def Let_def split: if_splits sum.splits)

lemma append_record_outcome:
  assumes repr: "log_repr L (w_database_id w) (w_dir w) start recs" and lsn: "w_next_lsn w = start + length recs"
    and bound: "w_next_lsn w + 1 < u64_limit" and "unique_ok L unique"
    and r: "r = record_new (w_database_id w) (w_next_lsn w) txn kind" and "reads_back (rec_json L) r"
    and run: "append_record L f unique txn kind w = (w', q)"
  shows "w_database_id w' = w_database_id w"
    and "q = Inr u \<Longrightarrow> log_repr L (w_database_id w) (w_dir w') start (recs @ [r])
      \<and> w_next_lsn w' = w_next_lsn w + 1 \<and> apply_record (w_transactions w) r = Inr (w_transactions w')"
    and "q = Inl e \<Longrightarrow> w_next_lsn w' = w_next_lsn w \<and> w_transactions w' = w_transactions w
      \<and> (log_repr L (w_database_id w) (w_dir w') start recs
         \<or> log_repr L (w_database_id w) (w_dir w') start (recs @ [r]) \<and> e = ambiguous_append_error kind
           \<and> is_ok (apply_record (w_transactions w) r))"
proof -
  have fields: "wr_lsn r = start + length recs" "wr_transaction_id r = txn" "wr_kind r = kind"
    by (simp_all add: r record_new_def lsn)
  have storable: "record_storable L (w_database_id w) (start + length recs) r"
    using assms(6) by (simp add: record_storable_def r record_new_def lsn)
  obtain d outcome where wr: "record_write L (af_create f) unique r (w_dir w) = (d, outcome)"
    by (cases "record_write L (af_create f) unique r (w_dir w)")
  note out = record_write_outcome [OF repr _ assms(4) storable wr]
  let ?mid = "case outcome of Inr _ \<Rightarrow> Inr () | Inl e \<Rightarrow> reconcile L f (w_database_id w) r e d"
  have "w_database_id w' = w_database_id w
    \<and> (q = Inr u \<longrightarrow> log_repr L (w_database_id w) (w_dir w') start (recs @ [r])
      \<and> w_next_lsn w' = w_next_lsn w + 1 \<and> apply_record (w_transactions w) r = Inr (w_transactions w'))
    \<and> (q = Inl e \<longrightarrow> w_next_lsn w' = w_next_lsn w \<and> w_transactions w' = w_transactions w
      \<and> (log_repr L (w_database_id w) (w_dir w') start recs
         \<or> log_repr L (w_database_id w) (w_dir w') start (recs @ [r]) \<and> e = ambiguous_append_error kind
           \<and> is_ok (apply_record (w_transactions w) r)))"
  proof (cases "validate_transition (w_transactions w) txn kind")
    case (Inl e')
    then show ?thesis using run repr by (auto simp: append_record_def)
  next
    case valid: (Inr v)
    let ?ts = "AList.update txn (next_transaction_state r) (w_transactions w)"
    have ts: "apply_record (w_transactions w) r = Inr ?ts" using valid by (simp add: apply_record_def fields)
    have result: "(w', q) = (case ?mid of
         Inl e \<Rightarrow> (w\<lparr>w_dir := d\<rparr>, Inl e)
       | Inr _ \<Rightarrow> (w\<lparr>w_dir := d, w_transactions := ?ts, w_next_lsn := w_next_lsn w + 1\<rparr>, Inr ()))"
      unfolding run [symmetric] append_record_def Let_def r [symmetric]
      using valid wr ts bound by (simp add: checked_add_def split: sum.split)
    have wn: "written_or_not L (w_database_id w) d start recs r" using out(1) bound lsn by simp
    show ?thesis
    proof (cases ?mid)
      case mid: (Inl e')
      then obtain we where "outcome = Inl we" "reconcile L f (w_database_id w) r we d = Inl e'"
        by (cases outcome) auto
      then have "exists_file d (record_name (start + length recs)) \<Longrightarrow> e' = ambiguous_append_error kind"
        using reconcile_definite fields by metis
      then show ?thesis using result mid wn ts by (auto simp: written_or_not_def split: if_splits)
    next
      case mid: (Inr x)
      have "exists_file d (record_name (start + length recs))"
      proof (cases outcome)
        case (Inl we)
        then show ?thesis using mid reconcile_exists [of L f _ r we d] fields by auto
      next
        case (Inr y)
        then show ?thesis using out(2) bound lsn by auto
      qed
      then show ?thesis using result mid wn ts by (simp add: written_or_not_def)
    qed
  qed
  then show "w_database_id w' = w_database_id w"
    and "q = Inr u \<Longrightarrow> log_repr L (w_database_id w) (w_dir w') start (recs @ [r])
      \<and> w_next_lsn w' = w_next_lsn w + 1 \<and> apply_record (w_transactions w) r = Inr (w_transactions w')"
    and "q = Inl e \<Longrightarrow> w_next_lsn w' = w_next_lsn w \<and> w_transactions w' = w_transactions w
      \<and> (log_repr L (w_database_id w) (w_dir w') start recs
         \<or> log_repr L (w_database_id w) (w_dir w') start (recs @ [r]) \<and> e = ambiguous_append_error kind
           \<and> is_ok (apply_record (w_transactions w) r))"
    by blast+
qed

section \<open>Checkpoints\<close>

text \<open>A checkpoint that succeeds leaves a directory that starts at the next sequence number with no
  records.\<close>

lemma remove_records_lookup:
  assumes "remove_records fails next_lsn names d removed = (d', q)" and "dir_ok d"
  shows "dir_ok d'"
    and "lookup_file d' n = lookup_file d n \<or> (\<exists>lsn < next_lsn. n = record_name lsn) \<and> lookup_file d' n = None"
proof -
  have "dir_ok d' \<and> (lookup_file d' n = lookup_file d n
      \<or> (\<exists>lsn < next_lsn. n = record_name lsn) \<and> lookup_file d' n = None)"
    using assms
  proof (induction names arbitrary: d removed)
    case (Cons name names)
    show ?case
    proof (cases "\<exists>lsn. lsn_from_name name = Some lsn \<and> lsn < next_lsn")
      case False
      then show ?thesis using Cons.IH [of d removed] Cons.prems by (auto split: option.splits)
    next
      case True
      then obtain lsn where lsn: "lsn_from_name name = Some lsn" "lsn < next_lsn" by blast
      obtain d1 q1 where rm: "remove_file (fails name) name d = (d1, q1)"
        by (cases "remove_file (fails name) name d")
      have d1: "lookup_file d1 n = lookup_file d n \<or> n = record_name lsn \<and> lookup_file d1 n = None"
        using remove_file_lookup [OF rm] lsn_from_name_Some [OF lsn(1)] by (cases "n = record_name lsn") auto
      have ok: "dir_ok d1" using dir_ok_remove_file [OF rm Cons.prems(2)] .
      show ?thesis
      proof (cases q1)
        case (Inl e)
        then show ?thesis using Cons.prems lsn rm d1 ok by auto
      next
        case (Inr v)
        then have "remove_records fails next_lsn names d1 (saturating_add removed 1) = (d', q)"
          using Cons.prems(1) lsn rm by simp
        from Cons.IH [OF this ok] d1 lsn(2) show ?thesis by metis
      qed
    qed
  qed simp
  then show "dir_ok d'"
    and "lookup_file d' n = lookup_file d n \<or> (\<exists>lsn < next_lsn. n = record_name lsn) \<and> lookup_file d' n = None"
    by blast+
qed

lemma checkpoint_write_lookup:
  assumes "checkpoint_write L fault unique db next generation d = (d', Inr u)" and "dir_ok d"
    and "reads_back (cp_json L) \<lparr>cp_format_version = CHECKPOINT_FORMAT_VERSION, cp_database_id = db,
        cp_next_lsn = next, cp_catalog_generation = generation\<rparr>"
  shows "dir_ok d'" and "checkpoint_read L d' db = Inr (next, generation)"
    and "n \<noteq> CHECKPOINT_FILE \<Longrightarrow> n \<noteq> temporary_name CHECKPOINT_FILE unique \<Longrightarrow> lookup_file d' n = lookup_file d n"
proof -
  let ?c = "\<lparr>cp_format_version = CHECKPOINT_FORMAT_VERSION, cp_database_id = db,
        cp_next_lsn = next, cp_catalog_generation = generation\<rparr>"
  let ?tmp = "temporary_name CHECKPOINT_FILE unique"
  obtain bytes where e: "checkpoint_encode L db ?c = Inr bytes"
    using assms(1) by (cases "checkpoint_encode L db ?c") (auto simp: checkpoint_write_def Let_def)
  have "dir_ok d' \<and> lookup_file d' CHECKPOINT_FILE = Some (bytes, True)
    \<and> (n \<noteq> CHECKPOINT_FILE \<longrightarrow> n \<noteq> ?tmp \<longrightarrow> lookup_file d' n = lookup_file d n)"
  proof (cases "exists_file d CHECKPOINT_FILE")
    case True
    then have c: "atomic_replace fault ?tmp CHECKPOINT_FILE bytes d = (d', Inr u)"
      using assms(1) e by (simp add: checkpoint_write_def Let_def)
    show ?thesis
      using dir_ok_replace [OF c assms(2)] atomic_replace_cases(1) [OF _ c, of CHECKPOINT_FILE]
        atomic_replace_cases(1) [OF _ c, of n] by auto
  next
    case False
    then have c: "atomic_create fault ?tmp CHECKPOINT_FILE bytes d = (d', Inr u)"
      using assms(1) e by (simp add: checkpoint_write_def Let_def)
    show ?thesis
      using dir_ok_create [OF c assms(2)] atomic_create_Inr(2) [OF _ c] by auto
  qed
  moreover have "checkpoint_storable L ?c" using assms(3) by (simp add: checkpoint_storable_def)
  ultimately show "dir_ok d'" "checkpoint_read L d' db = Inr (next, generation)"
    "n \<noteq> CHECKPOINT_FILE \<Longrightarrow> n \<noteq> ?tmp \<Longrightarrow> lookup_file d' n = lookup_file d n"
    using checkpoint_file.read_lookup [OF _ e, of d' CHECKPOINT_FILE True]
    by (simp_all add: checkpoint_read_file)
qed

lemma wal_checkpoint_ok:
  assumes "wal_ok L w" and "wal_checkpoint L fault unique fails generation w = (w', Inr removed)"
    and "unique_ok L unique"
    and "reads_back (cp_json L) \<lparr>cp_format_version = CHECKPOINT_FORMAT_VERSION,
        cp_database_id = w_database_id w, cp_next_lsn = w_next_lsn w, cp_catalog_generation = generation\<rparr>"
  shows "wal_ok L w'" and "w_next_lsn w' = w_next_lsn w" and "w_transactions w' = []"
proof -
  obtain start recs where repr: "log_repr L (w_database_id w) (w_dir w) start recs"
    and lsn: "w_next_lsn w = start + length recs" using assms(1) by (auto simp: wal_ok_def)
  obtain d where cw: "checkpoint_write L fault unique (w_database_id w) (w_next_lsn w) generation (w_dir w) = (d, Inr ())"
    and rm: "remove_records fails (w_next_lsn w) (map fst d) d 0 = (w_dir w', Inr removed)"
    and w': "w' = w\<lparr>w_dir := w_dir w', w_transactions := []\<rparr>"
    using assms(2) by (auto simp: wal_checkpoint_def split: if_splits prod.splits sum.splits)
  note fields = arg_cong [OF w', of w_database_id] arg_cong [OF w', of w_next_lsn] arg_cong [OF w', of w_transactions]
  have dir: "dir_ok (w_dir w)" using repr by (simp add: log_repr_def)
  note cp = checkpoint_write_lookup [OF cw dir assms(4)]
  note rr = remove_records_lookup [OF rm cp(1)]
  have read: "checkpoint_read L (w_dir w') (w_database_id w) = Inr (w_next_lsn w, generation)"
    using cp(2) checkpoint_read_cong [of "w_dir w'" d] rr(2) [of CHECKPOINT_FILE] by auto
  have "is_log_temporary L name \<or> name = CHECKPOINT_FILE \<or> (\<exists>lsn < w_next_lsn w. name = record_name lsn)"
    if "name \<in> fst ` set (w_dir w')" for name
  proof (cases "name = CHECKPOINT_FILE \<or> name = temporary_name CHECKPOINT_FILE unique")
    case True
    then show ?thesis using temporary_is_log_temporary [OF assms(3)] by auto
  next
    case False
    have "lookup_file (w_dir w') name \<noteq> None" using that by (simp only: lookup_None_iff not_not)
    then have "lookup_file (w_dir w) name \<noteq> None" using rr(2) [of name] cp(3) [of name] False by metis
    then have "name \<in> fst ` set (w_dir w)" by (simp only: lookup_None_iff not_not)
    then show ?thesis using repr lsn unfolding log_repr_def by auto
  qed
  then have "log_repr L (w_database_id w') (w_dir w') (w_next_lsn w) []"
    using rr(1) read repr lsn fields(1) by (simp add: log_repr_def)
  then show "wal_ok L w'"
    unfolding wal_ok_def using fields by (intro exI [of _ "w_next_lsn w"] exI [of _ "[]"]) simp
  show "w_next_lsn w' = w_next_lsn w" "w_transactions w' = []" using fields by simp_all
qed

section \<open>Reachable logs\<close>

text \<open>The steps of a log between two openings: an append that succeeds, an append whose record is
  not in the directory afterwards, and a checkpoint.  The JSON library is relied on for the values
  that are written.\<close>

inductive log_step :: "log_env \<Rightarrow> wal \<Rightarrow> wal \<Rightarrow> bool" for L where
  appended: "append_record L f unique txn kind w = (w', Inr ()) \<Longrightarrow> unique_ok L unique \<Longrightarrow>
     reads_back (rec_json L) (record_new (w_database_id w) (w_next_lsn w) txn kind) \<Longrightarrow>
     w_next_lsn w + 1 < u64_limit \<Longrightarrow> log_step L w w'"
| not_appended: "append_record L f unique txn kind w = (w', Inl e) \<Longrightarrow> unique_ok L unique \<Longrightarrow>
     reads_back (rec_json L) (record_new (w_database_id w) (w_next_lsn w) txn kind) \<Longrightarrow>
     w_next_lsn w + 1 < u64_limit \<Longrightarrow> \<not> exists_file (w_dir w') (record_name (w_next_lsn w)) \<Longrightarrow>
     log_step L w w'"
| checkpointed: "wal_checkpoint L fault unique fails generation w = (w', Inr removed) \<Longrightarrow> unique_ok L unique \<Longrightarrow>
     reads_back (cp_json L) \<lparr>cp_format_version = CHECKPOINT_FORMAT_VERSION,
       cp_database_id = w_database_id w, cp_next_lsn = w_next_lsn w, cp_catalog_generation = generation\<rparr> \<Longrightarrow>
     log_step L w w'"

lemma log_repr_snoc_exists:
  "log_repr L db d start (recs @ [r]) \<Longrightarrow> exists_file d (record_name (start + length recs))"
  using record_file.read_missing [of d "record_name (start + length recs)" L db "start + length recs"]
  by (fastforce simp: log_repr_def exists_file_def record_read_file)

lemma log_step_ok: "log_step L w w' \<Longrightarrow> wal_ok L w \<Longrightarrow> wal_ok L w' \<and> w_database_id w' = w_database_id w"
proof (induction rule: log_step.induct)
  case (appended f unique txn kind w w')
  obtain start recs where *: "log_repr L (w_database_id w) (w_dir w) start recs"
    "w_next_lsn w = start + length recs" "try_fold apply_record [] recs = Inr (w_transactions w)"
    using appended.prems by (auto simp: wal_ok_def)
  note out = append_record_outcome [OF *(1,2) appended.hyps(4,2) refl appended.hyps(3,1)]
  have "try_fold apply_record [] (recs @ [record_new (w_database_id w) (w_next_lsn w) txn kind]) = Inr (w_transactions w')"
    using out(2) *(3) by simp
  with out(1,2) *(2) show ?case by (fastforce simp: wal_ok_def)
next
  case (not_appended f unique txn kind w w' e)
  obtain start recs where *: "log_repr L (w_database_id w) (w_dir w) start recs"
    "w_next_lsn w = start + length recs" "try_fold apply_record [] recs = Inr (w_transactions w)"
    using not_appended.prems by (auto simp: wal_ok_def)
  note out = append_record_outcome [OF *(1,2) not_appended.hyps(4,2) refl not_appended.hyps(3,1)]
  show ?case using out(1,3) * not_appended.hyps(5) log_repr_snoc_exists by (fastforce simp: wal_ok_def)
next
  case (checkpointed fault unique fails generation w w' removed)
  have "w_database_id w' = w_database_id w"
    using checkpointed.hyps(1) by (auto simp: wal_checkpoint_def split: if_splits prod.splits sum.splits)
  with wal_checkpoint_ok(1) [OF checkpointed.prems checkpointed.hyps] show ?case by simp
qed

lemma log_steps_ok: "(log_step L)\<^sup>*\<^sup>* w w' \<Longrightarrow> wal_ok L w \<Longrightarrow> wal_ok L w' \<and> w_database_id w' = w_database_id w"
  by (induction rule: rtranclp_induct) (use log_step_ok in auto)

text \<open>An empty directory is a log.\<close>

definition wal_empty :: "string \<Rightarrow> wal" where
  "wal_empty db = \<lparr>w_dir = [], w_database_id = db, w_next_lsn = 1, w_transactions = []\<rparr>"

lemma wal_empty_ok: "wal_ok L (wal_empty db)"
  unfolding wal_ok_def wal_empty_def
  by (rule exI [of _ 1], rule exI [of _ "[]"])
    (simp add: log_repr_def dir_ok_def checkpoint_read_def exists_file_def lookup_file_def)

lemma wal_reopen:
  assumes "wal_ok L w"
  obtains d where "wal_open L (\<lambda>_. None) (w_database_id w) (w_dir w) = (d, Inr (w\<lparr>w_dir := d\<rparr>))"
    and "wal_ok L (w\<lparr>w_dir := d\<rparr>)"
proof -
  obtain start recs where *: "log_repr L (w_database_id w) (w_dir w) start recs"
    "w_next_lsn w = start + length recs" "try_fold apply_record [] recs = Inr (w_transactions w)"
    using assms by (auto simp: wal_ok_def)
  obtain d where d: "wal_open L (\<lambda>_. None) (w_database_id w) (w_dir w) = (d, Inr \<lparr>w_dir = d,
      w_database_id = w_database_id w, w_next_lsn = start + length recs, w_transactions = w_transactions w\<rparr>)"
    "log_repr L (w_database_id w) d start recs"
    by (rule wal_open_repr [OF *(1,3)])
  show ?thesis
  proof (rule that [of d])
    show "wal_open L (\<lambda>_. None) (w_database_id w) (w_dir w) = (d, Inr (w\<lparr>w_dir := d\<rparr>))"
      using d(1) *(2) by (cases w) simp
    show "wal_ok L (w\<lparr>w_dir := d\<rparr>)" using d(2) * by (auto simp: wal_ok_def)
  qed
qed

text \<open>After an append, whatever came of it, the directory opens as the log with the record if the file of the
  record exists, and as the log before it if not.\<close>

lemma append_then_open:
  assumes log: "wal_ok L w" and u: "unique_ok L unique" and lim: "w_next_lsn w + 1 < u64_limit"
    and r: "r = record_new (w_database_id w) (w_next_lsn w) txn kind" and rb: "reads_back (rec_json L) r"
    and app: "append_record L f unique txn kind w = (w', q)"
  shows "\<exists>d w''. wal_open L (\<lambda>_. None) (w_database_id w) (w_dir w') = (d, Inr w'')
    \<and> (if exists_file (w_dir w') (record_name (w_next_lsn w))
       then w_next_lsn w'' = w_next_lsn w + 1 \<and> apply_record (w_transactions w) r = Inr (w_transactions w'')
       else w_next_lsn w'' = w_next_lsn w \<and> w_transactions w'' = w_transactions w)"
proof -
  let ?db = "w_database_id w"
  obtain start recs where repr: "log_repr L ?db (w_dir w) start recs" and nxt: "w_next_lsn w = start + length recs"
    and table: "try_fold apply_record [] recs = Inr (w_transactions w)"
    using log by (auto simp: wal_ok_def)
  note out = append_record_outcome [OF repr nxt lim u r rb app]
  have opened: "\<exists>d w''. wal_open L (\<lambda>_. None) ?db (w_dir w') = (d, Inr w'') \<and> w_next_lsn w'' = start + length rs
      \<and> w_transactions w'' = ts"
    if "log_repr L ?db (w_dir w') start rs" and "try_fold apply_record [] rs = Inr ts" for rs ts
  proof -
    let ?w = "\<lparr>w_dir = w_dir w', w_database_id = ?db, w_next_lsn = start + length rs, w_transactions = ts\<rparr>"
    have ok: "wal_ok L ?w" unfolding wal_ok_def using that by (intro exI [of _ start] exI [of _ rs]) simp
    obtain d where "wal_open L (\<lambda>_. None) (w_database_id ?w) (w_dir ?w) = (d, Inr (?w\<lparr>w_dir := d\<rparr>))"
      using wal_reopen [OF ok] by blast
    then show ?thesis by (intro exI [of _ d] exI [of _ "?w\<lparr>w_dir := d\<rparr>"]) simp
  qed
  consider "log_repr L ?db (w_dir w') start recs"
    | ts where "log_repr L ?db (w_dir w') start (recs @ [r])" "apply_record (w_transactions w) r = Inr ts"
    using out(2,3) by (cases q) (auto simp: is_ok_conv)
  then show ?thesis
  proof cases
    case 1
    then show ?thesis using opened [OF 1 table] log_repr_next_free [OF 1] nxt by (simp add: exists_file_def)
  next
    case (2 ts)
    have "try_fold apply_record [] (recs @ [r]) = Inr ts" using table 2(2) by simp
    then show ?thesis using opened [OF 2(1)] log_repr_snoc_exists [OF 2(1)] nxt 2(2) by fastforce
  qed
qed

end
