(* ===== verification/Commit_Recovery.thy ===== *)
theory Commit_Recovery
  imports Catalog_Correct Wal_Correct
begin

text \<open>
  The commit of a catalog generation through the log, and recovery when the database is opened
  (\<open>storage/native/commit.rs\<close>, \<open>transaction_commit.rs\<close>, \<open>wal/recovery.rs\<close>, \<open>active_wal.rs\<close> and
  \<open>NativeDatabase::open\<close> in \<open>mod.rs\<close>).
\<close>

section \<open>Definitions\<close>

text \<open>Replay: publish every logged commit the catalog has not reached yet, in the order of the
  generations.  The faults of the publications are indexed by the generation.\<close>

fun replay_commits ::
  "catalog_env \<Rightarrow> (nat \<Rightarrow> fault) \<Rightarrow> string \<Rightarrow> catalog_commit list \<Rightarrow> catalog_state \<Rightarrow> catalog_dirs
   \<Rightarrow> catalog_dirs \<times> (db_error, unit) result" where
  "replay_commits E faults db [] current dirs = (dirs, Inr ())"
| "replay_commits E faults db (commit # commits) current dirs =
     (if cc_generation commit \<le> cs_generation current
      then replay_commits E faults db commits current dirs
      else if cc_expected_generation commit \<noteq> cs_generation current then (dirs, Inl NativeStorage)
      else case load_generation E dirs db (cc_generation commit) of Inl e \<Rightarrow> (dirs, Inl e) | Inr prepared \<Rightarrow>
      if cs_transaction_id prepared \<noteq> Some (cc_transaction_id commit) then (dirs, Inl NativeStorage)
      else case publish_prepared E (faults (cc_generation commit)) db (cc_expected_generation commit) prepared
                  (cc_transaction_id commit) dirs of
        (dirs', Inl e) \<Rightarrow> (dirs', Inl e)
      | (dirs', Inr current') \<Rightarrow> replay_commits E faults db commits current' dirs')"

definition replay_catalog ::
  "catalog_env \<Rightarrow> (nat \<Rightarrow> fault) \<Rightarrow> string \<Rightarrow> wal \<Rightarrow> catalog_dirs \<Rightarrow> catalog_dirs \<times> (db_error, unit) result"
  where
  "replay_catalog E faults db w dirs = (case load E dirs db of
       Inl e \<Rightarrow> (dirs, Inl e)
     | Inr current \<Rightarrow> replay_commits E faults db (sort_key cc_generation (catalog_commits w)) current dirs)"

text \<open>The stored part of a database that these operations touch.\<close>

record stored =
  st_catalog :: catalog_dirs
  st_wal :: dir

text \<open>Opening: open the log, replay it, drop the generations nobody committed, load the catalog.  The
  code also empties the staging directory before it loads; no operation here reads that directory.\<close>

definition open_catalog ::
  "catalog_env \<Rightarrow> log_env \<Rightarrow> (string \<Rightarrow> nat option) \<Rightarrow> (nat \<Rightarrow> fault) \<Rightarrow> string \<Rightarrow> stored
   \<Rightarrow> stored \<times> (db_error, wal \<times> catalog_state) result" where
  "open_catalog E L fails faults db s =
     (case wal_open L fails db (st_wal s) of
        (d, Inl e) \<Rightarrow> (s\<lparr>st_wal := d\<rparr>, Inl e)
      | (d, Inr w) \<Rightarrow>
      case replay_catalog E faults db w (st_catalog s) of
        (dirs1, Inl e) \<Rightarrow> (\<lparr>st_catalog = dirs1, st_wal = d\<rparr>, Inl e)
      | (dirs1, Inr _) \<Rightarrow>
      case recover_future_generations E fails db dirs1 of
        (dirs2, Inl e) \<Rightarrow> (\<lparr>st_catalog = dirs2, st_wal = d\<rparr>, Inl e)
      | (dirs2, Inr _) \<Rightarrow>
      (\<lparr>st_catalog = dirs2, st_wal = d\<rparr>, bindr (load E dirs2 db) (\<lambda>catalog. Inr (w, catalog))))"

definition wal_commit_error :: "db_error \<Rightarrow> db_error" where
  "wal_commit_error e = (case e of
       CommitOutcomeUnknown \<Rightarrow> e
     | NativeCommitPostCommitFailure _ \<Rightarrow> e
     | _ \<Rightarrow> NativeStorage)"

definition catalog_publication_error :: "db_error \<Rightarrow> db_error" where
  "catalog_publication_error e = (case e of
       CommitOutcomeUnknown \<Rightarrow> e
     | NativeCommitPostCommitFailure _ \<Rightarrow> e
     | _ \<Rightarrow> CommitOutcomeUnknown)"

text \<open>The faults of one commit.  Between the publication and the removal of the old generations the
  code removes manifests the new snapshots no longer inherit, in the directories of the tables: the
  commit sees only whether that fails (\<open>cf_inherited\<close>).\<close>

record commit_faults =
  cf_prepare :: fault
  cf_append :: append_faults
  cf_publish :: fault
  cf_inherited :: bool
  cf_prune :: "string \<Rightarrow> nat option"

text \<open>The durable part of a commit: prepare the next generation, log the commit, publish the
  generation, remove the old ones.\<close>

definition commit_generation ::
  "catalog_env \<Rightarrow> log_env \<Rightarrow> commit_faults \<Rightarrow> string \<Rightarrow> string \<Rightarrow> nat \<Rightarrow> string list
   \<Rightarrow> (string \<times> table_reference) list \<Rightarrow> (string \<times> view_reference) list \<Rightarrow> string
   \<Rightarrow> catalog_dirs \<times> wal \<Rightarrow> (catalog_dirs \<times> wal) \<times> (db_error, catalog_state) result" where
  "commit_generation E L f unique1 unique2 base schemas tables views txn = (\<lambda>(dirs, w).
     case prepare_catalog_commit E (cf_prepare f) unique1 (w_database_id w) base schemas tables views txn dirs of
       (dirs1, Inl e) \<Rightarrow> ((dirs1, w), Inl e)
     | (dirs1, Inr prepared) \<Rightarrow>
     case commit_catalog L (cf_append f) unique2 txn base (cs_generation prepared) w of
       (w1, Inl e) \<Rightarrow> ((dirs1, w1), Inl (wal_commit_error e))
     | (w1, Inr _) \<Rightarrow>
     case publish_prepared E (cf_publish f) (w_database_id w) base prepared txn dirs1 of
       (dirs2, Inl e) \<Rightarrow> ((dirs2, w1), Inl (catalog_publication_error e))
     | (dirs2, Inr committed) \<Rightarrow>
     if cf_inherited f then ((dirs2, w1), Inl (NativeCommitPostCommitFailure (cs_generation committed)))
     else case prune_old_generations E (cf_prune f) (w_database_id w) (cs_generation committed) dirs2 of
       (dirs3, Inl e) \<Rightarrow> ((dirs3, w1), Inl (NativeCommitPostCommitFailure (cs_generation committed)))
     | (dirs3, Inr _) \<Rightarrow> ((dirs3, w1), Inr committed))"

text \<open>The owner of an active transaction: it aborts when it is dropped, unless it was released.\<close>

record active_wal =
  aw_transaction_id :: string
  aw_armed :: bool

definition active_wal_new :: "string \<Rightarrow> active_wal" where
  "active_wal_new transaction_id = \<lparr>aw_transaction_id = transaction_id, aw_armed = True\<rparr>"

definition active_wal_abort ::
  "log_env \<Rightarrow> append_faults \<Rightarrow> string \<Rightarrow> active_wal \<times> wal \<Rightarrow> (active_wal \<times> wal) \<times> (db_error, unit) result" where
  "active_wal_abort L f unique = (\<lambda>(a, w).
     if \<not> aw_armed a then ((a, w), Inr ())
     else case wal_abort L f unique (aw_transaction_id a) w of
       (w', Inl e) \<Rightarrow> ((a, w'), Inl e)
     | (w', Inr _) \<Rightarrow> ((a\<lparr>aw_armed := False\<rparr>, w'), Inr ()))"

definition release_to_recovery :: "active_wal \<Rightarrow> active_wal" where
  "release_to_recovery a = a\<lparr>aw_armed := False\<rparr>"

definition active_wal_drop :: "log_env \<Rightarrow> append_faults \<Rightarrow> string \<Rightarrow> active_wal \<Rightarrow> wal \<Rightarrow> wal" where
  "active_wal_drop L f unique a w = (if aw_armed a then snd (fst (active_wal_abort L f unique (a, w))) else w)"

section \<open>Replaying\<close>

text \<open>The commits of a log that the catalog has caught up with.\<close>

definition caught_up :: "nat \<Rightarrow> wal \<Rightarrow> bool" where
  "caught_up generation w \<longleftrightarrow> (\<forall>c \<in> set (catalog_commits w). cc_generation c \<le> generation)"

lemma replay_skips:
  "\<forall>c \<in> set cs. cc_generation c \<le> cs_generation current \<Longrightarrow>
     replay_commits E faults db cs current dirs = (dirs, Inr ())"
  by (induction cs) simp_all

lemma publish_checks_prepared:
  assumes "load E dirs db = Inr current" and "load_generation E dirs db (cs_generation current + 1) = Inr state"
    and "cs_transaction_id state = Some txn" and "cs_generation current + 1 < u64_limit"
  obtains bytes where "publish_checks E dirs db (cs_generation current) state txn = Inr bytes"
proof -
  have "cs_generation state = cs_generation current + 1" "cs_database_id state = db"
    using assms(2) by (auto simp: load_generation_def result_simps split: if_splits)
  then have "publish_checks E dirs db (cs_generation current) state txn = encode_current (cs_generation state)"
    using assms by (simp add: publish_checks_def checked_add_def)
  then show ?thesis using that encode_current_Inr [of "cs_generation state"] assms(4)
    \<open>cs_generation state = cs_generation current + 1\<close> by simp
qed

text \<open>One commit that the catalog has not reached is published, whatever else the log holds.\<close>

lemma replay_one:
  assumes "load E dirs db = Inr current" and "load_generation E dirs db (cs_generation current + 1) = Inr state"
    and "cs_transaction_id state = Some (cc_transaction_id c)" and "cs_generation current + 1 < u64_limit"
    and "cc_generation c = cs_generation current + 1" and "cc_expected_generation c = cs_generation current"
    and "lookup_file (catalog_dir dirs) (temporary_name ''CURRENT'' (cc_transaction_id c)) = None"
    and "c \<in> set cs" and "\<forall>c' \<in> set cs. c' = c \<or> cc_generation c' \<le> cs_generation current"
  shows "\<exists>dirs'. replay_commits E (\<lambda>_. No_Fault) db cs current dirs = (dirs', Inr ())
    \<and> load E dirs' db = Inr state"
  using assms(8,9)
proof (induction cs)
  case (Cons c' cs)
  show ?case
  proof (cases "cc_generation c' \<le> cs_generation current")
    case True
    then have "c' \<noteq> c" using assms(5) by auto
    with Cons True show ?thesis by simp
  next
    case False
    with Cons.prems have c': "c' = c" by auto
    obtain bytes where "publish_checks E dirs db (cs_generation current) state (cc_transaction_id c) = Inr bytes"
      by (rule publish_checks_prepared [OF assms(1-4)])
    then obtain dirs' where p: "publish_prepared E No_Fault db (cs_generation current) state (cc_transaction_id c) dirs
        = (dirs', Inr state)"
      using publish_prepared_ok assms(7) by blast
    have g: "cs_generation state = cs_generation current + 1"
      using assms(2) by (auto simp: load_generation_def result_simps split: if_splits)
    have "\<forall>c' \<in> set cs. cc_generation c' \<le> cs_generation state" using Cons.prems g assms(5) by auto
    then have "replay_commits E (\<lambda>_. No_Fault) db cs state dirs' = (dirs', Inr ())" by (rule replay_skips)
    moreover have "load E dirs' db = Inr state"
      using publish_prepared_outcome [OF p] by (simp add: publish_outcome_def)
    ultimately show ?thesis using c' False assms p by simp
  qed
qed simp

lemma sweep_ok: "\<exists>dirs'. sweep_generations E db keep (\<lambda>_. None) names dirs = (dirs', Inr ())"
  by (induction names arbitrary: dirs) (simp_all add: remove_file_ok)

lemma recover_future_ok:
  assumes "load E dirs db = Inr c"
  obtains dirs' where "recover_future_generations E (\<lambda>_. None) db dirs = (dirs', Inr ())"
    and "load E dirs' db = Inr c"
proof -
  let ?keep = "\<lambda>g. g \<le> cs_generation c"
  note g = load_read_current [OF assms]
  obtain dirs' where s: "sweep_generations E db ?keep (\<lambda>_. None) (map fst (generations_dir dirs)) dirs = (dirs', Inr ())"
    using sweep_ok by blast
  have "load E dirs' db = load E dirs db" by (rule sweep_keeps_load [OF s]) (simp add: g)
  with that [of dirs'] s g assms show ?thesis by (simp add: recover_future_generations_def)
qed

section \<open>Opening\<close>

definition opens_with :: "catalog_env \<Rightarrow> log_env \<Rightarrow> string \<Rightarrow> stored \<Rightarrow> catalog_state \<Rightarrow> bool" where
  "opens_with E L db s state \<longleftrightarrow> (case open_catalog E L (\<lambda>_. None) (\<lambda>_. No_Fault) db s of
       (s', Inr (w, catalog)) \<Rightarrow> catalog = state \<and> load E (st_catalog s') db = Inr state
     | _ \<Rightarrow> False)"

lemma opens_withI:
  assumes "wal_open L (\<lambda>_. None) db (st_wal s) = (d, Inr w)"
    and "replay_catalog E (\<lambda>_. No_Fault) db w (st_catalog s) = (dirs, Inr ())" and "load E dirs db = Inr state"
  shows "opens_with E L db s state"
proof -
  obtain dirs' where "recover_future_generations E (\<lambda>_. None) db dirs = (dirs', Inr ())"
    and "load E dirs' db = Inr state"
    by (rule recover_future_ok [OF assms(3)])
  with assms(1,2) show ?thesis by (simp add: opens_with_def open_catalog_def)
qed

lemma open_caught_up:
  assumes "wal_ok L w" and "w_database_id w = db" and "load E dirs db = Inr old"
    and "caught_up (cs_generation old) w"
  shows "opens_with E L db \<lparr>st_catalog = dirs, st_wal = w_dir w\<rparr> old"
proof -
  obtain d where d: "wal_open L (\<lambda>_. None) db (w_dir w) = (d, Inr (w\<lparr>w_dir := d\<rparr>))"
    using wal_reopen [OF assms(1)] assms(2) by metis
  have "catalog_commits (w\<lparr>w_dir := d\<rparr>) = catalog_commits w" by (simp add: catalog_commits_def)
  then have "replay_catalog E (\<lambda>_. No_Fault) db (w\<lparr>w_dir := d\<rparr>) dirs = (dirs, Inr ())"
    using assms(3,4) replay_skips by (simp add: replay_catalog_def caught_up_def)
  then show ?thesis by (intro opens_withI [OF _ _ assms(3)]) (simp_all add: d)
qed

text \<open>A log whose only commit ahead of the catalog is \<open>c\<close>.\<close>

definition one_ahead :: "nat \<Rightarrow> catalog_commit \<Rightarrow> wal \<Rightarrow> bool" where
  "one_ahead generation c w \<longleftrightarrow> cc_generation c = generation + 1 \<and> cc_expected_generation c = generation
     \<and> c \<in> set (catalog_commits w)
     \<and> (\<forall>c' \<in> set (catalog_commits w). c' = c \<or> cc_generation c' \<le> generation)"

text \<open>The catalog has the generation of that commit prepared, owned by its transaction.\<close>

definition prepared_for :: "catalog_env \<Rightarrow> string \<Rightarrow> catalog_dirs \<Rightarrow> catalog_state \<Rightarrow> catalog_state \<Rightarrow> catalog_commit \<Rightarrow> bool"
  where
  "prepared_for E db dirs old new c \<longleftrightarrow> load E dirs db = Inr old
     \<and> load_generation E dirs db (cs_generation old + 1) = Inr new
     \<and> cs_transaction_id new = Some (cc_transaction_id c) \<and> cs_generation old + 1 < u64_limit"

lemma open_one_ahead:
  assumes "wal_ok L w" and "w_database_id w = db" and "prepared_for E db dirs old new c"
    and "one_ahead (cs_generation old) c w"
    and "lookup_file (catalog_dir dirs) (temporary_name ''CURRENT'' (cc_transaction_id c)) = None"
  shows "opens_with E L db \<lparr>st_catalog = dirs, st_wal = w_dir w\<rparr> new"
proof -
  obtain d where d: "wal_open L (\<lambda>_. None) db (w_dir w) = (d, Inr (w\<lparr>w_dir := d\<rparr>))"
    using wal_reopen [OF assms(1)] assms(2) by metis
  have "\<exists>dirs'. replay_commits E (\<lambda>_. No_Fault) db (sort_key cc_generation (catalog_commits w)) old dirs = (dirs', Inr ())
    \<and> load E dirs' db = Inr new"
    by (rule replay_one [where c = c]) (use assms in \<open>auto simp: prepared_for_def one_ahead_def\<close>)
  then obtain dirs' where r: "replay_commits E (\<lambda>_. No_Fault) db (sort_key cc_generation (catalog_commits w)) old dirs = (dirs', Inr ())"
    and l: "load E dirs' db = Inr new" by blast
  have "catalog_commits (w\<lparr>w_dir := d\<rparr>) = catalog_commits w" by (simp add: catalog_commits_def)
  then have "replay_catalog E (\<lambda>_. No_Fault) db (w\<lparr>w_dir := d\<rparr>) dirs = (dirs', Inr ())"
    using r assms(3) by (simp add: replay_catalog_def prepared_for_def)
  then show ?thesis by (intro opens_withI [OF _ _ l]) (simp_all add: d)
qed

text \<open>Recovery publishes under the temporary name of the transaction itself.  When a crash has left
  that file behind, opening fails once, and removes it.\<close>

lemma replay_blocked:
  assumes "prepared_for E db dirs old new c" and "one_ahead (cs_generation old) c w"
    and "lookup_file (catalog_dir dirs) (temporary_name ''CURRENT'' (cc_transaction_id c)) = Some v"
  shows "replay_catalog E (\<lambda>_. No_Fault) db w dirs =
    (dirs\<lparr>catalog_dir := remove_entry (temporary_name ''CURRENT'' (cc_transaction_id c)) (catalog_dir dirs)\<rparr>, Inl Io)"
proof -
  let ?tmp = "temporary_name ''CURRENT'' (cc_transaction_id c)"
  let ?dirs = "dirs\<lparr>catalog_dir := remove_entry ?tmp (catalog_dir dirs)\<rparr>"
  have l: "load E dirs db = Inr old" and p: "load_generation E dirs db (cs_generation old + 1) = Inr new"
    and t: "cs_transaction_id new = Some (cc_transaction_id c)" and b: "cs_generation old + 1 < u64_limit"
    using assms(1) by (simp_all add: prepared_for_def)
  obtain bytes where checks: "publish_checks E dirs db (cs_generation old) new (cc_transaction_id c) = Inr bytes"
    by (rule publish_checks_prepared [OF l p t b])
  have "exists_file (catalog_dir dirs) ''CURRENT''"
    using load_read_current [OF l]
    by (auto simp: read_current_def read_bounded_def exists_file_bytes result_simps split: option.splits)
  then have pub: "publish_prepared E No_Fault db (cs_generation old) new (cc_transaction_id c) dirs = (?dirs, Inl Io)"
    using checks assms(3)
    by (simp add: publish_prepared_def read_fails_def atomic_replace_def Let_def exists_file_def cleanup_temporary_def)
  have "replay_commits E (\<lambda>_. No_Fault) db cs old dirs = (?dirs, Inl Io)"
    if "c \<in> set cs" "\<forall>c' \<in> set cs. c' = c \<or> cc_generation c' \<le> cs_generation old" for cs
    using that
  proof (induction cs)
    case (Cons c' cs)
    show ?case
    proof (cases "cc_generation c' \<le> cs_generation old")
      case True
      then have "c' \<noteq> c" using assms(2) by (auto simp: one_ahead_def)
      with Cons True show ?thesis by simp
    next
      case False
      with Cons.prems have "c' = c" by auto
      with False assms(2) pub p t show ?thesis by (simp add: one_ahead_def)
    qed
  qed simp
  then show ?thesis using l assms(2) by (simp add: replay_catalog_def one_ahead_def)
qed

section \<open>Committing\<close>

text \<open>A database between commits: the log in memory agrees with its directory, and every commit in
  it is published.\<close>

definition at_rest :: "catalog_env \<Rightarrow> log_env \<Rightarrow> catalog_dirs \<Rightarrow> wal \<Rightarrow> catalog_state \<Rightarrow> bool" where
  "at_rest E L dirs w old \<longleftrightarrow>
     wal_ok L w \<and> load E dirs (w_database_id w) = Inr old \<and> caught_up (cs_generation old) w"

lemma set_alist_update: "set (AList.update k v al) \<subseteq> insert (k, v) (set al)" "(k, v) \<in> set (AList.update k v al)"
  by (induction al) auto

lemma catalog_commits_iff: "c \<in> set (catalog_commits w) \<longleftrightarrow> (\<exists>t. (t, CatalogCommitted c) \<in> set (w_transactions w))"
  by (force simp: catalog_commits_def List.map_filter_def split: transaction_state.splits)

lemma one_ahead_appended:
  assumes "caught_up base w" and "apply_record (w_transactions w) (record_new db lsn txn (Catalog_Commit base (base + 1)))
      = Inr (w_transactions w')"
  shows "one_ahead base \<lparr>cc_transaction_id = txn, cc_expected_generation = base, cc_generation = base + 1\<rparr> w'"
proof -
  let ?c = "\<lparr>cc_transaction_id = txn, cc_expected_generation = base, cc_generation = base + 1\<rparr>"
  have "w_transactions w' = AList.update txn (CatalogCommitted ?c) (w_transactions w)"
    using assms(2) by (auto simp: apply_record_def result_simps record_new_def next_transaction_state_def)
  then have "set (w_transactions w') \<subseteq> insert (txn, CatalogCommitted ?c) (set (w_transactions w))"
    and "(txn, CatalogCommitted ?c) \<in> set (w_transactions w')"
    using set_alist_update [of txn "CatalogCommitted ?c" "w_transactions w"] by simp_all
  then show ?thesis
    using assms(1) unfolding one_ahead_def caught_up_def Ball_def catalog_commits_iff by auto
qed

text \<open>The log after the commit record, as its directory represents it.\<close>

lemma appended_wal_ok:
  assumes "log_repr L db d start (recs @ [r])" and "try_fold apply_record [] recs = Inr ts"
    and "apply_record ts r = Inr ts'"
  shows "wal_ok L \<lparr>w_dir = d, w_database_id = db, w_next_lsn = start + length recs + 1, w_transactions = ts'\<rparr>"
  unfolding wal_ok_def using assms by (intro exI [of _ start] exI [of _ "recs @ [r]"]) simp

lemma reconcile_error: "reconcile L f db r we d = Inl e \<Longrightarrow> e = we \<or> e = ambiguous_append_error (wr_kind r)"
  by (auto simp: reconcile_def Let_def split: if_splits sum.splits)

lemma record_write_error: "record_write L fault unique r d = (d', Inl e) \<Longrightarrow> e = Io \<or> e = NativeStorage"
  by (auto simp: record_write_def record_encode_def record_validate_def seal_def json_sha256_eq encode_bounded_eq
      bindr_eq_Inl split: if_splits sum.splits record_kind.splits dest: atomic_create_error)

lemma append_record_error_kind:
  assumes "append_record L f unique txn kind w = (w', Inl e)" and "w_next_lsn w + 1 < u64_limit"
  shows "e = Io \<or> e = NativeStorage \<or> e = ambiguous_append_error kind"
proof -
  let ?r = "record_new (w_database_id w) (w_next_lsn w) txn kind"
  obtain d outcome where wr: "record_write L (af_create f) unique ?r (w_dir w) = (d, outcome)"
    by (cases "record_write L (af_create f) unique ?r (w_dir w)")
  have kind: "wr_kind ?r = kind" "wr_transaction_id ?r = txn" by (simp_all add: record_new_def)
  show ?thesis
  proof (cases "validate_transition (w_transactions w) txn kind")
    case (Inl e')
    then have "e' = NativeStorage"
      by (auto simp: validate_transition_def split: option.splits transaction_state.splits record_kind.splits)
    then show ?thesis using Inl assms(1) by (auto simp: append_record_def)
  next
    case (Inr u)
    then obtain ts where ts: "apply_record (w_transactions w) ?r = Inr ts" by (simp add: apply_record_def kind)
    from assms Inr wr ts obtain we where "outcome = Inl we"
      and "reconcile L f (w_database_id w) ?r we d = Inl e"
      by (cases outcome) (auto simp: append_record_def Let_def checked_add_def split: sum.splits)
    then show ?thesis
      using reconcile_error record_write_error [OF wr [unfolded \<open>outcome = Inl we\<close>]] kind(1) by metis
  qed
qed

lemma append_record_error:
  "append_record L f unique txn kind w = (w', Inl e) \<Longrightarrow> w_next_lsn w + 1 < u64_limit \<Longrightarrow>
     e = Io \<or> e = NativeStorage \<or> e = CommitOutcomeUnknown"
  by (drule (1) append_record_error_kind) (auto simp: ambiguous_append_error_def split: record_kind.splits)

lemma caught_up_one_ahead: "one_ahead base c w \<Longrightarrow> base + 1 \<le> generation \<Longrightarrow> caught_up generation w"
  by (auto simp: one_ahead_def caught_up_def)

text \<open>The commit record is in the log; the new generation is visible or still only prepared.\<close>

lemma prepared_for_same:
  assumes "prepared_for E db dirs1 old new c" and "load E dirs db = load E dirs1 db"
    and "generations_dir dirs = generations_dir dirs1"
  shows "prepared_for E db dirs old new c"
proof -
  have "load_generation E dirs db g = load_generation E dirs1 db g" for g
    using read_generation_cong [of dirs g dirs1 E] assms(3) by (simp add: load_generation_def)
  then show ?thesis using assms(1,2) by (simp add: prepared_for_def)
qed

lemma open_after_log:
  assumes "wal_ok L w" and "w_database_id w = db" and "one_ahead (cs_generation old) c w"
    and "prepared_for E db dirs1 old new c"
    and "load E dirs db = Inr new \<or> load E dirs db = load E dirs1 db \<and> generations_dir dirs = generations_dir dirs1"
    and "load E dirs db = Inr new
      \<or> lookup_file (catalog_dir dirs) (temporary_name ''CURRENT'' (cc_transaction_id c)) = None"
  shows "opens_with E L db \<lparr>st_catalog = dirs, st_wal = w_dir w\<rparr> new"
proof (cases "load E dirs db = Inr new")
  case True
  have "cs_generation new = cs_generation old + 1"
    using assms(4) by (auto simp: prepared_for_def load_generation_def result_simps split: if_splits)
  then show ?thesis
    using open_caught_up [OF assms(1,2) True] caught_up_one_ahead [OF assms(3)] by simp
next
  case False
  then have "prepared_for E db dirs old new c" using prepared_for_same [OF assms(4)] assms(5) by blast
  then show ?thesis using False assms(6) by (intro open_one_ahead [OF assms(1,2) _ assms(3)]) auto
qed

lemma publish_generations: "publish_prepared E fault db base state txn dirs = (dirs', r) \<Longrightarrow> generations_dir dirs' = generations_dir dirs"
  by (auto simp: publish_prepared_def Let_def split: sum.splits prod.splits if_splits)

text \<open>Opening fails once on the temporary file of the interrupted publication, and then succeeds.\<close>

definition opens_on_retry :: "catalog_env \<Rightarrow> log_env \<Rightarrow> string \<Rightarrow> stored \<Rightarrow> catalog_state \<Rightarrow> bool" where
  "opens_on_retry E L db s state \<longleftrightarrow> (case open_catalog E L (\<lambda>_. None) (\<lambda>_. No_Fault) db s of
       (s', Inl e) \<Rightarrow> e = Io \<and> opens_with E L db s' state
     | _ \<Rightarrow> False)"

lemma open_blocked:
  assumes "wal_ok L w" and "w_database_id w = db" and "prepared_for E db dirs old new c"
    and "one_ahead (cs_generation old) c w"
    and "exists_file (catalog_dir dirs) (temporary_name ''CURRENT'' (cc_transaction_id c))"
  shows "opens_on_retry E L db \<lparr>st_catalog = dirs, st_wal = w_dir w\<rparr> new"
proof -
  let ?tmp = "temporary_name ''CURRENT'' (cc_transaction_id c)"
  let ?dirs = "dirs\<lparr>catalog_dir := remove_entry ?tmp (catalog_dir dirs)\<rparr>"
  obtain d where d: "wal_open L (\<lambda>_. None) db (w_dir w) = (d, Inr (w\<lparr>w_dir := d\<rparr>))"
    and ok: "wal_ok L (w\<lparr>w_dir := d\<rparr>)"
    using wal_reopen [OF assms(1)] assms(2) by metis
  have commits: "catalog_commits (w\<lparr>w_dir := d\<rparr>) = catalog_commits w" by (simp add: catalog_commits_def)
  have ahead: "one_ahead (cs_generation old) c (w\<lparr>w_dir := d\<rparr>)" using assms(4) by (simp add: one_ahead_def commits)
  obtain v where v: "lookup_file (catalog_dir dirs) ?tmp = Some v" using assms(5) by (auto simp: exists_file_def)
  have "replay_catalog E (\<lambda>_. No_Fault) db (w\<lparr>w_dir := d\<rparr>) dirs = (?dirs, Inl Io)"
    by (rule replay_blocked [OF assms(3) ahead v])
  moreover have "load E ?dirs db = load E dirs db"
    by (rule load_cong) (simp_all add: not_sym [OF temporary_name_neq(1)])
  moreover have "load_generation E ?dirs db g = load_generation E dirs db g" for g
    using read_generation_cong [of ?dirs g dirs E] by (simp add: load_generation_def)
  ultimately have "prepared_for E db ?dirs old new c"
    and run: "open_catalog E L (\<lambda>_. None) (\<lambda>_. No_Fault) db \<lparr>st_catalog = dirs, st_wal = w_dir w\<rparr>
      = (\<lparr>st_catalog = ?dirs, st_wal = w_dir (w\<lparr>w_dir := d\<rparr>)\<rparr>, Inl Io)"
    using assms(3) d by (simp_all add: prepared_for_def open_catalog_def)
  then have "opens_with E L db \<lparr>st_catalog = ?dirs, st_wal = w_dir (w\<lparr>w_dir := d\<rparr>)\<rparr> new"
    by (intro open_one_ahead [OF ok _ _ ahead]) (simp_all add: assms(2))
  then show ?thesis unfolding opens_on_retry_def run by simp
qed

text \<open>A directory of the log with the commit record.\<close>

definition log_has_commit :: "log_env \<Rightarrow> string \<Rightarrow> nat \<Rightarrow> catalog_commit \<Rightarrow> dir \<Rightarrow> bool" where
  "log_has_commit L db base c d \<longleftrightarrow>
     (\<exists>w. wal_ok L w \<and> w_database_id w = db \<and> w_dir w = d \<and> one_ahead base c w)"

text \<open>Opening reaches the committed catalog, at once or, if the temporary file of its publication is left, in a
  second attempt.\<close>

definition opens_committed :: "catalog_env \<Rightarrow> log_env \<Rightarrow> string \<Rightarrow> string \<Rightarrow> stored \<Rightarrow> catalog_state \<Rightarrow> bool" where
  "opens_committed E L db txn s new \<longleftrightarrow> opens_with E L db s new
     \<or> exists_file (catalog_dir (st_catalog s)) (temporary_name ''CURRENT'' txn) \<and> opens_on_retry E L db s new"

lemma open_with_commit:
  assumes "log_has_commit L db (cs_generation old) c d" and "prepared_for E db dirs1 old new c"
    and "load E dirs db = Inr new \<or> load E dirs db = load E dirs1 db \<and> generations_dir dirs = generations_dir dirs1"
  shows "opens_committed E L db (cc_transaction_id c) \<lparr>st_catalog = dirs, st_wal = d\<rparr> new"
proof -
  obtain w where w: "wal_ok L w" "w_database_id w = db" "w_dir w = d" and ahead: "one_ahead (cs_generation old) c w"
    using assms(1) by (auto simp: log_has_commit_def)
  show ?thesis
  proof (cases "load E dirs db = Inr new \<or> \<not> exists_file (catalog_dir dirs) (temporary_name ''CURRENT'' (cc_transaction_id c))")
    case True
    then show ?thesis using open_after_log [OF w(1,2) ahead assms(2,3)] w(3) by (auto simp: not_exists_file opens_committed_def)
  next
    case False
    then have "prepared_for E db dirs old new c"
      using prepared_for_same [OF assms(2)] assms(3) by blast
    then show ?thesis using open_blocked [OF w(1,2) _ ahead] False w(3) by (auto simp: opens_committed_def)
  qed
qed

text \<open>The outcome of a commit and what the next opening finds.\<close>

definition commit_outcome ::
  "catalog_env \<Rightarrow> log_env \<Rightarrow> string \<Rightarrow> catalog_state \<Rightarrow> catalog_state \<Rightarrow> stored
   \<Rightarrow> (db_error, catalog_state) result \<Rightarrow> bool" where
  "commit_outcome E L db old new s r \<longleftrightarrow> (case r of
       Inr committed \<Rightarrow> committed = new \<and> opens_with E L db s new
     | Inl (NativeCommitPostCommitFailure _) \<Rightarrow> opens_with E L db s new
     | Inl CommitOutcomeUnknown \<Rightarrow> opens_with E L db s old \<or> opens_with E L db s new
         \<or> opens_on_retry E L db s new
     | Inl _ \<Rightarrow> opens_with E L db s old)"

lemma commit_outcome_old:
  "opens_with E L db s old \<Longrightarrow> e \<noteq> CommitOutcomeUnknown \<Longrightarrow> (\<And>g. e \<noteq> NativeCommitPostCommitFailure g) \<Longrightarrow>
     commit_outcome E L db old new s (Inl e)"
  by (cases e) (auto simp: commit_outcome_def)

lemma wal_commit_error_cases:
  "e = Io \<or> e = NativeStorage \<or> e = CommitOutcomeUnknown \<Longrightarrow>
     wal_commit_error e = (if e = CommitOutcomeUnknown then CommitOutcomeUnknown else NativeStorage)"
  by (auto simp: wal_commit_error_def)

text \<open>The log and the record of a commit: what appending it leaves in the directory, on every path.\<close>

definition record_decides :: "log_env \<Rightarrow> string \<Rightarrow> nat \<Rightarrow> nat \<Rightarrow> catalog_commit \<Rightarrow> dir \<Rightarrow> bool" where
  "record_decides L db base lsn c d \<longleftrightarrow>
     (if exists_file d (record_name lsn) then log_has_commit L db base c d
      else \<exists>w. wal_ok L w \<and> w_database_id w = db \<and> w_dir w = d \<and> caught_up base w)"

lemma wal_ok_next_free: "wal_ok L w \<Longrightarrow> \<not> exists_file (w_dir w) (record_name (w_next_lsn w))"
  by (auto simp: wal_ok_def exists_file_def dest: log_repr_next_free)

lemma commit_record_appended:
  assumes wok: "wal_ok L w" and cu: "caught_up base w" and db: "w_database_id w = db"
    and c: "c = \<lparr>cc_transaction_id = txn, cc_expected_generation = base, cc_generation = base + 1\<rparr>"
    and u: "unique_ok L unique" and lsn: "w_next_lsn w + 1 < u64_limit"
    and rb: "reads_back (rec_json L) (record_new db (w_next_lsn w) txn (Catalog_Commit base (base + 1)))"
    and app: "append_record L f unique txn (Catalog_Commit base (base + 1)) w = (w1, q)"
  shows "record_decides L db base (w_next_lsn w) c (w_dir w1)"
    and "q = Inr v \<Longrightarrow> wal_ok L w1 \<and> w_database_id w1 = db \<and> one_ahead base c w1
      \<and> exists_file (w_dir w1) (record_name (w_next_lsn w))"
    and "q = Inl e \<Longrightarrow> e = CommitOutcomeUnknown \<or> \<not> exists_file (w_dir w1) (record_name (w_next_lsn w))"
proof -
  let ?r = "record_new db (w_next_lsn w) txn (Catalog_Commit base (base + 1))"
  obtain start recs where repr: "log_repr L (w_database_id w) (w_dir w) start recs"
    and nxt: "w_next_lsn w = start + length recs" and table: "try_fold apply_record [] recs = Inr (w_transactions w)"
    using wok by (auto simp: wal_ok_def)
  note out = append_record_outcome [OF repr nxt lsn u refl rb [folded db] app, unfolded db]
  have appended: "wal_ok L \<lparr>w_dir = w_dir w1, w_database_id = db, w_next_lsn = w_next_lsn w + 1, w_transactions = ts\<rparr>"
    and ahead: "one_ahead base c \<lparr>w_dir = w_dir w1, w_database_id = db, w_next_lsn = w_next_lsn w + 1, w_transactions = ts\<rparr>"
    if "log_repr L db (w_dir w1) start (recs @ [?r])" "apply_record (w_transactions w) ?r = Inr ts" for ts
    using appended_wal_ok [OF that(1) table that(2)] one_ahead_appended [OF cu, of db _ txn] that(2) c nxt by simp_all
  have logged: "log_has_commit L db base c (w_dir w1)"
    if "log_repr L db (w_dir w1) start (recs @ [?r])" "apply_record (w_transactions w) ?r = Inr ts" for ts
    unfolding log_has_commit_def using appended [OF that] ahead [OF that] by (intro exI conjI) auto
  have present: "exists_file (w_dir w1) (record_name (w_next_lsn w))" if "log_repr L db (w_dir w1) start (recs @ [?r])"
    using log_repr_snoc_exists [OF that] nxt by simp
  show ok: "wal_ok L w1 \<and> w_database_id w1 = db \<and> one_ahead base c w1
      \<and> exists_file (w_dir w1) (record_name (w_next_lsn w))" if "q = Inr v" for v
  proof -
    have "w1 = \<lparr>w_dir = w_dir w1, w_database_id = db, w_next_lsn = w_next_lsn w + 1, w_transactions = w_transactions w1\<rparr>"
      using out(1) out(2) [OF that] by (cases w1) simp
    then show ?thesis using appended ahead present out(1) out(2) [OF that] by metis
  qed
  have absent: "\<not> exists_file (w_dir w1) (record_name (w_next_lsn w)) \<and> wal_ok L w1 \<and> caught_up base w1"
    if "log_repr L db (w_dir w1) start recs" "w_next_lsn w1 = w_next_lsn w" "w_transactions w1 = w_transactions w"
    using that out(1) nxt table cu log_repr_next_free [OF that(1)]
    by (auto simp: wal_ok_def exists_file_def caught_up_def catalog_commits_def)
  show "e = CommitOutcomeUnknown \<or> \<not> exists_file (w_dir w1) (record_name (w_next_lsn w))" if "q = Inl e"
    using out(3) [OF that] absent by (auto simp: ambiguous_append_error_def)
  show "record_decides L db base (w_next_lsn w) c (w_dir w1)"
  proof (cases q)
    case (Inl e)
    then show ?thesis
      using out(1) out(3) [OF Inl] absent logged present by (auto simp: record_decides_def is_ok_conv)
  next
    case (Inr v)
    then show ?thesis using ok [OF Inr] by (auto simp: record_decides_def log_has_commit_def)
  qed
qed

text \<open>How far a commit got.  Before the record there is only the prepared generation; from the record on
  the new generation is prepared or visible, and visible whenever the result says so.\<close>

lemma published_stage:
  assumes pub: "publish_prepared E fault db base new txn dirs1 = (dirs2, q)"
  shows "q = Inl e \<Longrightarrow>
      catalog_publication_error e = NativeCommitPostCommitFailure (cs_generation new) \<and> load E dirs2 db = Inr new
      \<or> catalog_publication_error e = CommitOutcomeUnknown \<and> (load E dirs2 db = Inr new
        \<or> load E dirs2 db = load E dirs1 db \<and> generations_dir dirs2 = generations_dir dirs1)"
    and "q = Inr committed \<Longrightarrow> committed = new \<and> load E dirs2 db = Inr new"
    and "q = Inr committed \<Longrightarrow> prune_old_generations E fails db (cs_generation committed) dirs2 = (dirs3, q') \<Longrightarrow>
      load E dirs3 db = Inr new"
proof -
  note out = publish_prepared_outcome [OF pub]
  show "catalog_publication_error e = NativeCommitPostCommitFailure (cs_generation new) \<and> load E dirs2 db = Inr new
      \<or> catalog_publication_error e = CommitOutcomeUnknown \<and> (load E dirs2 db = Inr new
        \<or> load E dirs2 db = load E dirs1 db \<and> generations_dir dirs2 = generations_dir dirs1)" if "q = Inl e"
    using out that publish_generations [OF pub]
    by (auto simp: publish_outcome_def catalog_publication_error_def load_error_def split: if_splits)
  show published: "committed = new \<and> load E dirs2 db = Inr new" if "q = Inr committed"
    using out that by (simp add: publish_outcome_def)
  show "load E dirs3 db = Inr new"
    if q: "q = Inr committed" and prune: "prune_old_generations E fails db (cs_generation committed) dirs2 = (dirs3, q')"
  proof -
    have "load E dirs3 db = load E dirs2 db"
      by (rule sweep_keeps_load [OF prune [unfolded prune_old_generations_def]])
        (use load_read_current [of E dirs2 db new] published [OF q] in simp)
    then show ?thesis using published [OF q] by simp
  qed
qed

lemma commit_generation_stages:
  assumes rest: "at_rest E L dirs w old" and base: "base = cs_generation old" and db: "db = w_database_id w"
    and new: "new = next_state db (base + 1) txn schemas tables views" and st: "storable E new"
    and u: "unique_ok L unique2" and lsn: "w_next_lsn w + 1 < u64_limit"
    and rb: "reads_back (rec_json L) (record_new db (w_next_lsn w) txn (Catalog_Commit base (base + 1)))"
    and run: "commit_generation E L f unique1 unique2 base schemas tables views txn (dirs, w) = ((dirs', w'), r)"
    and c: "c = \<lparr>cc_transaction_id = txn, cc_expected_generation = base, cc_generation = base + 1\<rparr>"
  obtains (unprepared) e where "w' = w" and "load E dirs' db = Inr old" and "r = Inl e"
      and "load_error e \<or> e = InvalidArgument \<or> e = Catalog"
    | (unlogged) e where "prepared_for E db dirs' old new c" and "r = Inl (wal_commit_error e)"
      and "append_record L (cf_append f) unique2 txn (Catalog_Commit base (base + 1)) w = (w', Inl e)"
    | (logged) dirs1 v where "prepared_for E db dirs1 old new c"
      and "append_record L (cf_append f) unique2 txn (Catalog_Commit base (base + 1)) w = (w', Inr v)"
      and "load E dirs' db = Inr new \<or> load E dirs' db = load E dirs1 db \<and> generations_dir dirs' = generations_dir dirs1"
      and "r = Inl CommitOutcomeUnknown \<or> load E dirs' db = Inr new \<and> (r = Inr new \<or> (\<exists>g. r = Inl (NativeCommitPostCommitFailure g)))"
proof -
  have wok: "wal_ok L w" and ld: "load E dirs db = Inr old" and cu: "caught_up base w"
    using rest db base by (simp_all add: at_rest_def)
  obtain dirs1 q where prep: "prepare_catalog_commit E (cf_prepare f) unique1 db base schemas tables views txn dirs = (dirs1, q)"
    by (metis prod.exhaust)
  show thesis
  proof (cases q)
    case (Inl e)
    show thesis
      by (rule unprepared [of e])
        (use run prep Inl db ld prepare_catalog_commit_Inl [OF prep [unfolded Inl]] in \<open>simp_all add: commit_generation_def\<close>)
  next
    case (Inr prepared)
    have prepared: "prepared = new" "load E dirs1 db = Inr old" "load_generation E dirs1 db (base + 1) = Inr new"
      "base + 1 < u64_limit"
      using prepare_catalog_commit_Inr [OF prep [unfolded Inr] st [unfolded new]] ld new by (metis sum.inject(2))+
    have gen: "cs_generation new = base + 1" "cs_transaction_id new = Some txn" by (simp_all add: new next_state_def)
    then have pf: "prepared_for E db dirs1 old new c" using prepared base c by (simp add: prepared_for_def)
    obtain w1 q1 where app: "append_record L (cf_append f) unique2 txn (Catalog_Commit base (base + 1)) w = (w1, q1)"
      by (metis prod.exhaust)
    obtain dirs2 q2 where pub: "publish_prepared E (cf_publish f) db base new txn dirs1 = (dirs2, q2)"
      by (metis prod.exhaust)
    have run1: "((dirs', w'), r) = (case q1 of
        Inl e \<Rightarrow> ((dirs1, w1), Inl (wal_commit_error e))
      | Inr _ \<Rightarrow> (case q2 of
          Inl e \<Rightarrow> ((dirs2, w1), Inl (catalog_publication_error e))
        | Inr committed \<Rightarrow>
          if cf_inherited f then ((dirs2, w1), Inl (NativeCommitPostCommitFailure (cs_generation committed)))
          else (case prune_old_generations E (cf_prune f) db (cs_generation committed) dirs2 of
             (dirs3, Inl e) \<Rightarrow> ((dirs3, w1), Inl (NativeCommitPostCommitFailure (cs_generation committed)))
           | (dirs3, Inr _) \<Rightarrow> ((dirs3, w1), Inr committed))))"
      using run prep Inr app prepared(1) gen pub
      unfolding commit_generation_def commit_catalog_def prod.case db [symmetric] by (auto split: sum.splits)
    show thesis
    proof (cases q1)
      case (Inl e)
      then show thesis using unlogged [of e] pf app run1 by simp
    next
      case (Inr v)
      note stage = published_stage [OF pub]
      have "w' = w1" and "load E dirs' db = Inr new \<or> load E dirs' db = load E dirs1 db \<and> generations_dir dirs' = generations_dir dirs1"
        and "r = Inl CommitOutcomeUnknown \<or> load E dirs' db = Inr new \<and> (r = Inr new \<or> (\<exists>g. r = Inl (NativeCommitPostCommitFailure g)))"
        using run1 Inr stage by (auto split: sum.splits if_splits prod.splits)
      then show thesis using logged [of dirs1 v] pf app Inr by simp
    qed
  qed
qed

lemma open_at_rest: "at_rest E L dirs w old \<Longrightarrow> opens_with E L (w_database_id w) \<lparr>st_catalog = dirs, st_wal = w_dir w\<rparr> old"
  using open_caught_up [of L w "w_database_id w" E dirs old] by (simp add: at_rest_def)

text \<open>Whatever fails, the record of the commit decides: with it the next opening reaches the new catalog,
  after a failed attempt if the temporary file of the publication is left; without it, the old one.\<close>

lemma open_record_decides:
  assumes "record_decides L db (cs_generation old) lsn c d"
    and "prepared_for E db dirs1 old new c"
    and "load E dirs db = load E dirs1 db \<and> generations_dir dirs = generations_dir dirs1
      \<or> load E dirs db = Inr new \<and> exists_file d (record_name lsn)"
  shows "if exists_file d (record_name lsn)
    then opens_committed E L db (cc_transaction_id c) \<lparr>st_catalog = dirs, st_wal = d\<rparr> new
    else opens_with E L db \<lparr>st_catalog = dirs, st_wal = d\<rparr> old"
proof (cases "exists_file d (record_name lsn)")
  case True
  then have "log_has_commit L db (cs_generation old) c d" using assms(1) by (simp add: record_decides_def)
  then show ?thesis using open_with_commit [OF _ assms(2), of L d dirs] assms(3) True by auto
next
  case False
  then show ?thesis
    using open_caught_up [of L _ db E dirs old] assms by (auto simp: record_decides_def prepared_for_def)
qed

lemma commit_record_decides:
  assumes rest: "at_rest E L dirs w old" and base: "base = cs_generation old" and db: "db = w_database_id w"
    and new: "new = next_state db (base + 1) txn schemas tables views" and st: "storable E new"
    and u: "unique_ok L unique2" and lsn: "w_next_lsn w + 1 < u64_limit"
    and rb: "reads_back (rec_json L) (record_new db (w_next_lsn w) txn (Catalog_Commit base (base + 1)))"
    and run: "commit_generation E L f unique1 unique2 base schemas tables views txn (dirs, w) = ((dirs', w'), r)"
  shows "if exists_file (w_dir w') (record_name (w_next_lsn w))
    then opens_committed E L db txn \<lparr>st_catalog = dirs', st_wal = w_dir w'\<rparr> new
    else opens_with E L db \<lparr>st_catalog = dirs', st_wal = w_dir w'\<rparr> old"
proof -
  define c where "c = \<lparr>cc_transaction_id = txn, cc_expected_generation = base, cc_generation = base + 1\<rparr>"
  have w: "wal_ok L w" "caught_up base w" using rest base by (simp_all add: at_rest_def)
  have cid: "cc_transaction_id c = txn" by (simp add: c_def)
  note appended = commit_record_appended [OF w db [symmetric] c_def u lsn rb]
  show ?thesis
    using assms c_def
  proof (cases rule: commit_generation_stages)
    case unprepared
    then show ?thesis
      using open_caught_up [OF w(1) db [symmetric]] w base wal_ok_next_free [OF w(1)] by simp
  next
    case (unlogged e)
    then show ?thesis
      using open_record_decides [OF appended(1) [OF unlogged(3), unfolded base] unlogged(1), of dirs'] by (auto simp: cid)
  next
    case (logged dirs1 v)
    have "exists_file (w_dir w') (record_name (w_next_lsn w))" using appended(2) [OF logged(2) refl] by simp
    then show ?thesis
      using open_record_decides [OF appended(1) [OF logged(2), unfolded base] logged(1), of dirs'] logged(3)
      by (auto simp: cid)
  qed
qed

lemma commit_generation_recovers:
  assumes rest: "at_rest E L dirs w old" and base: "base = cs_generation old" and db: "db = w_database_id w"
    and new: "new = next_state db (base + 1) txn schemas tables views" and st: "storable E new"
    and u: "unique_ok L unique2" and lsn: "w_next_lsn w + 1 < u64_limit"
    and rb: "reads_back (rec_json L) (record_new db (w_next_lsn w) txn (Catalog_Commit base (base + 1)))"
    and run: "commit_generation E L f unique1 unique2 base schemas tables views txn (dirs, w) = ((dirs', w'), r)"
  shows "commit_outcome E L db old new \<lparr>st_catalog = dirs', st_wal = w_dir w'\<rparr> r"
    and "r = Inr committed \<Longrightarrow> at_rest E L dirs' w' new"
proof -
  define c where "c = \<lparr>cc_transaction_id = txn, cc_expected_generation = base, cc_generation = base + 1\<rparr>"
  have w: "wal_ok L w" "caught_up base w" using rest base by (simp_all add: at_rest_def)
  note appended = commit_record_appended [OF w db [symmetric] c_def u lsn rb]
  note decides = commit_record_decides [OF assms]
  have "commit_outcome E L db old new \<lparr>st_catalog = dirs', st_wal = w_dir w'\<rparr> r \<and> (r = Inr committed \<longrightarrow> at_rest E L dirs' w' new)"
    using assms c_def
  proof (cases rule: commit_generation_stages)
    case (unprepared e)
    then show ?thesis
      using decides wal_ok_next_free [OF w(1)] by (auto intro!: commit_outcome_old simp: load_error_def)
  next
    case (unlogged e)
    have "wal_commit_error e = CommitOutcomeUnknown \<or> wal_commit_error e = NativeStorage
        \<and> \<not> exists_file (w_dir w') (record_name (w_next_lsn w))"
      using wal_commit_error_cases [OF append_record_error [OF unlogged(3) lsn]] appended(3) [OF unlogged(3) refl] by auto
    then show ?thesis using decides unlogged(2) by (auto simp: commit_outcome_def opens_committed_def split: if_splits)
  next
    case (logged dirs1 v)
    note w' = appended(2) [OF logged(2) refl]
    have at: "at_rest E L dirs' w' new" if "load E dirs' db = Inr new"
      using that w' caught_up_one_ahead [of base c w' "cs_generation new"] by (simp add: at_rest_def new next_state_def)
    then show ?thesis
      using decides w' logged(4) open_at_rest [OF at] by (auto simp: commit_outcome_def opens_committed_def)
  qed
  then show "commit_outcome E L db old new \<lparr>st_catalog = dirs', st_wal = w_dir w'\<rparr> r"
    and "r = Inr committed \<Longrightarrow> at_rest E L dirs' w' new" by blast+
qed

section \<open>Crashes\<close>

text \<open>The states a crash can leave while a record is written.\<close>

definition log_states :: "log_env \<Rightarrow> string \<Rightarrow> wal_record \<Rightarrow> dir \<Rightarrow> dir list" where
  "log_states L unique r d = (case record_encode L r of
       Inl _ \<Rightarrow> [d]
     | Inr bytes \<Rightarrow>
         create_states (temporary_name (record_name (wr_lsn r)) unique) (record_name (wr_lsn r)) bytes d)"

lemma log_states_written:
  assumes "log_repr L db d start recs" and "start + length recs + 1 < u64_limit" and "unique_ok L unique"
    and "record_storable L db (start + length recs) r" and "s \<in> set (log_states L unique r d)"
  shows "written_or_not L db s start recs r"
proof (cases "record_encode L r")
  case (Inl e)
  then have "s = d" using assms(5) by (simp add: log_states_def)
  then show ?thesis
    using assms(1) log_repr_next_free [OF assms(1)] by (simp add: written_or_not_def exists_file_def)
next
  case (Inr bytes)
  let ?n = "record_name (start + length recs)"
  have s: "s \<in> set (create_states (temporary_name ?n unique) ?n bytes d)"
    using assms(4,5) Inr by (simp add: log_states_def record_storable_def)
  have "dir_ok d" using assms(1) by (simp add: log_repr_def)
  then have "dir_ok s" using dir_ok_states(1) s by blast
  then show ?thesis
    by (rule written_or_not_I [OF assms(1) _ assms(2-4) Inr]) (use create_states_atomic [OF s] in blast)
qed

text \<open>Where a commit can stop: before call \<open>k\<close> of the creation of the generation, of the creation of the
  record or of the replacement of the current generation, with \<open>n\<close> bytes written if the call is a write;
  while the manifests the new snapshots no longer inherit are removed; before or after the removal of an old
  generation.\<close>

datatype crash_point =
  Preparing nat nat | Logging nat nat | Publishing nat nat | Inheriting | Pruning string nat

text \<open>A crash is a fault after which nothing more runs: the temporary file is not removed, the append is
  not reconciled with the directory.\<close>

definition no_commit_faults :: commit_faults where
  "no_commit_faults = \<lparr>cf_prepare = No_Fault, cf_append = no_append_faults, cf_publish = No_Fault,
     cf_inherited = False, cf_prune = (\<lambda>_. None)\<rparr>"

definition crash_faults :: "crash_point \<Rightarrow> commit_faults" where
  "crash_faults p = (case p of
       Preparing k n \<Rightarrow> no_commit_faults\<lparr>cf_prepare := Fault k n True\<rparr>
     | Logging k n \<Rightarrow> no_commit_faults\<lparr>cf_append :=
         \<lparr>af_create = Fault k n True, af_inspect_fails = True, af_sync_fails = False\<rparr>\<rparr>
     | Publishing k n \<Rightarrow> no_commit_faults\<lparr>cf_publish := Fault k n True\<rparr>
     | Inheriting \<Rightarrow> no_commit_faults\<lparr>cf_inherited := True\<rparr>
     | Pruning name k \<Rightarrow> no_commit_faults\<lparr>cf_prune := (\<lambda>_. None)(name := Some k)\<rparr>)"

definition commit_crash_state ::
  "catalog_env \<Rightarrow> log_env \<Rightarrow> crash_point \<Rightarrow> string \<Rightarrow> string \<Rightarrow> nat \<Rightarrow> string list
   \<Rightarrow> (string \<times> table_reference) list \<Rightarrow> (string \<times> view_reference) list \<Rightarrow> string
   \<Rightarrow> catalog_dirs \<times> wal \<Rightarrow> stored" where
  "commit_crash_state E L p unique1 unique2 base schemas tables views txn dw =
     (case commit_generation E L (crash_faults p) unique1 unique2 base schemas tables views txn dw of
        ((dirs, w), _) \<Rightarrow> \<lparr>st_catalog = dirs, st_wal = w_dir w\<rparr>)"

text \<open>The crash points of the two file operations reach every state they go through.\<close>

lemma crash_points_create:
  assumes "\<not> exists_file d name" and "\<not> exists_file d tmp"
  shows "map (\<lambda>k. fst (atomic_create (Fault k 0 True) tmp name bytes d)) [0..<7] = create_states tmp name bytes d"
  using assms
  by (simp add: atomic_create_def create_states_def temporary_states_def failed_state_def cleanup_temporary_def Let_def
      upt_rec)

lemma crash_points_replace:
  assumes "exists_file d name" and "\<not> exists_file d tmp"
  shows "map (\<lambda>k. fst (atomic_replace (Fault k 0 True) tmp name bytes d)) [0..<6] = replace_states tmp name bytes d"
  using assms
  by (simp add: atomic_replace_def replace_states_def temporary_states_def failed_state_def cleanup_temporary_def Let_def
      upt_rec)

end
