(* ===== verification/Storage_Sample.thy ===== *)
theory Storage_Sample
  imports Commit_Recovery
begin

text \<open>
  A small database for the concrete instances of the storage properties: a JSON library that writes
  one byte per value, a catalog whose states are numbered, and the log of one transaction.
\<close>

section \<open>The JSON library\<close>

definition numbered_json :: "('v \<Rightarrow> nat) \<Rightarrow> (nat \<Rightarrow> 'v) \<Rightarrow> 'v json" where
  "numbered_json number state =
     \<lparr>compact_chunks = (\<lambda>v. [[of_nat (number v)]]),
      pretty_chunks = (\<lambda>(v, sha256). [[of_nat (number v)]]),
      from_slice = (\<lambda>bytes. case bytes of [n, _] \<Rightarrow> Some (state (unat n), ''h'') | _ \<Rightarrow> None),
      digest = (\<lambda>_. ''h'')\<rparr>"

lemma numbered_json_simps [simp]:
  "compact_chunks (numbered_json number state) v = [[of_nat (number v)]]"
  "pretty_chunks (numbered_json number state) (v, sha256) = [[of_nat (number v)]]"
  "from_slice (numbered_json number state) [n, m] = Some (state (unat n), ''h'')"
  "value_digest (numbered_json number state) v = ''h''"
  by (simp_all add: numbered_json_def value_digest_def)

lemma numbered_reads_back: "number v < 256 \<Longrightarrow> state (number v) = v \<Longrightarrow> reads_back (numbered_json number state) v"
  by (simp add: reads_back_def unat_of_nat)

lemma numbered_sha256: "1 \<le> max_bytes \<Longrightarrow> json_sha256 (numbered_json number state) max_bytes v = Inr ''h''"
  by (simp add: json_sha256_eq)

lemma numbered_seal: "2 \<le> max_bytes \<Longrightarrow> seal (numbered_json number state) max_bytes v = Inr [of_nat (number v), 10]"
  by (simp add: seal_def numbered_sha256 encode_bounded_eq)

section \<open>The catalog\<close>

definition sample_state :: "nat \<Rightarrow> catalog_state" where
  "sample_state g = (if g = 0 then initial_state ''db'' else next_state ''db'' g ''t'' [DEFAULT_SCHEMA] [] [])"

definition sample_env :: catalog_env where
  "sample_env = \<lparr>cat_json = numbered_json cs_generation sample_state, uuid_ok = (\<lambda>s. s = ''t''),
     from_flatbuffer = (\<lambda>_. Some ())\<rparr>"

definition sample_dirs :: "nat list \<Rightarrow> nat \<Rightarrow> catalog_dirs" where
  "sample_dirs gs current =
     \<lparr>catalog_dir = [(''CURRENT'', ascii (show_nat current @ [CHR 0x0A]), True)],
      generations_dir = map (\<lambda>g. (generation_name g, [of_nat g, 10], True)) gs\<rparr>"

lemma sample_state_fields [simp]:
  "cs_generation (sample_state g) = g" "cs_database_id (sample_state g) = ''db''"
  "cs_format_version (sample_state g) = FORMAT_VERSION"
  "cs_schemas (sample_state g) = [DEFAULT_SCHEMA]" "cs_tables (sample_state g) = []" "cs_views (sample_state g) = []"
  by (simp_all add: sample_state_def initial_state_def next_state_def INITIAL_GENERATION_def)

lemma sample_valid [simp]: "validate_state sample_env (sample_state g) = Inr ()"
  by (simp add: validate_state_def validate_catalog_def validate_schemas_def validate_name_def
      validate_tables_def DEFAULT_SCHEMA_def MAX_TABLE_NAME_BYTES_def to_ascii_lowercase_def ascii_lower_def result_simps)

lemma sample_storable: "g < 256 \<Longrightarrow> storable sample_env (sample_state g)"
  by (simp add: storable_def sample_env_def numbered_reads_back)

lemma sample_budget: "generation_budget (sample_state g) = Inr 8192"
  by (simp add: generation_budget_def CATALOG_GENERATION_BUDGET_PER_TABLE_BYTES_def checked_mul_def checked_add_def
      saturating_add_def MAX_CATALOG_MANIFEST_BYTES_def result_simps)

lemma sample_encode: "g < 256 \<Longrightarrow> encode_generation sample_env (sample_state g) = Inr [of_nat g, 10]"
  by (simp add: encode_generation_def sample_budget result_simps sample_env_def numbered_seal)

lemma sample_read:
  assumes "lookup_file (generations_dir dirs) (generation_name g) = Some ([of_nat g, 10], s)" and "g < 256"
  shows "read_generation sample_env dirs g = Inr (sample_state g)"
  unfolding read_generation_file
  using generation_file.read_lookup [OF sample_storable [OF assms(2)] sample_encode [OF assms(2)] assms(1)] .

lemma sample_load:
  assumes "lookup_file (catalog_dir dirs) ''CURRENT'' = Some (ascii (show_nat g @ [CHR 0x0A]), s)"
    and "lookup_file (generations_dir dirs) (generation_name g) = Some ([of_nat g, 10], s')" and "g < 256"
  shows "load sample_env dirs ''db'' = Inr (sample_state g)"
proof -
  have "read_current dirs = Inr g"
    using read_current_written [OF encode_current_Inr] assms by simp
  then show ?thesis by (simp add: load_def sample_read [OF assms(2,3)] result_simps)
qed

lemma lookup_sample_generation:
  "g \<in> set gs \<Longrightarrow> lookup_file (generations_dir (sample_dirs gs current)) (generation_name g) = Some ([of_nat g, 10], True)"
  by (induction gs) (auto simp: sample_dirs_def lookup_file_def generation_name_def pad_dec_inject)

lemma sample_dirs_load: "g \<in> set gs \<Longrightarrow> g < 256 \<Longrightarrow> load sample_env (sample_dirs gs g) ''db'' = Inr (sample_state g)"
  by (rule sample_load [OF _ lookup_sample_generation]) (simp_all add: sample_dirs_def lookup_file_def)

section \<open>The log\<close>

definition sample_record :: "nat \<Rightarrow> wal_record" where
  "sample_record lsn = record_new ''db'' lsn ''t'' (if lsn = 1 then Begin 0 ReadWrite else Catalog_Commit 0 1)"

definition sample_checkpoint :: "nat \<Rightarrow> checkpoint" where
  "sample_checkpoint lsn = \<lparr>cp_format_version = CHECKPOINT_FORMAT_VERSION, cp_database_id = ''db'',
     cp_next_lsn = lsn, cp_catalog_generation = 1\<rparr>"

definition sample_log :: log_env where
  "sample_log = \<lparr>rec_json = numbered_json wr_lsn sample_record, cp_json = numbered_json cp_next_lsn sample_checkpoint,
     log_uuid_ok = (\<lambda>s. s = ''t'' \<or> s = ''u'')\<rparr>"

lemma sample_record_reads_back: "lsn < 256 \<Longrightarrow> reads_back (rec_json sample_log) (sample_record lsn)"
  by (simp add: sample_log_def numbered_reads_back sample_record_def record_new_def)

lemma sample_checkpoint_reads_back: "lsn < 256 \<Longrightarrow> reads_back (cp_json sample_log) (sample_checkpoint lsn)"
  by (simp add: sample_log_def numbered_reads_back sample_checkpoint_def)

lemma sample_unique: "unique_ok sample_log ''u''"
  by (simp add: unique_ok_def sample_log_def)

text \<open>The log after the transaction began, and after it committed.\<close>

definition sample_wal :: "nat \<Rightarrow> wal" where
  "sample_wal n = \<lparr>w_dir = map (\<lambda>lsn. (record_name lsn, [of_nat lsn, 10], True)) [1..<Suc n], w_database_id = ''db'',
     w_next_lsn = Suc n,
     w_transactions = (if n = 0 then [] else
       [(''t'', if n = 1 then Active else CatalogCommitted \<lparr>cc_transaction_id = ''t'', cc_expected_generation = 0, cc_generation = 1\<rparr>)])\<rparr>"

lemma sample_wal_empty: "sample_wal 0 = wal_empty ''db''"
  by (simp add: sample_wal_def wal_empty_def)

lemma sample_record_encode:
  "lsn = 1 \<or> lsn = 2 \<Longrightarrow> record_encode sample_log (sample_record lsn) = Inr [of_nat lsn, 10]"
  by (auto simp: record_encode_def record_validate_def sample_record_def record_new_def RECORD_FORMAT_VERSION_def
      sample_log_def numbered_seal MAX_RECORD_BYTES_def result_simps checked_add_def)

lemma sample_record_lsn [simp]: "wr_lsn (sample_record lsn) = lsn"
  by (simp add: sample_record_def record_new_def)

lemmas sample_file_simps = atomic_create_def create_states_def temporary_states_def Let_def exists_file_def
  lookup_file_def put_file_def remove_entry_def record_name_def pad_dec_inject temporary_name_neq
  numbered_not_temporary numbered_not_temporary [symmetric]

lemma sample_record_write:
  "lsn = 1 \<or> lsn = 2 \<Longrightarrow> record_write sample_log No_Fault ''u'' (sample_record lsn) (w_dir (sample_wal (lsn - 1)))
     = (w_dir (sample_wal lsn), Inr ())"
  by (elim disjE) (simp_all add: record_write_def sample_record_encode sample_wal_def sample_file_simps upt_rec)

lemma sample_records: "record_new ''db'' 1 ''t'' (Begin 0 ReadWrite) = sample_record 1"
  "record_new ''db'' 2 ''t'' (Catalog_Commit 0 1) = sample_record 2"
  by (simp_all add: sample_record_def)

lemma append_record_run:
  assumes "record_new (w_database_id w) (w_next_lsn w) txn kind = r"
    and "record_write L (af_create f) unique r (w_dir w) = (d, Inr ())"
    and "apply_record (w_transactions w) r = Inr ts" and "w_next_lsn w + 1 < u64_limit"
  shows "append_record L f unique txn kind w = (w\<lparr>w_dir := d, w_transactions := ts, w_next_lsn := w_next_lsn w + 1\<rparr>, Inr ())"
proof -
  have "validate_transition (w_transactions w) txn kind = Inr ()"
    using assms(1,3) by (cases "validate_transition (w_transactions w) txn kind")
      (auto simp: apply_record_def record_new_def)
  then show ?thesis using assms by (simp add: append_record_def Let_def checked_add_def)
qed

lemma sample_append:
  assumes "lsn = 1 \<or> lsn = 2" and "af_create f = No_Fault"
  shows "append_record sample_log f ''u'' ''t'' (wr_kind (sample_record lsn)) (sample_wal (lsn - 1)) = (sample_wal lsn, Inr ())"
proof -
  let ?w = "sample_wal (lsn - 1)"
  have r: "record_new (w_database_id ?w) (w_next_lsn ?w) ''t'' (wr_kind (sample_record lsn)) = sample_record lsn"
    using assms(1) by (auto simp: sample_wal_def sample_record_def record_new_def)
  have "apply_record (w_transactions ?w) (sample_record lsn) = Inr (w_transactions (sample_wal lsn))"
    using assms(1) by (auto simp: apply_record_def validate_transition_def next_transaction_state_def sample_wal_def
      sample_record_def record_new_def)
  have small: "w_next_lsn ?w + 1 < u64_limit" using assms(1) by (auto simp: sample_wal_def)
  have "record_write sample_log (af_create f) ''u'' (sample_record lsn) (w_dir ?w) = (w_dir (sample_wal lsn), Inr ())"
    unfolding assms(2) by (rule sample_record_write [OF assms(1)])
  from append_record_run [OF r this _ small] \<open>apply_record _ _ = _\<close>
  have "append_record sample_log f ''u'' ''t'' (wr_kind (sample_record lsn)) ?w =
    (?w\<lparr>w_dir := w_dir (sample_wal lsn), w_transactions := w_transactions (sample_wal lsn), w_next_lsn := w_next_lsn ?w + 1\<rparr>, Inr ())"
    by simp
  moreover have "?w\<lparr>w_dir := w_dir (sample_wal lsn), w_transactions := w_transactions (sample_wal lsn), w_next_lsn := w_next_lsn ?w + 1\<rparr>
    = sample_wal lsn" using assms(1) by (auto simp: sample_wal_def)
  ultimately show ?thesis by simp
qed

lemma sample_begin: "wal_begin sample_log no_append_faults ''u'' ''t'' 0 (sample_wal 0) = (sample_wal 1, Inr ())"
  using sample_append [of 1 no_append_faults]
  by (simp add: wal_begin_def sample_log_def no_append_faults_def sample_record_def record_new_def)

lemma sample_log_step:
  assumes "lsn = 1 \<or> lsn = 2"
  shows "log_step sample_log (sample_wal (lsn - 1)) (sample_wal lsn)"
proof (rule log_step.appended [OF sample_append [OF assms, of no_append_faults]])
  have "record_new ''db'' (w_next_lsn (sample_wal (lsn - 1))) ''t'' (wr_kind (sample_record lsn)) = sample_record lsn"
    using assms by (auto simp: sample_wal_def sample_record_def record_new_def)
  then show "reads_back (rec_json sample_log) (record_new (w_database_id (sample_wal (lsn - 1)))
      (w_next_lsn (sample_wal (lsn - 1))) ''t'' (wr_kind (sample_record lsn)))"
    using assms sample_record_reads_back [of lsn] by (auto simp: sample_wal_def)
  show "w_next_lsn (sample_wal (lsn - 1)) + 1 < u64_limit" using assms by (auto simp: sample_wal_def)
qed (simp_all add: sample_unique no_append_faults_def)

lemma sample_log_steps: "n \<le> 2 \<Longrightarrow> (log_step sample_log)\<^sup>*\<^sup>* (sample_wal 0) (sample_wal n)"
proof -
  assume "n \<le> 2"
  then consider "n = 0" | "n = 1" | "n = 2" by linarith
  then show ?thesis
    using sample_log_step [of 1] sample_log_step [of 2] by cases (auto intro: rtranclp.rtrancl_into_rtrancl)
qed

lemma sample_wal_ok: "n \<le> 2 \<Longrightarrow> wal_ok sample_log (sample_wal n)"
  using log_steps_ok [OF sample_log_steps] wal_empty_ok sample_wal_empty by metis

lemma sample_wal_checkpoint:
  "wal_checkpoint sample_log No_Fault ''u'' (\<lambda>_. None) 1 (sample_wal 2) =
     (\<lparr>w_dir = [(CHECKPOINT_FILE, [3, 10], True)], w_database_id = ''db'', w_next_lsn = 3, w_transactions = []\<rparr>, Inr 2)"
proof -
  have "checkpoint_encode sample_log ''db'' (sample_checkpoint 3) = Inr [3, 10]"
    by (simp add: checkpoint_encode_def checkpoint_validate_def sample_checkpoint_def result_simps sample_log_def numbered_seal
        CHECKPOINT_MAX_BYTES_def)
  then have "checkpoint_write sample_log No_Fault ''u'' ''db'' 3 1 (w_dir (sample_wal 2)) =
      ((w_dir (sample_wal 2)) @ [(CHECKPOINT_FILE, [3, 10], True)], Inr ())"
    by (simp add: checkpoint_write_def sample_checkpoint_def sample_wal_def upt_rec sample_file_simps
        record_name_not_checkpoint [unfolded record_name_def])
  moreover have "remove_records (\<lambda>_. None) 3 (map fst (w_dir (sample_wal 2) @ [(CHECKPOINT_FILE, [3, 10], True)]))
      (w_dir (sample_wal 2) @ [(CHECKPOINT_FILE, [3, 10], True)]) 0 = ([(CHECKPOINT_FILE, [3, 10], True)], Inr 2)"
    by (simp add: sample_wal_def upt_rec remove_file_def lsn_from_record_name saturating_add_def exists_file_def lookup_file_def
        remove_entry_def) (auto simp: record_name_def pad_dec_inject intro: exI [of _ True])
  ultimately show ?thesis by (simp add: wal_checkpoint_def sample_wal_def)
qed

section \<open>A commit\<close>

lemma sample_wal_fields [simp]: "w_database_id (sample_wal n) = ''db''" "w_next_lsn (sample_wal n) = Suc n"
  by (simp_all add: sample_wal_def)

lemma sample_next: "next_state ''db'' 1 ''t'' [DEFAULT_SCHEMA] [] [] = sample_state 1"
  by (simp add: sample_state_def)

lemma sample_ensure: "ensure_generation sample_env No_Fault ''u'' (sample_state 1) (sample_dirs [0] 0) = (sample_dirs [0, 1] 0, Inr ())"
  using sample_encode [of 1]
  by (simp add: ensure_generation_def write_generation_def sample_dirs_def sample_file_simps generation_name_def)

lemma sample_prepare:
  "prepare_catalog_commit sample_env No_Fault ''u'' ''db'' 0 [DEFAULT_SCHEMA] [] [] ''t'' (sample_dirs [0] 0)
     = (sample_dirs [0, 1] 0, Inr (sample_state 1))"
  using sample_dirs_load [of 0 "[0]"] sample_ensure sample_valid [of 1] sample_next
  by (simp add: prepare_catalog_commit_def sample_env_def [THEN arg_cong [of _ _ uuid_ok]] checked_add_def Let_def)

lemma sample_publish:
  "publish_prepared sample_env No_Fault ''db'' 0 (sample_state 1) ''t'' (sample_dirs [0, 1] 0)
     = (sample_dirs [0, 1] 1, Inr (sample_state 1))"
proof -
  have "load_generation sample_env (sample_dirs [0, 1] 0) ''db'' 1 = Inr (sample_state 1)"
    using sample_read [OF lookup_sample_generation, of 1 "[0, 1]" 0] by (simp add: load_generation_def result_simps)
  then have "publish_checks sample_env (sample_dirs [0, 1] 0) ''db'' 0 (sample_state 1) ''t'' = encode_current 1"
    using sample_dirs_load [of 0 "[0, 1]"]
    by (simp add: publish_checks_def checked_add_def result_simps) (simp add: sample_state_def next_state_def)
  moreover have "atomic_replace No_Fault (temporary_name ''CURRENT'' ''t'') ''CURRENT'' (ascii (show_nat 1 @ [CHR 0x0A]))
      (catalog_dir (sample_dirs [0, 1] 0)) = (catalog_dir (sample_dirs [0, 1] 1), Inr ())"
    by (subst atomic_replace_ok) (simp_all add: sample_dirs_def exists_file_def lookup_file_def put_file_def temporary_name_def)
  moreover have "(sample_dirs [0, 1] 0)\<lparr>catalog_dir := catalog_dir (sample_dirs [0, 1] 1)\<rparr> = sample_dirs [0, 1] 1"
    by (simp add: sample_dirs_def)
  ultimately show ?thesis
    using sample_dirs_load [of 1 "[0, 1]"] by (simp add: publish_prepared_def read_fails_def encode_current_Inr)
qed

lemma sample_prune:
  "prune_old_generations sample_env (\<lambda>_. None) ''db'' 1 (sample_dirs [0, 1] 1) = (sample_dirs [1] 1, Inr ())"
proof -
  have "removable sample_env ''db'' (\<lambda>g. 1 \<le> g) (sample_dirs [0, 1] 1) (generation_name 0)"
    using sample_read [OF lookup_sample_generation, of 0 "[0, 1]" 1]
    by (simp add: removable_def generation_from_name_name validate_tables_def)
  moreover have "\<not> removable sample_env ''db'' (\<lambda>g. 1 \<le> g) dirs (generation_name 1)" for dirs
    by (simp add: removable_def generation_from_name_name)
  ultimately show ?thesis
    by (simp add: prune_old_generations_def sample_dirs_def remove_file_def sample_file_simps)
qed

lemma sample_logged: "commit_catalog sample_log no_append_faults ''u'' ''t'' 0 1 (sample_wal 1) = (sample_wal 2, Inr ())"
  using sample_append [of 2 no_append_faults]
  by (simp add: commit_catalog_def no_append_faults_def sample_record_def record_new_def)

lemma sample_commit:
  "commit_generation sample_env sample_log no_commit_faults ''u'' ''u'' 0 [DEFAULT_SCHEMA] [] [] ''t'' (sample_dirs [0] 0, sample_wal 1)
     = ((sample_dirs [1] 1, sample_wal 2), Inr (sample_state 1))"
  using sample_prepare sample_logged sample_publish sample_prune by (simp add: commit_generation_def no_commit_faults_def)

lemma sample_crash:
  "st_wal (commit_crash_state sample_env sample_log (Publishing k n) ''u'' ''u'' 0 [DEFAULT_SCHEMA] [] [] ''t''
     (sample_dirs [0] 0, sample_wal 1)) = w_dir (sample_wal 2)"
  using sample_prepare sample_logged
  by (auto simp: commit_crash_state_def crash_faults_def no_commit_faults_def commit_generation_def
      split: prod.splits sum.splits)

lemma sample_at_rest: "at_rest sample_env sample_log (sample_dirs [0] 0) (sample_wal 1) (sample_state 0)"
  using sample_wal_ok [of 1] sample_dirs_load [of 0 "[0]"]
  by (simp add: at_rest_def caught_up_def catalog_commits_def) (simp add: sample_wal_def)

end
