(* ===== verification/Accounting.thy ===== *)
theory Accounting
  imports Native_Error
begin

text \<open>
  Byte accounting against a limit.  Several components of the engine hand out bytes from a limited
  total (the disk budget of a snapshot, a node of the memory tree, a spill scope); each has a
  \<open>reserve\<close> that fails rather than exceed the limit and a \<open>release\<close> that gives bytes back.  The
  locale states that contract once; its lemmas cover every sequence of such operations.
\<close>

datatype account_op = Reserve nat | Release nat

locale byte_account =
  fixes used :: "'s \<Rightarrow> nat"
    and limit :: "'s \<Rightarrow> nat"
    and ok :: "'s \<Rightarrow> bool"
    and reserve :: "nat \<Rightarrow> 's \<Rightarrow> ('e, 's) result"
    and release :: "nat \<Rightarrow> 's \<Rightarrow> 's"
  assumes bounded: "ok s \<Longrightarrow> used s \<le> limit s"
    and reserve_Inr: "ok s \<Longrightarrow> reserve n s = Inr s' \<Longrightarrow>
      ok s' \<and> used s' = used s + n \<and> limit s' = limit s"
    and reserve_is_ok: "ok s \<Longrightarrow> is_ok (reserve n s) \<longleftrightarrow> used s + n \<le> limit s"
    and release_used: "ok s \<Longrightarrow> ok (release n s) \<and> used (release n s) = used s - n
      \<and> limit (release n s) = limit s"
begin

text \<open>A failed reservation leaves the account as it was.\<close>

fun step :: "'s \<Rightarrow> account_op \<Rightarrow> 's" where
  "step s (Reserve n) = (case reserve n s of Inr s' \<Rightarrow> s' | Inl _ \<Rightarrow> s)"
| "step s (Release n) = release n s"

lemma step_ok: "ok s \<Longrightarrow> ok (step s op) \<and> limit (step s op) = limit s"
  using reserve_Inr release_used by (cases op) (auto split: sum.split)

lemma run_bounded:
  assumes "ok s"
  shows "ok (foldl step s ops) \<and> used (foldl step s ops) \<le> limit s
    \<and> limit (foldl step s ops) = limit s"
  using assms
proof (induction ops arbitrary: s)
  case (Cons op ops)
  then show ?case using step_ok [of s op] Cons.IH [of "step s op"] by simp
qed (simp add: bounded)

lemma reserve_release:
  assumes "ok s" and "reserve n s = Inr s'"
  shows "used (release n s') = used s \<and> ok (release n s')"
  using reserve_Inr [OF assms] release_used by simp

lemma reserve_all:
  assumes "ok s" and "used s + sum_list ns \<le> limit s"
  shows "\<exists>s'. try_fold (\<lambda>s n. reserve n s) s ns = Inr s' \<and> ok s' \<and> used s' = used s + sum_list ns"
  using assms
proof (induction ns arbitrary: s)
  case (Cons n ns)
  then have "is_ok (reserve n s)" by (simp add: reserve_is_ok)
  then obtain s' where s': "reserve n s = Inr s'" by (auto simp: is_ok_conv)
  with Cons reserve_Inr [of s n s'] have "ok s'" "used s' = used s + n" "limit s' = limit s" by auto
  with Cons.IH [of s'] Cons.prems s' show ?case by (simp add: add.assoc)
qed simp

end

section \<open>The disk budget of a snapshot\<close>

text \<open>\<open>storage/native/disk_budget.rs\<close>.  The budget is shared behind a lock; each operation runs to
  completion under the lock, so it is a function on the locked state.\<close>

record disk_budget =
  db_limit :: nat
  db_used :: nat

definition disk_budget_new :: "nat \<Rightarrow> disk_budget" where
  "disk_budget_new limit = \<lparr>db_limit = limit, db_used = 0\<rparr>"

definition budget_reserve :: "nat \<Rightarrow> disk_budget \<Rightarrow> (db_error, disk_budget) result" where
  "budget_reserve bytes state =
     bindr (ok_or (checked_add (db_used state) bytes) Io) (\<lambda>projected.
     if projected > db_limit state then Inl Io
     else Inr (state\<lparr>db_used := projected\<rparr>))"

definition budget_release :: "nat \<Rightarrow> disk_budget \<Rightarrow> disk_budget" where
  "budget_release bytes state = state\<lparr>db_used := saturating_sub (db_used state) bytes\<rparr>"

definition raise_limit :: "nat \<Rightarrow> disk_budget \<Rightarrow> disk_budget" where
  "raise_limit limit state = state\<lparr>db_limit := max (db_limit state) limit\<rparr>"

definition reserve_metadata :: "nat \<Rightarrow> disk_budget \<Rightarrow> (db_error, disk_budget) result" where
  "reserve_metadata bytes state = (case budget_reserve bytes state of
       Inl _ \<Rightarrow> Inl ResourceExhausted | Inr s \<Rightarrow> Inr s)"

text \<open>\<open>QuotaFile::write\<close>: the outcome of the underlying write is an argument, the number of bytes
  written or a failure.\<close>

definition quota_write :: "nat \<Rightarrow> nat option \<Rightarrow> disk_budget \<Rightarrow> disk_budget \<times> (db_error, nat) result" where
  "quota_write requested outcome state = (case budget_reserve requested state of
       Inl e \<Rightarrow> (state, Inl e)
     | Inr state' \<Rightarrow> (case outcome of
           Some written \<Rightarrow> (budget_release (saturating_sub requested written) state', Inr written)
         | None \<Rightarrow> (budget_release requested state', Inl Io)))"

definition budget_ok :: "disk_budget \<Rightarrow> bool" where
  "budget_ok s \<longleftrightarrow> db_used s \<le> db_limit s \<and> db_limit s < u64_limit"

interpretation disk: byte_account db_used db_limit budget_ok budget_reserve budget_release
proof
  fix s :: disk_budget and n
  show "budget_ok s \<Longrightarrow> db_used s \<le> db_limit s" by (simp add: budget_ok_def)
  show "budget_ok s \<Longrightarrow> is_ok (budget_reserve n s) \<longleftrightarrow> db_used s + n \<le> db_limit s"
    by (auto simp: budget_ok_def budget_reserve_def checked_add_def)
  show "budget_ok s \<Longrightarrow> budget_ok (budget_release n s) \<and> db_used (budget_release n s) = db_used s - n
      \<and> db_limit (budget_release n s) = db_limit s"
    by (auto simp: budget_ok_def budget_release_def)
next
  fix s s' :: disk_budget and n
  show "budget_ok s \<Longrightarrow> budget_reserve n s = Inr s' \<Longrightarrow>
      budget_ok s' \<and> db_used s' = db_used s + n \<and> db_limit s' = db_limit s"
    by (auto simp: budget_ok_def budget_reserve_def result_simps split: if_splits)
qed

lemma disk_budget_new_ok: "limit < u64_limit \<Longrightarrow> budget_ok (disk_budget_new limit)"
  by (simp add: budget_ok_def disk_budget_new_def)

text \<open>A write through the quota file charges exactly the bytes that reached the file, whatever the
  underlying write did.\<close>

lemma quota_write_used:
  assumes "budget_ok s" and "quota_write requested outcome s = (s', r)"
    and "\<And>w. outcome = Some w \<Longrightarrow> w \<le> requested"
  shows "budget_ok s' \<and> db_limit s' = db_limit s
    \<and> db_used s' = db_used s + (case r of Inr w \<Rightarrow> w | Inl _ \<Rightarrow> 0)"
proof (cases "budget_reserve requested s")
  case (Inr t)
  note t = disk.reserve_Inr [OF assms(1) Inr]
  show ?thesis
    using assms(2,3) t disk.release_used [of t]
    by (cases outcome) (auto simp: quota_write_def Inr)
qed (use assms in \<open>auto simp: quota_write_def\<close>)

end
