(* ===== verification/Delete_Vector.thy ===== *)
theory Delete_Vector
  imports Accounting Durable_Io Sidecar_Format
begin

text \<open>
  Delete vectors of native segments (\<open>storage/native/table/delete_vector.rs\<close>): a bitmap of deleted
  rows with its count, its byte format, and the checksummed file it is stored in.  The digest of the
  file is a parameter; directory contents are a map from paths to bytes.
\<close>

section \<open>Definitions\<close>

definition DV_MAGIC :: "byte list" where
  "DV_MAGIC = ascii ''RDBDV001''"

definition DV_FORMAT_VERSION :: nat where
  "DV_FORMAT_VERSION = 1"

definition DV_HEADER_BYTES :: nat where
  "DV_HEADER_BYTES = 8 + 4 + 8 + 8"

definition DV_MAX_FILE_BYTES :: nat where
  "DV_MAX_FILE_BYTES = 512 * 1024 * 1024"

record delete_vector_descriptor =
  dvd_owner_version :: nat
  dvd_owner_snapshot_id :: string
  dvd_format_version :: nat
  dvd_row_count :: nat
  dvd_deleted_rows :: nat
  dvd_bytes :: nat
  dvd_sha256 :: string

record delete_vector =
  dv_row_count :: nat
  dv_deleted_rows :: nat
  dv_bits :: "byte list"

definition bit_bytes :: "nat \<Rightarrow> (db_error, nat) result" where
  "bit_bytes row_count = bindr (ok_or (checked_add row_count 7) ResourceExhausted) (\<lambda>n. Inr (n div 8))"

text \<open>The loop of \<open>from_offsets\<close>; \<open>bits[byte]\<close> outside the bitmap and a count beyond \<open>u64\<close> would
  panic.\<close>

definition mark_offset ::
  "nat \<Rightarrow> byte list \<times> nat \<Rightarrow> nat \<Rightarrow> (db_error, byte list \<times> nat) result" where
  "mark_offset row_count = (\<lambda>(bits, deleted_rows) offset.
     if offset \<ge> row_count then Inl InvalidArgument
     else if offset div 8 \<ge> length bits then Inl Panic
     else if \<not> test_bit bits offset then
       (if deleted_rows + 1 < u64_limit then Inr (set_bit_at bits offset, deleted_rows + 1)
        else Inl Panic)
     else Inr (bits, deleted_rows))"

definition from_offsets :: "nat \<Rightarrow> nat list \<Rightarrow> (db_error, delete_vector) result" where
  "from_offsets row_count offsets =
     bindr (bit_bytes row_count) (\<lambda>n.
     bindr (ok_or (checked_add DV_HEADER_BYTES n) ResourceExhausted) (\<lambda>total_bytes.
     if total_bytes > DV_MAX_FILE_BYTES then Inl ResourceExhausted
     else bindr (try_fold (mark_offset row_count) (replicate n 0, 0) offsets) (\<lambda>(bits, deleted_rows).
     Inr \<lparr>dv_row_count = row_count, dv_deleted_rows = deleted_rows, dv_bits = bits\<rparr>)))"

definition dv_empty :: "nat \<Rightarrow> (db_error, delete_vector) result" where
  "dv_empty row_count = from_offsets row_count []"

definition dv_contains :: "delete_vector \<Rightarrow> nat \<Rightarrow> (db_error, bool) result" where
  "dv_contains v offset =
     (if offset \<ge> dv_row_count v then Inr False
      else if offset div 8 \<ge> length (dv_bits v) then Inl Panic
      else Inr (test_bit (dv_bits v) offset))"

definition mark_deleted :: "delete_vector \<Rightarrow> nat \<Rightarrow> delete_vector \<times> (db_error, bool) result" where
  "mark_deleted v offset =
     (if offset \<ge> dv_row_count v then (v, Inl InvalidArgument)
      else if offset div 8 \<ge> length (dv_bits v) then (v, Inl Panic)
      else if test_bit (dv_bits v) offset then (v, Inr False)
      else let v' = v\<lparr>dv_bits := set_bit_at (dv_bits v) offset\<rparr> in
        (case checked_add (dv_deleted_rows v) 1 of
           None \<Rightarrow> (v', Inl ResourceExhausted)
         | Some n \<Rightarrow> (v'\<lparr>dv_deleted_rows := n\<rparr>, Inr True)))"

definition dv_encode :: "delete_vector \<Rightarrow> (db_error, byte list) result" where
  "dv_encode v =
     bindr (ok_or (checked_add DV_HEADER_BYTES (length (dv_bits v))) ResourceExhausted) (\<lambda>_.
     Inr (DV_MAGIC @ to_le 4 DV_FORMAT_VERSION @ to_le 8 (dv_row_count v)
          @ to_le 8 (dv_deleted_rows v) @ dv_bits v))"

definition dv_decode :: "byte list \<Rightarrow> (db_error, delete_vector) result" where
  "dv_decode bytes =
     (if length bytes < DV_HEADER_BYTES \<or> take 8 bytes \<noteq> DV_MAGIC then Inl NativeStorage
      else let version = from_le (take 4 (drop 8 bytes)) in
      if version \<noteq> DV_FORMAT_VERSION then Inl NativeStorage
      else let row_count = from_le (take 8 (drop 12 bytes));
               deleted_rows = from_le (take 8 (drop 20 bytes)) in
      bindr (bit_bytes row_count) (\<lambda>n.
      bindr (ok_or (checked_add DV_HEADER_BYTES n) NativeStorage) (\<lambda>expected.
      if length bytes \<noteq> expected then Inl NativeStorage
      else let bits = drop DV_HEADER_BYTES bytes in
      if total_ones bits \<noteq> deleted_rows \<or> deleted_rows > row_count then Inl NativeStorage
      else if row_count mod 8 \<noteq> 0 \<and> bits \<noteq> [] \<and> drop_bit (row_count mod 8) (last bits) \<noteq> 0
      then Inl NativeStorage
      else Inr \<lparr>dv_row_count = row_count, dv_deleted_rows = deleted_rows, dv_bits = bits\<rparr>)))"

text \<open>Files: a write creates the file and pushes the bytes through the quota file; a read checks
  size and digest before it decodes.\<close>

definition dv_write ::
  "(byte list \<Rightarrow> string) \<Rightarrow> delete_vector \<Rightarrow> string \<Rightarrow> nat \<Rightarrow> string \<Rightarrow> file_map \<times> disk_budget
   \<Rightarrow> (file_map \<times> disk_budget) \<times> (db_error, delete_vector_descriptor) result" where
  "dv_write sha256 v path owner_version owner_snapshot_id = (\<lambda>(files, budget).
     case dv_encode v of Inl e \<Rightarrow> ((files, budget), Inl e) | Inr bytes \<Rightarrow>
     if files path \<noteq> None then ((files, budget), Inl Io)
     else case quota_write (length bytes) (Some (length bytes)) budget of
       (budget', Inl e) \<Rightarrow> ((files(path \<mapsto> []), budget'), Inl Io)
     | (budget', Inr _) \<Rightarrow> ((files(path \<mapsto> bytes), budget'),
         Inr \<lparr>dvd_owner_version = owner_version, dvd_owner_snapshot_id = owner_snapshot_id,
              dvd_format_version = DV_FORMAT_VERSION, dvd_row_count = dv_row_count v,
              dvd_deleted_rows = dv_deleted_rows v, dvd_bytes = length bytes,
              dvd_sha256 = sha256 bytes\<rparr>))"

definition dv_read ::
  "(byte list \<Rightarrow> string) \<Rightarrow> file_map \<Rightarrow> string \<Rightarrow> delete_vector_descriptor
   \<Rightarrow> (db_error, delete_vector) result" where
  "dv_read sha256 files path descriptor =
     (let size = dvd_bytes descriptor in
      if size > DV_MAX_FILE_BYTES then Inl NativeStorage
      else bindr (read_bounded files path size) (\<lambda>bytes.
      if length bytes \<noteq> size then Inl NativeStorage
      else if sha256 bytes \<noteq> dvd_sha256 descriptor then Inl NativeStorage
      else bindr (dv_decode bytes) (\<lambda>vector.
      if dv_row_count vector \<noteq> dvd_row_count descriptor
         \<or> dv_deleted_rows vector \<noteq> dvd_deleted_rows descriptor then Inl NativeStorage
      else Inr vector)))"

section \<open>The invariant\<close>

text \<open>The bitmap has one bit per row and none beyond, the count is the number of marked rows, and the
  file fits its limit.\<close>

definition dv_ok :: "delete_vector \<Rightarrow> bool" where
  "dv_ok v \<longleftrightarrow> length (dv_bits v) = (dv_row_count v + 7) div 8
     \<and> set_rows (dv_bits v) \<subseteq> {..<dv_row_count v}
     \<and> dv_deleted_rows v = card (set_rows (dv_bits v))
     \<and> DV_HEADER_BYTES + length (dv_bits v) \<le> DV_MAX_FILE_BYTES"

abbreviation deleted :: "delete_vector \<Rightarrow> nat set" where
  "deleted v \<equiv> set_rows (dv_bits v)"

lemma rows_in_bits:
  assumes "length bits = (rows + 7) div 8" and "offset < rows"
  shows "offset div 8 < length bits" and "offset < 8 * length bits"
proof -
  show "offset div 8 < length bits"
    using assms div_le_mono [of "offset + 8" "rows + 7" 8] by simp
  then show "offset < 8 * length bits" by (simp add: div_less_iff_less_mult mult.commute)
qed

lemma dv_row_bound:
  assumes "dv_ok v"
  shows "dv_row_count v < 2 ^ 33"
proof -
  from assms have "(dv_row_count v + 7) div 8 < 536870885"
    by (auto simp: dv_ok_def DV_HEADER_BYTES_def DV_MAX_FILE_BYTES_def)
  then have "dv_row_count v + 7 < 536870885 * 8" by (simp only: div_less_iff_less_mult)
  then show ?thesis by simp
qed

lemma dv_deleted_bound:
  assumes "dv_ok v"
  shows "dv_deleted_rows v \<le> dv_row_count v"
proof -
  have "card (deleted v) \<le> card {..<dv_row_count v}"
    using assms by (intro card_mono) (simp_all add: dv_ok_def)
  then show ?thesis using assms by (simp add: dv_ok_def)
qed

lemma test_bit_set_rows: "i < 8 * length bits \<Longrightarrow> test_bit bits i \<longleftrightarrow> i \<in> set_rows bits"
  by (simp add: set_rows_def)

lemma dv_contains_spec:
  assumes "dv_ok v"
  shows "dv_contains v offset = Inr (offset \<in> deleted v)"
proof (cases "offset < dv_row_count v")
  case True
  note r = rows_in_bits [of "dv_bits v" "dv_row_count v" offset]
  show ?thesis
    using assms True r by (simp add: dv_contains_def dv_ok_def test_bit_set_rows)
qed (use assms in \<open>auto simp: dv_contains_def dv_ok_def\<close>)

lemma mark_deleted_spec:
  assumes ok: "dv_ok v"
  shows "mark_deleted v offset =
    (if offset < dv_row_count v
     then (v\<lparr>dv_bits := (if offset \<in> deleted v then dv_bits v else set_bit_at (dv_bits v) offset),
             dv_deleted_rows := dv_deleted_rows v + (if offset \<in> deleted v then 0 else 1)\<rparr>,
           Inr (offset \<notin> deleted v))
     else (v, Inl InvalidArgument))"
proof (cases "offset < dv_row_count v")
  case True
  note r = rows_in_bits [of "dv_bits v" "dv_row_count v" offset]
  have "dv_deleted_rows v + 1 < u64_limit"
    using dv_deleted_bound [OF ok] dv_row_bound [OF ok] by simp
  then show ?thesis
    using ok True r
    by (auto simp: mark_deleted_def dv_ok_def test_bit_set_rows checked_add_def Let_def)
qed (simp add: mark_deleted_def)

lemma mark_deleted_ok:
  assumes ok: "dv_ok v" and m: "mark_deleted v offset = (v', Inr fresh)"
  shows "dv_ok v'" and "dv_row_count v' = dv_row_count v" and "deleted v' = insert offset (deleted v)"
    and "fresh \<longleftrightarrow> offset \<notin> deleted v" and "offset < dv_row_count v"
proof -
  from m ok show lt: "offset < dv_row_count v" and f: "fresh \<longleftrightarrow> offset \<notin> deleted v"
    and rc: "dv_row_count v' = dv_row_count v"
    by (auto simp: mark_deleted_spec split: if_splits)
  have "set_rows (set_bit_at (dv_bits v) offset) = insert offset (deleted v)"
    using ok lt rows_in_bits(2) by (intro set_rows_set_bit_at) (auto simp: dv_ok_def)
  then show "deleted v' = insert offset (deleted v)" "dv_ok v'"
    using m ok lt by (auto simp: mark_deleted_spec dv_ok_def insert_absorb split: if_splits)
qed

text \<open>Building from offsets succeeds exactly when every offset is a row and the file fits, and marks
  exactly those rows, duplicates once.\<close>

lemma mark_offsets_loop:
  assumes "length bits = (rows + 7) div 8" and "rows < 2 ^ 33" and "set_rows bits \<subseteq> {..<rows}"
    and "count = card (set_rows bits)" and "\<forall>offset \<in> set offsets. offset < rows"
  shows "\<exists>bits'. try_fold (mark_offset rows) (bits, count) offsets = Inr (bits', card (set_rows bits'))
    \<and> length bits' = length bits \<and> set_rows bits' = set_rows bits \<union> set offsets"
  using assms
proof (induction offsets arbitrary: bits count)
  case (Cons offset offsets)
  then have lt: "offset < rows" by simp
  note r = rows_in_bits [OF Cons.prems(1) lt]
  have sr: "set_rows (set_bit_at bits offset) = insert offset (set_rows bits)"
    using r(2) by (rule set_rows_set_bit_at)
  have "card (set_rows bits) \<le> card {..<rows}"
    using Cons.prems(3) by (intro card_mono) simp_all
  then have c: "card (set_rows bits) + 1 < u64_limit" using Cons.prems(2) by simp
  show ?case
  proof (cases "offset \<in> set_rows bits")
    case True
    with Cons.IH [OF Cons.prems(1,2,3,4)] Cons.prems r lt show ?thesis
      by (auto simp: mark_offset_def test_bit_set_rows insert_absorb)
  next
    case False
    with Cons.IH [of "set_bit_at bits offset" "count + 1"] Cons.prems r lt sr c show ?thesis
      by (auto simp: mark_offset_def test_bit_set_rows)
  qed
qed simp

lemma mark_offsets_fail:
  assumes "length bits = (rows + 7) div 8" and "\<exists>offset \<in> set offsets. rows \<le> offset"
  shows "\<not> is_ok (try_fold (mark_offset rows) (bits, count) offsets)"
  using assms
proof (induction offsets arbitrary: bits count)
  case (Cons offset offsets)
  show ?case
  proof (cases "mark_offset rows (bits, count) offset")
    case (Inr st)
    obtain bits' count' where st: "st = (bits', count')" by (cases st)
    with Inr have "offset < rows" and "length bits' = length bits"
      by (auto simp: mark_offset_def split: if_splits)
    with Cons.IH [of bits' count'] Cons.prems Inr st show ?thesis by auto
  qed simp
qed simp

lemma bit_bytes_Inr: "bit_bytes rows = Inr n \<longleftrightarrow> rows + 7 < u64_limit \<and> n = (rows + 7) div 8"
  by (auto simp: bit_bytes_def result_simps)

lemma from_offsets_Inr:
  "from_offsets rows offsets = Inr v \<longleftrightarrow>
     dv_ok v \<and> dv_row_count v = rows \<and> deleted v = set offsets"
proof
  assume l: "from_offsets rows offsets = Inr v"
  then have size: "DV_HEADER_BYTES + (rows + 7) div 8 \<le> DV_MAX_FILE_BYTES"
    and loop: "try_fold (mark_offset rows) (replicate ((rows + 7) div 8) 0, 0) offsets
      = Inr (dv_bits v, dv_deleted_rows v)" and rc: "dv_row_count v = rows"
    by (auto simp: from_offsets_def result_simps bit_bytes_Inr split: if_splits)
  from loop mark_offsets_fail [of "replicate ((rows + 7) div 8) 0" rows offsets 0]
  have lt: "\<forall>offset \<in> set offsets. offset < rows" by force
  have "rows < 2 ^ 33"
    using size div_less_iff_less_mult [of 8 "rows + 7" 536870885]
    by (simp add: DV_HEADER_BYTES_def DV_MAX_FILE_BYTES_def)
  from mark_offsets_loop [of "replicate ((rows + 7) div 8) 0" rows 0 offsets, OF _ this _ _ lt] loop
  show "dv_ok v \<and> dv_row_count v = rows \<and> deleted v = set offsets"
    using size rc lt by (auto simp: dv_ok_def)
next
  assume r: "dv_ok v \<and> dv_row_count v = rows \<and> deleted v = set offsets"
  then have b: "rows < 2 ^ 33" using dv_row_bound [of v] by simp
  from r have lt: "\<forall>offset \<in> set offsets. offset < rows" by (auto simp: dv_ok_def)
  from mark_offsets_loop [of "replicate ((rows + 7) div 8) 0" rows 0 offsets, OF _ b _ _ lt]
  obtain bits' where loop: "try_fold (mark_offset rows) (replicate ((rows + 7) div 8) 0, 0) offsets
      = Inr (bits', card (set_rows bits'))" "length bits' = (rows + 7) div 8"
      "set_rows bits' = set offsets" by auto
  have "bits' = dv_bits v" using r loop by (intro set_rows_inject) (auto simp: dv_ok_def)
  with r b loop show "from_offsets rows offsets = Inr v"
    by (auto simp: from_offsets_def bit_bytes_def checked_add_def dv_ok_def DV_HEADER_BYTES_def
        DV_MAX_FILE_BYTES_def)
qed

section \<open>The byte format\<close>

definition dv_wf :: "delete_vector \<Rightarrow> bool" where
  "dv_wf v \<longleftrightarrow> length (dv_bits v) = (dv_row_count v + 7) div 8
     \<and> dv_row_count v + 7 < u64_limit \<and> DV_HEADER_BYTES + length (dv_bits v) < u64_limit
     \<and> set_rows (dv_bits v) \<subseteq> {..<dv_row_count v} \<and> dv_deleted_rows v = card (set_rows (dv_bits v))"

lemma dv_ok_wf: "dv_ok v \<Longrightarrow> dv_wf v"
  using dv_row_bound [of v]
  by (auto simp: dv_ok_def dv_wf_def DV_HEADER_BYTES_def DV_MAX_FILE_BYTES_def)

lemma length_DV_MAGIC [simp]: "length DV_MAGIC = 8"
  by (simp add: DV_MAGIC_def ascii_def)

lemma rows_bounded_iff:
  assumes "length bits = (rows + 7) div 8"
  shows "(rows mod 8 \<noteq> 0 \<and> bits \<noteq> [] \<and> drop_bit (rows mod 8) (last bits) \<noteq> 0) \<longleftrightarrow>
         \<not> set_rows bits \<subseteq> {..<rows}"
proof (cases "rows mod 8 = 0")
  case False
  then have "bits \<noteq> []" using assms by auto
  with False high_bits_zero [OF assms False] show ?thesis by simp
qed (use rows_aligned_bound [OF assms] in simp)

lemma split_header:
  assumes "length bytes \<ge> 28"
  shows "bytes = take 8 bytes @ take 4 (drop 8 bytes) @ take 8 (drop 12 bytes)
           @ take 8 (drop 20 bytes) @ drop 28 bytes"
proof -
  have s: "drop k bytes = take n (drop k bytes) @ drop (k + n) bytes" for k n
    by (metis append_take_drop_id drop_drop add.commute)
  show ?thesis using s [of 0 8] s [of 8 4] s [of 12 8] s [of 20 8] by simp
qed

lemma dv_decode_encode:
  assumes "dv_wf v"
  shows "\<exists>bytes. dv_encode v = Inr bytes \<and> length bytes = DV_HEADER_BYTES + length (dv_bits v)
    \<and> dv_decode bytes = Inr v"
proof -
  let ?bytes = "DV_MAGIC @ to_le 4 DV_FORMAT_VERSION @ to_le 8 (dv_row_count v)
          @ to_le 8 (dv_deleted_rows v) @ dv_bits v"
  from assms have enc: "dv_encode v = Inr ?bytes" by (simp add: dv_encode_def dv_wf_def checked_add_def)
  have dr: "dv_deleted_rows v \<le> dv_row_count v"
    using assms card_mono [of "{..<dv_row_count v}" "set_rows (dv_bits v)"] by (auto simp: dv_wf_def)
  have fields: "take 8 ?bytes = DV_MAGIC" "take 4 (drop 8 ?bytes) = to_le 4 DV_FORMAT_VERSION"
    "take 8 (drop 12 ?bytes) = to_le 8 (dv_row_count v)"
    "take 8 (drop 20 ?bytes) = to_le 8 (dv_deleted_rows v)" "drop DV_HEADER_BYTES ?bytes = dv_bits v"
    "length ?bytes = DV_HEADER_BYTES + length (dv_bits v)"
    by (simp_all add: DV_HEADER_BYTES_def)
  have nums: "from_le (to_le 4 DV_FORMAT_VERSION) = DV_FORMAT_VERSION"
    "from_le (to_le 8 (dv_row_count v)) = dv_row_count v"
    "from_le (to_le 8 (dv_deleted_rows v)) = dv_deleted_rows v"
    using assms dr by (auto intro!: from_to_le_exact simp: dv_wf_def DV_FORMAT_VERSION_def)
  have "dv_decode ?bytes = Inr v"
    unfolding dv_decode_def fields nums Let_def
    using assms dr rows_bounded_iff [of "dv_bits v" "dv_row_count v"]
    by (auto simp: dv_wf_def bit_bytes_def checked_add_def total_ones_card)
  with enc fields(6) show ?thesis by blast
qed

lemma dv_encode_decode:
  assumes "dv_decode bytes = Inr v"
  shows "dv_wf v" and "dv_encode v = Inr bytes"
proof -
  define rows where "rows = from_le (take 8 (drop 12 bytes))"
  define bits where "bits = drop 28 bytes"
  from assms have len: "28 \<le> length bytes" and magic: "take 8 bytes = DV_MAGIC"
    and ver: "from_le (take 4 (drop 8 bytes)) = DV_FORMAT_VERSION"
    and size: "rows + 7 < u64_limit" "length bytes = 28 + (rows + 7) div 8" "length bytes < u64_limit"
    and ones: "total_ones bits = from_le (take 8 (drop 20 bytes))"
    and pad: "\<not> (rows mod 8 \<noteq> 0 \<and> bits \<noteq> [] \<and> drop_bit (rows mod 8) (last bits) \<noteq> 0)"
    and v: "v = \<lparr>dv_row_count = rows, dv_deleted_rows = total_ones bits, dv_bits = bits\<rparr>"
    unfolding dv_decode_def Let_def DV_HEADER_BYTES_def bits_def [symmetric] rows_def [symmetric]
    by (auto simp: result_simps bit_bytes_Inr bits_def split: if_split_asm)
  have bl: "length bits = (rows + 7) div 8" using size(2) by (simp add: bits_def)
  have "set_rows bits \<subseteq> {..<rows}" using pad rows_bounded_iff [OF bl] by blast
  then have wf: "dv_wf v"
    using size bl by (simp add: v dv_wf_def DV_HEADER_BYTES_def total_ones_card)
  show "dv_wf v" by (fact wf)
  have le: "to_le n (from_le (take n (drop k bytes))) = take n (drop k bytes)" if "k + n \<le> 28" for n k
    using to_le_from_le [of "take n (drop k bytes)"] that len by simp
  have "dv_encode v = Inr (DV_MAGIC @ to_le 4 DV_FORMAT_VERSION @ to_le 8 rows
      @ to_le 8 (total_ones bits) @ bits)"
    using wf by (simp add: dv_encode_def dv_wf_def checked_add_def v)
  also have "DV_MAGIC @ to_le 4 DV_FORMAT_VERSION @ to_le 8 rows @ to_le 8 (total_ones bits) @ bits
      = take 8 bytes @ take 4 (drop 8 bytes) @ take 8 (drop 12 bytes) @ take 8 (drop 20 bytes)
        @ drop 28 bytes"
    using le [of 8 4] le [of 12 8] le [of 20 8]
    by (simp add: ones ver [symmetric] rows_def magic) (simp add: bits_def)
  also have "\<dots> = bytes" using split_header [OF len] by simp
  finally show "dv_encode v = Inr bytes" .
qed

section \<open>The file\<close>

lemma dv_write_read:
  assumes "dv_ok v" and "budget_ok b" and "dv_write sha256 v path ov os (files, b) = ((files', b'), Inr d)"
  shows "dv_read sha256 files' path d = Inr v" and "db_used b' = db_used b + dvd_bytes d"
    and "\<forall>other. other \<noteq> path \<longrightarrow> files' other = files other"
proof -
  obtain bytes where e: "dv_encode v = Inr bytes" and l: "length bytes = DV_HEADER_BYTES + length (dv_bits v)"
    and dec: "dv_decode bytes = Inr v"
    using dv_decode_encode [OF dv_ok_wf [OF assms(1)]] by blast
  obtain b'' r where q: "quota_write (length bytes) (Some (length bytes)) b = (b'', r)"
    by (cases "quota_write (length bytes) (Some (length bytes)) b")
  from assms(3) e q obtain w where r: "r = Inr w" and f: "files' = files(path \<mapsto> bytes)" and b': "b' = b''"
    and d: "dvd_row_count d = dv_row_count v" "dvd_deleted_rows d = dv_deleted_rows v"
      "dvd_bytes d = length bytes" "dvd_sha256 d = sha256 bytes"
    by (auto simp: dv_write_def split: if_splits sum.splits)
  have "w = length bytes"
    using q r by (auto simp: quota_write_def split: sum.splits)
  with quota_write_used [OF assms(2) q] r b' d(3)
  show "db_used b' = db_used b + dvd_bytes d" by simp
  show "\<forall>other. other \<noteq> path \<longrightarrow> files' other = files other" by (simp add: f)
  show "dv_read sha256 files' path d = Inr v"
    using assms(1) l dec d
    by (simp add: dv_read_def f read_bounded_def dv_ok_def)
qed

end
