(* ===== verification/Storage_Properties.thy ===== *)
theory Storage_Properties
  imports Storage_Sample Delete_Vector
begin

text \<open>
  The properties of native storage: committing and recovering, the catalog, the write-ahead log, the
  managed files, quotas, delete vectors and names, each with an instance on the sample database.
\<close>

section \<open>Commit and recovery\<close>

text \<open>C1: A commit from a database at rest, with any fault at any of its calls, leaves stored files from
  which the next opening recovers exactly what the result says: the new catalog after success or a
  failure after the commit, the old one after an ordinary error, one of the two, possibly after one
  failed attempt to open, when the outcome is unknown; after success the database is at rest again
  with the new catalog.\<close>

theorem commit_then_open:
  assumes "at_rest E L dirs w old"
    and "new = next_state (w_database_id w) (cs_generation old + 1) txn schemas tables views" and "storable E new"
    and "unique_ok L unique2" and "w_next_lsn w + 1 < u64_limit"
    and "reads_back (rec_json L) (record_new (w_database_id w) (w_next_lsn w) txn
           (Catalog_Commit (cs_generation old) (cs_generation old + 1)))"
    and "commit_generation E L f unique1 unique2 (cs_generation old) schemas tables views txn (dirs, w) = ((dirs', w'), r)"
  shows "commit_outcome E L (w_database_id w) old new \<lparr>st_catalog = dirs', st_wal = w_dir w'\<rparr> r
    \<and> (\<forall>committed. r = Inr committed \<longrightarrow> at_rest E L dirs' w' new)"
  using commit_generation_recovers [OF assms(1) refl refl assms(2-7)] by blast

theorem commit_then_open_witness:
  "commit_outcome sample_env sample_log ''db'' (sample_state 0) (sample_state 1)
     \<lparr>st_catalog = sample_dirs [1] 1, st_wal = w_dir (sample_wal 2)\<rparr> (Inr (sample_state 1))
   \<and> at_rest sample_env sample_log (sample_dirs [1] 1) (sample_wal 2) (sample_state 1)"
proof -
  have rb: "reads_back (rec_json sample_log) (record_new ''db'' (Suc (Suc 0)) ''t'' (Catalog_Commit 0 (Suc 0)))"
    using sample_record_reads_back [of 2] sample_records(2) by (simp add: numeral_2_eq_2)
  show ?thesis
    using commit_then_open [of sample_env sample_log "sample_dirs [0] 0" "sample_wal 1" "sample_state 0" "sample_state 1" "''t''"
        "[DEFAULT_SCHEMA]" "[]" "[]" "''u''" no_commit_faults "''u''" "sample_dirs [1] 1" "sample_wal 2" "Inr (sample_state 1)"]
      sample_at_rest sample_next sample_storable [of 1] sample_unique rb sample_commit
    by simp
qed

text \<open>C2: A commit that crashes is decided by its record.  Wherever it stops, between two calls of the
  preparation of the generation, of the logging or of the publication, in the middle of a write, or between
  two removals of old generations, the next opening recovers the new catalog if the file of the commit record
  exists and the old one if not; when the temporary file of the replacement of the current generation is
  left, the first attempt to open may fail and the second one recovers.\<close>

theorem crash_then_open:
  assumes "at_rest E L dirs w old"
    and "new = next_state (w_database_id w) (cs_generation old + 1) txn schemas tables views" and "storable E new"
    and "unique_ok L unique2" and "w_next_lsn w + 1 < u64_limit"
    and "reads_back (rec_json L) (record_new (w_database_id w) (w_next_lsn w) txn
           (Catalog_Commit (cs_generation old) (cs_generation old + 1)))"
    and "s = commit_crash_state E L point unique1 unique2 (cs_generation old) schemas tables views txn (dirs, w)"
  shows "if exists_file (st_wal s) (record_name (w_next_lsn w))
    then opens_with E L (w_database_id w) s new
      \<or> exists_file (catalog_dir (st_catalog s)) (temporary_name ''CURRENT'' txn)
        \<and> opens_on_retry E L (w_database_id w) s new
    else opens_with E L (w_database_id w) s old"
proof -
  obtain dirs' w' r where run: "commit_generation E L (crash_faults point) unique1 unique2 (cs_generation old)
      schemas tables views txn (dirs, w) = ((dirs', w'), r)"
    by (metis prod.exhaust)
  then have "s = \<lparr>st_catalog = dirs', st_wal = w_dir w'\<rparr>" using assms(7) by (simp add: commit_crash_state_def)
  then show ?thesis
    using commit_record_decides [OF assms(1) refl refl assms(2-6) run] by (auto simp: opens_committed_def)
qed

text \<open>Stopped before the rename of the publication, the commit is recovered.\<close>

theorem crash_then_open_witness:
  "let s = commit_crash_state sample_env sample_log (Publishing 3 0) ''u'' ''u'' 0 [DEFAULT_SCHEMA] [] [] ''t''
       (sample_dirs [0] 0, sample_wal 1)
   in exists_file (st_wal s) (record_name 2)
      \<and> (opens_with sample_env sample_log ''db'' s (sample_state 1)
         \<or> exists_file (catalog_dir (st_catalog s)) (temporary_name ''CURRENT'' ''t'')
           \<and> opens_on_retry sample_env sample_log ''db'' s (sample_state 1))"
proof -
  define s where "s = commit_crash_state sample_env sample_log (Publishing 3 0) ''u'' ''u'' 0 [DEFAULT_SCHEMA] [] [] ''t''
    (sample_dirs [0] 0, sample_wal 1)"
  have rb: "reads_back (rec_json sample_log) (record_new ''db'' (Suc (Suc 0)) ''t'' (Catalog_Commit 0 (Suc 0)))"
    using sample_record_reads_back [of 2] sample_records(2) by (simp add: numeral_2_eq_2)
  have "exists_file (w_dir (sample_wal 2)) (record_name 2)"
    by (simp add: sample_wal_def upt_rec exists_file_def lookup_file_def)
  then have "exists_file (st_wal s) (record_name 2)" unfolding s_def sample_crash .
  moreover have "if exists_file (st_wal s) (record_name (w_next_lsn (sample_wal 1)))
    then opens_with sample_env sample_log ''db'' s (sample_state 1)
      \<or> exists_file (catalog_dir (st_catalog s)) (temporary_name ''CURRENT'' ''t'')
        \<and> opens_on_retry sample_env sample_log ''db'' s (sample_state 1)
    else opens_with sample_env sample_log ''db'' s (sample_state 0)"
    using crash_then_open [of sample_env sample_log "sample_dirs [0] 0" "sample_wal 1" "sample_state 0" "sample_state 1" "''t''"
        "[DEFAULT_SCHEMA]" "[]" "[]" "''u''" s "Publishing 3 0" "''u''"]
      sample_at_rest sample_next sample_storable [of 1] sample_unique rb by (auto simp: s_def)
  ultimately show ?thesis unfolding s_def [symmetric] Let_def by (simp add: numeral_2_eq_2)
qed

text \<open>C23: When the log has the commit of a prepared generation that is not current and the temporary file of
  an interrupted replacement is left, opening fails with an I/O error although the commit is durable;
  the failed attempt removes the file, and opening again recovers the commit.\<close>

theorem open_after_interrupted_publication:
  assumes "wal_ok L w" and "prepared_for E (w_database_id w) dirs old new c" and "one_ahead (cs_generation old) c w"
    and "exists_file (catalog_dir dirs) (temporary_name ''CURRENT'' (cc_transaction_id c))"
  shows "opens_on_retry E L (w_database_id w) \<lparr>st_catalog = dirs, st_wal = w_dir w\<rparr> new"
  using open_blocked [OF assms(1) refl assms(2-4)] .

theorem open_after_interrupted_publication_witness:
  "opens_on_retry sample_env sample_log ''db''
     \<lparr>st_catalog = (sample_dirs [0, 1] 0)\<lparr>catalog_dir := (''.CURRENT.t.tmp'', [], False) # catalog_dir (sample_dirs [0, 1] 0)\<rparr>,
      st_wal = w_dir (sample_wal 2)\<rparr> (sample_state 1)"
proof -
  let ?dirs = "(sample_dirs [0, 1] 0)\<lparr>catalog_dir := (''.CURRENT.t.tmp'', [], False) # catalog_dir (sample_dirs [0, 1] 0)\<rparr>"
  let ?c = "\<lparr>cc_transaction_id = ''t'', cc_expected_generation = 0, cc_generation = 1\<rparr>"
  have gen: "lookup_file (generations_dir ?dirs) (generation_name g) = Some ([of_nat g, 10], True)" if "g = 0 \<or> g = 1" for g
    using that lookup_sample_generation [of g "[0, 1]" 0] by auto
  have "load sample_env ?dirs ''db'' = Inr (sample_state 0)"
    by (rule sample_load [OF _ gen]) (simp_all add: sample_dirs_def lookup_file_def)
  moreover have "load_generation sample_env ?dirs ''db'' 1 = Inr (sample_state 1)"
    using sample_read [OF gen, of 1] by (simp add: load_generation_def result_simps)
  ultimately have "prepared_for sample_env ''db'' ?dirs (sample_state 0) (sample_state 1) ?c"
    by (simp add: prepared_for_def) (simp add: sample_state_def next_state_def)
  moreover have "one_ahead (cs_generation (sample_state 0)) ?c (sample_wal 2)"
    by (simp add: one_ahead_def catalog_commits_def) (simp add: sample_wal_def)
  moreover have "exists_file (catalog_dir ?dirs) (temporary_name ''CURRENT'' (cc_transaction_id ?c))"
    by (simp add: exists_file_def lookup_file_def temporary_name_def)
  ultimately show ?thesis
    using open_after_interrupted_publication [of sample_log "sample_wal 2" sample_env ?dirs "sample_state 0" "sample_state 1" ?c]
      sample_wal_ok [of 2] by simp
qed

section \<open>The catalog\<close>

text \<open>C14: Preparing a generation never changes what the database loads: not when it succeeds, not when
  any of its calls fails, and not when it crashes between two of them.\<close>

theorem prepare_is_invisible:
  assumes "prepare_catalog_commit E fault unique db base schemas tables views txn dirs = (dirs', r)"
  shows "load E dirs' db = load E dirs db
    \<and> (\<forall>old s. load E dirs db = Inr old \<and> cs_generation old = base
         \<and> s \<in> set (prepare_states E unique (next_state db (base + 1) txn schemas tables views) dirs)
         \<longrightarrow> load E s db = load E dirs db)"
proof
  show "load E dirs' db = load E dirs db"
    using assms prepare_catalog_commit_Inl(1) prepare_catalog_commit_load by (cases r) fast+
next
  show "\<forall>old s. load E dirs db = Inr old \<and> cs_generation old = base
         \<and> s \<in> set (prepare_states E unique (next_state db (base + 1) txn schemas tables views) dirs)
         \<longrightarrow> load E s db = load E dirs db"
  proof (intro allI impI, elim conjE)
    fix old s
    assume "load E dirs db = Inr old" and "cs_generation old = base"
      and "s \<in> set (prepare_states E unique (next_state db (base + 1) txn schemas tables views) dirs)"
    then show "load E s db = load E dirs db"
      using prepare_states_invisible [of E dirs db old "next_state db (base + 1) txn schemas tables views" s unique]
      by (simp add: next_state_def)
  qed
qed

theorem prepare_is_invisible_witness:
  "prepare_catalog_commit sample_env No_Fault ''u'' ''db'' 0 [DEFAULT_SCHEMA] [] [] ''t'' (sample_dirs [0] 0)
     = (sample_dirs [0, 1] 0, Inr (sample_state 1))
   \<and> load sample_env (sample_dirs [0, 1] 0) ''db'' = load sample_env (sample_dirs [0] 0) ''db''"
  using prepare_is_invisible [OF sample_prepare] sample_prepare by blast

text \<open>C11: Publishing is atomic, whichever of the calls of the replacement fails, whether or not the removal of
  its temporary file fails too, and whether the reads before or the verifying read after it fail: success,
  the report that the outcome is unknown and the report of a failure after the commit mean that the new
  generation is the one loaded; every other error means that loading is as before.\<close>

theorem publish_is_atomic:
  assumes "publish_prepared E fault db expected state txn dirs = (dirs', r)"
  shows "case r of
      Inr committed \<Rightarrow> committed = state \<and> load E dirs' db = Inr state
    | Inl CommitOutcomeUnknown \<Rightarrow> load E dirs' db = Inr state
    | Inl (NativeCommitPostCommitFailure _) \<Rightarrow> load E dirs' db = Inr state
    | Inl _ \<Rightarrow> load E dirs' db = load E dirs db"
  using publish_prepared_outcome [OF assms] unfolding publish_outcome_def
  by (auto simp: load_error_def split: sum.splits db_error.splits if_splits)

theorem publish_is_atomic_witness:
  "publish_prepared sample_env No_Fault ''db'' 0 (sample_state 1) ''t'' (sample_dirs [0, 1] 0)
     = (sample_dirs [0, 1] 1, Inr (sample_state 1))
   \<and> publish_prepared sample_env (Fault 5 0 False) ''db'' 0 (sample_state 1) ''t'' (sample_dirs [0, 1] 0)
     = (sample_dirs [0, 1] 1, Inl (NativeCommitPostCommitFailure 1))
   \<and> load sample_env (sample_dirs [0, 1] 1) ''db'' = Inr (sample_state 1)"
  using publish_is_atomic [OF publish_prepared_unread [OF sample_publish]] sample_publish
    publish_prepared_unread [OF sample_publish] by simp

text \<open>C27: Removing the generations after the current one at start-up, and those before the committed one
  after a commit, never changes what is loaded, even when a removal fails; when it succeeds, no file
  of a generation it should remove is left.\<close>

theorem removal_keeps_current:
  "(recover_future_generations E fails db dirs = (dirs', r) \<longrightarrow>
      load E dirs' db = load E dirs db
      \<and> (r = Inr () \<longrightarrow> (\<forall>current name. read_current dirs = Inr current \<longrightarrow>
           \<not> removable E db (\<lambda>g. g \<le> current) dirs' name)))
   \<and> (prune_old_generations E fails db current dirs = (dirs', r) \<and> read_current dirs = Inr current \<longrightarrow>
      load E dirs' db = load E dirs db
      \<and> (r = Inr () \<longrightarrow> (\<forall>name. \<not> removable E db (\<lambda>g. g \<ge> current) dirs' name)))"
proof (intro conjI impI)
  assume run: "recover_future_generations E fails db dirs = (dirs', r)"
  show "load E dirs' db = load E dirs db"
  proof (cases "read_current dirs")
    case (Inr g)
    with run have "sweep_generations E db (\<lambda>generation. generation \<le> g) fails (map fst (generations_dir dirs)) dirs = (dirs', r)"
      by (simp add: recover_future_generations_def)
    from sweep_keeps_load [OF this] Inr show ?thesis by simp
  qed (use run in \<open>simp add: recover_future_generations_def\<close>)
  show "\<forall>current name. read_current dirs = Inr current \<longrightarrow> \<not> removable E db (\<lambda>g. g \<le> current) dirs' name"
    if "r = Inr ()"
    using run that by (auto simp: recover_future_generations_def dest: sweep_all)
next
  assume run: "prune_old_generations E fails db current dirs = (dirs', r) \<and> read_current dirs = Inr current"
  then have sweep: "sweep_generations E db (\<lambda>g. g \<ge> current) fails (map fst (generations_dir dirs)) dirs = (dirs', r)"
    by (simp add: prune_old_generations_def)
  show "load E dirs' db = load E dirs db" using sweep_keeps_load [OF sweep] run by simp
  show "\<forall>name. \<not> removable E db (\<lambda>g. g \<ge> current) dirs' name" if "r = Inr ()"
    using sweep_all [OF sweep [unfolded that]] by simp
qed

theorem removal_keeps_current_witness:
  "prune_old_generations sample_env (\<lambda>_. None) ''db'' 1 (sample_dirs [0, 1] 1) = (sample_dirs [1] 1, Inr ())
   \<and> load sample_env (sample_dirs [1] 1) ''db'' = load sample_env (sample_dirs [0, 1] 1) ''db''"
proof -
  have "read_current (sample_dirs [0, 1] 1) = Inr 1"
    using load_read_current [OF sample_dirs_load [of 1 "[0, 1]"]] by simp
  then show ?thesis
    using removal_keeps_current [of sample_env "\<lambda>_. None" "''db''" "sample_dirs [0, 1] 1" "sample_dirs [1] 1" "Inr ()" 1] sample_prune
    by blast
qed

text \<open>C28: Every catalog the database loads is well formed: the default schema exists, every name is
  lower case and within its limits, every table and view belongs to an existing schema, no name is
  both a table and a view, and the catalog belongs to the database.\<close>

theorem loaded_catalog_well_formed:
  assumes "load E dirs db = Inr state"
  shows "catalog_ok state \<and> cs_database_id state = db"
  using assms by (rule load_ok)

theorem loaded_catalog_well_formed_witness:
  "load sample_env (sample_dirs [0] 0) ''db'' = Inr (sample_state 0) \<and> catalog_ok (sample_state 0)"
  using loaded_catalog_well_formed [OF sample_dirs_load [of 0 "[0]"]] sample_dirs_load [of 0 "[0]"] by simp

text \<open>The file names of generations, as the directory scans read them: a name is read as a generation
  exactly when it is the name of that generation, and names sort as their generations do.\<close>

theorem generation_names:
  "(generation_from_name name = Some g \<longleftrightarrow> g < u64_limit \<and> name = generation_name g)
   \<and> (m < u64_limit \<and> n < u64_limit \<longrightarrow> (generation_name m < generation_name n \<longleftrightarrow> m < n))"
  using generation_from_name_Some generation_from_name_name numbered_less by (auto simp: generation_name_def)

theorem generation_names_witness:
  "generation_from_name (generation_name 7) = Some 7 \<and> generation_name 7 < generation_name 12"
  using generation_names [of "generation_name 7" 7 7 12] by simp

section \<open>The write-ahead log\<close>



text \<open>C24: An append that reports success has extended the durable log by its record and nothing else; one
  that reports an error has not changed the log, unless it is the error for an ambiguous outcome of
  that kind of record, and then the log is the old one or the extended one.\<close>

theorem append_outcome:
  assumes "log_repr L (w_database_id w) (w_dir w) start recs" and "w_next_lsn w = start + length recs"
    and "w_next_lsn w + 1 < u64_limit" and "unique_ok L unique"
    and "r = record_new (w_database_id w) (w_next_lsn w) txn kind" and "reads_back (rec_json L) r"
    and "append_record L f unique txn kind w = (w', q)"
  shows "case q of
      Inr _ \<Rightarrow> log_repr L (w_database_id w) (w_dir w') start (recs @ [r])
        \<and> w_next_lsn w' = w_next_lsn w + 1 \<and> apply_record (w_transactions w) r = Inr (w_transactions w')
    | Inl e \<Rightarrow> w_next_lsn w' = w_next_lsn w \<and> w_transactions w' = w_transactions w
        \<and> (log_repr L (w_database_id w) (w_dir w') start recs
           \<or> e = ambiguous_append_error kind \<and> log_repr L (w_database_id w) (w_dir w') start (recs @ [r]))"
  using append_record_outcome(2,3) [OF assms] by (auto split: sum.split)

theorem append_outcome_witness:
  "append_record sample_log no_append_faults ''u'' ''t'' (Begin 0 ReadWrite) (sample_wal 0) = (sample_wal 1, Inr ())
   \<and> log_repr sample_log ''db'' (w_dir (sample_wal 1)) 1 [sample_record 1]"
proof -
  have run: "append_record sample_log no_append_faults ''u'' ''t'' (Begin 0 ReadWrite) (sample_wal 0) = (sample_wal 1, Inr ())"
    using sample_append [of 1 no_append_faults] by (simp add: no_append_faults_def sample_record_def record_new_def)
  have "log_repr sample_log ''db'' (w_dir (sample_wal 0)) 1 []"
    by (simp add: sample_wal_def log_repr_def dir_ok_def checkpoint_read_def exists_file_def lookup_file_def)
  from append_outcome [OF _ _ _ sample_unique refl _ run, of 1 "[]"] this run sample_record_reads_back [of 1] sample_records(1)
  show ?thesis by simp
qed



text \<open>C26: A checkpoint keeps the next sequence number and forgets the finished transactions; the log it
  leaves opens as such, with the records before it gone.\<close>

theorem checkpoint_reopens:
  assumes "wal_ok L w" and "wal_checkpoint L fault unique fails generation w = (w', Inr removed)"
    and "unique_ok L unique"
    and "reads_back (cp_json L) \<lparr>cp_format_version = CHECKPOINT_FORMAT_VERSION, cp_database_id = w_database_id w,
        cp_next_lsn = w_next_lsn w, cp_catalog_generation = generation\<rparr>"
  shows "\<exists>d. wal_open L (\<lambda>_. None) (w_database_id w) (w_dir w') =
     (d, Inr \<lparr>w_dir = d, w_database_id = w_database_id w, w_next_lsn = w_next_lsn w, w_transactions = []\<rparr>)"
proof -
  note ok = wal_checkpoint_ok [OF assms]
  have "log_step L w w'" using assms(2-4) by (rule log_step.checkpointed)
  then have db: "w_database_id w' = w_database_id w" using log_step_ok assms(1) by blast
  obtain d where "wal_open L (\<lambda>_. None) (w_database_id w') (w_dir w') = (d, Inr (w'\<lparr>w_dir := d\<rparr>))"
    using wal_reopen [OF ok(1)] by metis
  moreover have "w'\<lparr>w_dir := d\<rparr> = \<lparr>w_dir = d, w_database_id = w_database_id w, w_next_lsn = w_next_lsn w, w_transactions = []\<rparr>"
    using ok(2,3) db by simp
  ultimately show ?thesis using db by auto
qed

theorem checkpoint_reopens_witness:
  "\<exists>w' removed d. wal_checkpoint sample_log No_Fault ''u'' (\<lambda>_. None) 1 (sample_wal 2) = (w', Inr removed)
   \<and> wal_open sample_log (\<lambda>_. None) ''db'' (w_dir w') =
     (d, Inr \<lparr>w_dir = d, w_database_id = ''db'', w_next_lsn = 3, w_transactions = []\<rparr>)"
  using checkpoint_reopens [OF sample_wal_ok [of 2] sample_wal_checkpoint sample_unique]
    sample_checkpoint_reads_back [of 3] sample_wal_checkpoint
  by (fastforce simp: sample_checkpoint_def)

section \<open>Managed files\<close>

text \<open>C29: The chunked reading loop, however the calls split the file and however often they are
  interrupted, ends once more calls than remaining bytes were served; it returns the whole file, or an
  error exactly when the file is longer than the limit, like one bounded read.\<close>

theorem read_loop_is_bounded_read:
  assumes "Read_Failed \<notin> set es" and "length bytes < chunk_events es" and "files path = Some bytes"
  shows "read_contents_bounded max_bytes es bytes [] = Some (read_bounded files path max_bytes)"
  using read_contents_loop [of es "[]" max_bytes bytes] assms by (simp add: read_bounded_def)

theorem read_loop_is_bounded_read_witness:
  "read_contents_bounded 3 [Chunk 2, Interrupted, Chunk 5, Chunk 1] [7, 8] [] = Some (Inr [7, 8])"
  using read_loop_is_bounded_read [of "[Chunk 2, Interrupted, Chunk 5, Chunk 1]" "[7, 8]" "[''f'' \<mapsto> [7, 8]]" "''f''" 3]
  by (simp add: chunk_events_def read_bounded_def)

text \<open>Replacing a file is atomic under faults and crashes: success and an unknown outcome leave exactly
  the new contents, any other error leaves every file but the temporary one as it was, and every
  intermediate state a crash can expose has the old or the complete new contents.\<close>

theorem replacement_is_atomic:
  assumes "tmp \<noteq> name" and "atomic_replace fault tmp name bytes d = (d', r)" and "n \<noteq> tmp"
  shows "lookup_file d' n =
      (if (r = Inr () \<or> r = Inl CommitOutcomeUnknown) \<and> n = name then Some (bytes, True) else lookup_file d n)
    \<and> (\<forall>s \<in> set (replace_states tmp name bytes d). lookup_file s n = lookup_file d n
        \<or> n = name \<and> lookup_file s n = Some (bytes, True))"
  using atomic_replace_cases [OF assms] replace_states_atomic [OF _ assms(3)]
  by (cases "r = Inr () \<or> r = Inl CommitOutcomeUnknown") auto

theorem replacement_is_atomic_witness:
  "lookup_file (put_file ''a'' [2] True [(''a'', [1], True)]) ''a'' = Some ([2], True)"
  using replacement_is_atomic [of "''t''" "''a''" No_Fault "[2]" "[(''a'', [1], True)]" "put_file ''a'' [2] True [(''a'', [1], True)]"
      "Inr ()" "''a''"] atomic_replace_ok [of "[(''a'', [1], True)]" "''a''" "''t''" "[2]"]
  by (simp add: exists_file_def lookup_file_def)

text \<open>Creating a file never damages another one: success means the name was free and now has the
  complete contents; an error leaves every other file alone, and the target missing or complete.\<close>

theorem creation_is_atomic:
  assumes "tmp \<noteq> name" and "atomic_create fault tmp name bytes d = (d', r)"
  shows "case r of
      Inr _ \<Rightarrow> lookup_file d name = None \<and> lookup_file d' = (lookup_file d)(name \<mapsto> (bytes, True))
    | Inl e \<Rightarrow> (e = Io \<or> e = NativeStorage) \<and> (\<forall>n. n \<noteq> tmp \<longrightarrow> lookup_file d' n = lookup_file d n
        \<or> n = name \<and> lookup_file d name = None \<and> lookup_file d' name = Some (bytes, True))"
proof (cases r)
  case (Inl e)
  then show ?thesis
    using atomic_create_Inl [OF assms(2) [unfolded Inl]] atomic_create_error [OF assms(2) [unfolded Inl]] by auto
next
  case (Inr u)
  then show ?thesis using atomic_create_Inr [OF assms(1) assms(2) [unfolded Inr]] by simp
qed

theorem creation_is_atomic_witness:
  "atomic_create (Fault 4 0 False) ''t'' ''a'' [2] [(''b'', [1], True)] = ([(''b'', [1], True), (''a'', [2], True)], Inl Io)
   \<and> lookup_file [(''b'', [1], True), (''a'', [2], True)] ''b'' = Some ([1], True)"
proof -
  have run: "atomic_create (Fault 4 0 False) ''t'' ''a'' [2] [(''b'', [1], True)] = ([(''b'', [1], True), (''a'', [2], True)], Inl Io)"
    by (simp add: atomic_create_def create_states_def temporary_states_def cleanup_temporary_def failed_state_def
        exists_file_def lookup_file_def put_file_def remove_entry_def Let_def)
  have "''t'' \<noteq> ''a''" by simp
  from creation_is_atomic [OF this run] run show ?thesis by (auto simp: lookup_file_def)
qed

text \<open>The bounded writers are bounded encoding: whatever chunks the serialiser writes, the bytes are
  the concatenation of the chunks when it fits within the limit, and a storage error otherwise, for
  the encoder and for the digest alike.\<close>

theorem bounded_writers:
  "encode_bounded max_bytes chunks newline =
     (if length (concat chunks) + of_bool newline \<le> max_bytes
      then Inr (concat chunks @ (if newline then [10] else [])) else Inl NativeStorage)
   \<and> json_sha256 j max_bytes v =
     (if length (concat (compact_chunks j v)) \<le> max_bytes
      then Inr (digest j (concat (compact_chunks j v))) else Inl NativeStorage)"
  by (simp add: encode_bounded_eq json_sha256_eq value_digest_def)

section \<open>Quotas\<close>

text \<open>C30: A disk budget never exceeds its limit: after any sequence of reservations and releases, refused
  ones included, the used bytes are within the limit, which does not change.\<close>

theorem budget_stays_bounded:
  assumes "limit < u64_limit"
  shows "db_used (foldl disk.step (disk_budget_new limit) ops) \<le> limit
    \<and> db_limit (foldl disk.step (disk_budget_new limit) ops) = limit"
  using disk.run_bounded [OF disk_budget_new_ok [OF assms], of ops] by (simp add: disk_budget_new_def)

theorem budget_stays_bounded_witness:
  "db_used (foldl disk.step (disk_budget_new 10) [Reserve 7, Reserve 5, Release 2]) \<le> 10"
  using budget_stays_bounded [of 10 "[Reserve 7, Reserve 5, Release 2]"] by simp

text \<open>A quota-checked write charges exactly the bytes the file took: all of them, the part a short
  write accepted, or nothing when the reservation or the write fails.\<close>

theorem quota_write_charges_written:
  assumes "budget_ok s" and "quota_write requested outcome s = (s', r)" and "\<forall>w. outcome = Some w \<longrightarrow> w \<le> requested"
  shows "budget_ok s' \<and> db_limit s' = db_limit s \<and> db_used s' = db_used s + (case r of Inr w \<Rightarrow> w | Inl _ \<Rightarrow> 0)"
  using quota_write_used [OF assms(1,2)] assms(3) by blast

theorem quota_write_charges_written_witness:
  "quota_write 6 (Some 4) \<lparr>db_limit = 10, db_used = 3\<rparr> = (\<lparr>db_limit = 10, db_used = 7\<rparr>, Inr 4)
   \<and> budget_ok \<lparr>db_limit = 10, db_used = 7\<rparr>"
proof -
  have run: "quota_write 6 (Some 4) \<lparr>db_limit = 10, db_used = 3\<rparr> = (\<lparr>db_limit = 10, db_used = 7\<rparr>, Inr 4)"
    by (simp add: quota_write_def budget_reserve_def budget_release_def checked_add_def)
  show ?thesis using quota_write_charges_written [OF _ run] run by (simp add: budget_ok_def)
qed

section \<open>Delete vectors\<close>

text \<open>C12: A vector built from row offsets is the set of the offsets: it is built exactly when every offset
  is a row and the file fits its limit, membership is exact, marking a row adds it, reports whether it
  was new, and refuses rows that do not exist.\<close>

theorem delete_vector_is_a_set:
  assumes "from_offsets rows offsets = Inr v"
  shows "dv_contains v offset = Inr (offset \<in> set offsets)
    \<and> (case mark_deleted v offset of
         (v', Inr fresh) \<Rightarrow> offset < rows \<and> fresh = (offset \<notin> set offsets) \<and> from_offsets rows (offset # offsets) = Inr v'
       | (v', Inl e) \<Rightarrow> rows \<le> offset \<and> e = InvalidArgument \<and> v' = v)"
proof -
  have ok: "dv_ok v" and rows: "dv_row_count v = rows" and del: "deleted v = set offsets"
    using assms by (simp_all add: from_offsets_Inr)
  show ?thesis
  proof (cases "offset < rows")
    case True
    then obtain v' where m: "mark_deleted v offset = (v', Inr (offset \<notin> set offsets))"
      using mark_deleted_spec [OF ok, of offset] rows del by simp
    show ?thesis
      using mark_deleted_ok [OF ok m] dv_contains_spec [OF ok, of offset] m rows del True by (simp add: from_offsets_Inr)
  next
    case False
    then show ?thesis using mark_deleted_spec [OF ok, of offset] dv_contains_spec [OF ok, of offset] rows del by simp
  qed
qed

theorem delete_vector_is_a_set_witness:
  "from_offsets 10 [3, 9, 3] = Inr \<lparr>dv_row_count = 10, dv_deleted_rows = 2, dv_bits = [8, 2]\<rparr>
   \<and> dv_contains \<lparr>dv_row_count = 10, dv_deleted_rows = 2, dv_bits = [8, 2]\<rparr> 9 = Inr True"
proof -
  have v: "from_offsets 10 [3, 9, 3] = Inr \<lparr>dv_row_count = 10, dv_deleted_rows = 2, dv_bits = [8, 2]\<rparr>"
    by (simp add: from_offsets_def bit_bytes_def checked_add_def result_simps DV_HEADER_BYTES_def DV_MAX_FILE_BYTES_def
        mark_offset_def test_bit_def set_bit_at_def) (simp add: numeral_2_eq_2)
  show ?thesis using delete_vector_is_a_set [OF v, of 9] v by simp
qed

text \<open>C31: The byte form of a vector is canonical: decoding accepts exactly the encodings of well-formed
  vectors, so a file that decodes is the file the writer would have written.\<close>

theorem delete_vector_bytes_canonical:
  "dv_decode bytes = Inr v \<longleftrightarrow> dv_wf v \<and> dv_encode v = Inr bytes"
proof
  assume "dv_decode bytes = Inr v"
  then show "dv_wf v \<and> dv_encode v = Inr bytes" using dv_encode_decode by blast
next
  assume "dv_wf v \<and> dv_encode v = Inr bytes"
  then show "dv_decode bytes = Inr v" using dv_decode_encode [of v] by auto
qed

text \<open>C32: Writing a vector and reading it with the descriptor of the write gives the vector back; the
  quota is charged the size of the file, and no other file changes.\<close>

theorem delete_vector_write_read:
  assumes "dv_ok v" and "budget_ok b" and "dv_write sha256 v path version snapshot (files, b) = ((files', b'), Inr d)"
  shows "dv_read sha256 files' path d = Inr v \<and> db_used b' = db_used b + dvd_bytes d
    \<and> (\<forall>other. other \<noteq> path \<longrightarrow> files' other = files other)"
  using dv_write_read [OF assms] by blast

theorem delete_vector_write_read_witness:
  "\<exists>files b d. dv_write (\<lambda>_. ''h'') \<lparr>dv_row_count = 10, dv_deleted_rows = 2, dv_bits = [8, 2]\<rparr> ''p'' 1 ''s''
       (Map.empty, disk_budget_new 100) = ((files, b), Inr d)
     \<and> dv_read (\<lambda>_. ''h'') files ''p'' d = Inr \<lparr>dv_row_count = 10, dv_deleted_rows = 2, dv_bits = [8, 2]\<rparr>"
proof -
  let ?v = "\<lparr>dv_row_count = 10, dv_deleted_rows = 2, dv_bits = [8, 2]\<rparr>"
  have "from_offsets 10 [3, 9, 3] = Inr ?v"
    by (simp add: from_offsets_def bit_bytes_def checked_add_def result_simps DV_HEADER_BYTES_def DV_MAX_FILE_BYTES_def
        mark_offset_def test_bit_def set_bit_at_def) (simp add: numeral_2_eq_2)
  then have ok: "dv_ok ?v" by (simp add: from_offsets_Inr)
  have budget: "budget_ok (disk_budget_new 100)" by (simp add: disk_budget_new_ok)
  obtain bytes where bytes: "dv_encode ?v = Inr bytes" "length bytes = 30"
    using dv_decode_encode [OF dv_ok_wf [OF ok]] by (auto simp: DV_HEADER_BYTES_def)
  obtain files b d where w: "dv_write (\<lambda>_. ''h'') ?v ''p'' 1 ''s'' (Map.empty, disk_budget_new 100) = ((files, b), Inr d)"
    by (simp add: dv_write_def bytes quota_write_def budget_reserve_def disk_budget_new_def checked_add_def)
  then show ?thesis using delete_vector_write_read [OF ok budget w] by blast
qed

section \<open>Names and schemas\<close>

text \<open>Storage keys are canonical: the key of an object name splits into a lower-case schema and object
  without dots, and naming the object by that schema and object gives the same key.\<close>

theorem object_keys_canonical:
  assumes "object_name parts = Inr key"
  shows "plain_name (schema_of key) \<and> plain_name (object_of key)
    \<and> object_name [Identifier (schema_of key), Identifier (object_of key)] = Inr key"
  using assms by (rule object_name_key)

theorem object_keys_canonical_witness:
  "object_name [Identifier ''MAIN'', Identifier ''Events''] = Inr ''events''
   \<and> object_name [Identifier ''main'', Identifier ''events''] = Inr ''events''"
proof -
  have key: "object_name [Identifier ''MAIN'', Identifier ''Events''] = Inr ''events''"
    by (simp add: object_name_def object_parts_def identifier_name_def to_ascii_lowercase_def ascii_lower_def char_of_def
        DEFAULT_SCHEMA_def result_simps bit_0)
  show ?thesis using object_keys_canonical [OF key] key by (simp add: schema_of_def object_of_def DEFAULT_SCHEMA_def)
qed

text \<open>C33: The hexadecimal text of a schema within the limit decodes to its bytes, and the stored schema
  loads exactly when its digest matches and Arrow accepts the bytes.\<close>

theorem schema_text_round_trip:
  assumes "length bytes \<le> MAX_SCHEMA_BYTES"
  shows "decode_schema sha256 from_ipc (encode_hex bytes) expected =
    (if sha256 bytes = expected then (case from_ipc bytes of Some schema \<Rightarrow> Inr schema | None \<Rightarrow> Inl NativeStorage)
     else Inl NativeStorage)"
  by (simp add: decode_schema_def decode_encode_hex [OF assms] ok_or_def split: option.split)

theorem schema_text_round_trip_witness:
  "decode_schema (\<lambda>_. ''h'') (\<lambda>b. Some (length b)) (encode_hex [0xAB, 0x01]) ''h'' = Inr 2"
  using schema_text_round_trip [of "[0xAB, 0x01]" "\<lambda>_. ''h''" "\<lambda>b. Some (length b)" "''h''"]
  by (simp add: MAX_SCHEMA_BYTES_def)

end
