(* ===== verification/Table_Snapshot.thy ===== *)
theory Table_Snapshot
  imports Catalog_Correct Delete_Vector "HOL-Library.Product_Lexorder"
begin

text \<open>
  Snapshots of native tables (\<open>storage/native/table/mod.rs\<close>, \<open>table/verify.rs\<close>, \<open>table/sidecar.rs\<close>,
  \<open>table/format.rs\<close>) and the planning of writes (\<open>storage/native/write_plan.rs\<close>): the segment list with
  its totals, the checks every loaded or new snapshot passes, the directories a snapshot reaches, and
  the byte limits of a write.  Arrow schemas are a type parameter.
\<close>

section \<open>Data\<close>

record predicate_sidecar_descriptor =
  psd_format_version :: nat
  psd_bytes :: nat
  psd_sha256 :: string
  psd_row_count :: nat
  psd_row_group_count :: nat
  psd_indexed_column_ordinals :: "nat list"

record native_segment =
  ns_segment_id :: string
  ns_owner_version :: nat
  ns_owner_snapshot_id :: string
  ns_format_version :: nat
  ns_schema_fingerprint :: string
  ns_rows :: nat
  ns_bytes :: nat
  ns_sha256 :: string
  ns_predicate_sidecar :: "predicate_sidecar_descriptor option"
  ns_delete_vector :: "delete_vector_descriptor option"

datatype snapshot_operation = Import | Append | Replace | Delete | Update | Truncate

text \<open>The version and the identifier of a snapshot directory; the derived order compares the version
  first.\<close>

type_synonym snapshot_location = "nat \<times> string"

text \<open>The leases are shared objects without contents (\<open>Arc<()>\<close>): what matters is their identity.\<close>

type_synonym lease = nat

record 's table_snapshot =
  ts_format_version :: nat
  ts_database_id :: string
  ts_table_id :: string
  ts_version :: nat
  ts_snapshot_id :: string
  ts_parent :: "table_reference option"
  ts_operation :: snapshot_operation
  ts_schema :: 's
  ts_schema_fingerprint :: string
  ts_source_bytes :: nat
  ts_physical_row_count :: nat
  ts_row_count :: nat
  ts_deleted_row_count :: nat
  ts_segment_bytes :: nat
  ts_delete_vector_bytes :: nat
  ts_storage_bytes :: nat
  ts_segments :: "native_segment list"
  ts_verified_segment_fingerprints :: "string option list"
  ts_manifest_sha256 :: string
  ts_location_leases :: "(snapshot_location \<times> lease) list"

text \<open>The parameters: Arrow's schema encoding and column count, SHA-256 and \<open>Uuid::parse_str\<close>.\<close>

record 's table_env =
  te_encode :: "'s \<Rightarrow> byte list"
  te_columns :: "'s \<Rightarrow> nat"
  te_sha256 :: "byte list \<Rightarrow> string"
  te_uuid_ok :: "string \<Rightarrow> bool"

definition SNAPSHOT_FORMAT_VERSION :: nat where "SNAPSHOT_FORMAT_VERSION = 3"
definition SEGMENT_FORMAT_VERSION :: nat where "SEGMENT_FORMAT_VERSION = 1"
definition SIDECAR_FORMAT_VERSION :: nat where "SIDECAR_FORMAT_VERSION = 1"
definition FIXED_METADATA_ALLOWANCE_BYTES :: nat where "FIXED_METADATA_ALLOWANCE_BYTES = 64 * 1024"
definition CATALOG_HEADROOM_BYTES :: nat where
  "CATALOG_HEADROOM_BYTES = CATALOG_GENERATION_BUDGET_PER_TABLE_BYTES * 2"

definition checked_sum :: "db_error \<Rightarrow> nat list \<Rightarrow> (db_error, nat) result" where
  "checked_sum e values = try_fold (\<lambda>total v. ok_or (checked_add total v) e) 0 values"

definition storage_limit :: "nat \<Rightarrow> nat \<Rightarrow> (db_error, nat) result" where
  "storage_limit source_bytes multiplier =
     ok_or (Option.bind (checked_mul source_bytes multiplier)
       (\<lambda>bytes. checked_add bytes FIXED_METADATA_ALLOWANCE_BYTES)) ResourceExhausted"

section \<open>Verification\<close>

definition predicate_sidecar_descriptor_check ::
  "'s table_env \<Rightarrow> 's table_snapshot \<Rightarrow> native_segment \<Rightarrow> predicate_sidecar_descriptor \<Rightarrow> (db_error, unit) result" where
  "predicate_sidecar_descriptor_check T s seg sidecar =
     (let column_count = te_columns T (ts_schema s); ordinals = psd_indexed_column_ordinals sidecar in
      if column_count \<ge> 2 ^ 32 then Inl NativeStorage
      else if psd_format_version sidecar \<noteq> SIDECAR_FORMAT_VERSION
        \<or> psd_bytes sidecar = 0
        \<or> \<not> valid_sha256 (psd_sha256 sidecar)
        \<or> psd_row_count sidecar \<noteq> ns_rows seg
        \<or> (psd_row_count sidecar > 0 \<and> psd_row_group_count sidecar = 0)
        \<or> ordinals = []
        \<or> \<not> list_all (\<lambda>(a, b). a < b) (zip ordinals (tl ordinals))
        \<or> list_ex (\<lambda>ordinal. ordinal \<ge> column_count) ordinals
      then Inl NativeStorage else Inr ())"

definition delete_vector_descriptor_check ::
  "'s table_env \<Rightarrow> 's table_snapshot \<Rightarrow> native_segment \<Rightarrow> delete_vector_descriptor \<Rightarrow> (db_error, unit) result" where
  "delete_vector_descriptor_check T s seg vector =
     (if \<not> te_uuid_ok T (dvd_owner_snapshot_id vector)
        \<or> dvd_format_version vector \<noteq> DV_FORMAT_VERSION
        \<or> dvd_owner_version vector = 0
        \<or> dvd_owner_version vector > ts_version s
        \<or> dvd_row_count vector \<noteq> ns_rows seg
        \<or> dvd_deleted_rows vector = 0
        \<or> dvd_deleted_rows vector > dvd_row_count vector
        \<or> dvd_bytes vector < 28
        \<or> \<not> valid_sha256 (dvd_sha256 vector)
      then Inl NativeStorage else Inr ())"

definition segment_descriptor ::
  "'s table_env \<Rightarrow> 's table_snapshot \<Rightarrow> native_segment \<Rightarrow> (db_error, unit) result" where
  "segment_descriptor T s seg =
     (if \<not> te_uuid_ok T (ns_segment_id seg) then Inl NativeStorage
      else if \<not> te_uuid_ok T (ns_owner_snapshot_id seg) then Inl NativeStorage
      else if ns_owner_version seg = 0
        \<or> ns_owner_version seg > ts_version s
        \<or> ns_schema_fingerprint seg \<noteq> ts_schema_fingerprint s
        \<or> ns_format_version seg \<noteq> SEGMENT_FORMAT_VERSION
        \<or> \<not> valid_sha256 (ns_sha256 seg)
      then Inl NativeStorage
      else bindr (case ns_predicate_sidecar seg of
          Some sidecar \<Rightarrow> predicate_sidecar_descriptor_check T s seg sidecar | None \<Rightarrow> Inr ()) (\<lambda>_.
        case ns_delete_vector seg of
          Some vector \<Rightarrow> delete_vector_descriptor_check T s seg vector | None \<Rightarrow> Inr ()))"

text \<open>Only an import has no parent; every other operation continues the version of its parent.\<close>

definition parent_consistent :: "catalog_env \<Rightarrow> 's table_snapshot \<Rightarrow> (db_error, unit) result" where
  "parent_consistent E s = (case (ts_operation s, ts_parent s) of
       (Import, None) \<Rightarrow> if ts_version s = 1 then Inr () else Inl NativeStorage
     | (Import, Some _) \<Rightarrow> Inl NativeStorage
     | (_, Some parent) \<Rightarrow>
         if tr_table_id parent = ts_table_id s \<and> checked_add (tr_version parent) 1 = Some (ts_version s)
         then table_reference_validate E parent else Inl NativeStorage
     | (_, None) \<Rightarrow> Inl NativeStorage)"

definition deleted_rows_list :: "native_segment list \<Rightarrow> nat list" where
  "deleted_rows_list segs = List.map_filter (\<lambda>seg. map_option dvd_deleted_rows (ns_delete_vector seg)) segs"

definition delete_bytes_list :: "native_segment list \<Rightarrow> nat list" where
  "delete_bytes_list segs = List.map_filter (\<lambda>seg. map_option dvd_bytes (ns_delete_vector seg)) segs"

definition sidecar_bytes_list :: "native_segment list \<Rightarrow> nat list" where
  "sidecar_bytes_list segs = List.map_filter (\<lambda>seg. map_option psd_bytes (ns_predicate_sidecar seg)) segs"

definition unique_segments ::
  "'s table_env \<Rightarrow> 's table_snapshot \<Rightarrow> string set \<Rightarrow> native_segment \<Rightarrow> (db_error, string set) result" where
  "unique_segments T s ids seg =
     (if ns_segment_id seg \<in> ids then Inl NativeStorage
      else bindr (segment_descriptor T s seg) (\<lambda>_. Inr (insert (ns_segment_id seg) ids)))"

definition verify_snapshot ::
  "'s table_env \<Rightarrow> catalog_env \<Rightarrow> 's table_snapshot \<Rightarrow> (db_error, unit) result" where
  "verify_snapshot T E s =
     (let segs = ts_segments s in
      if \<not> te_uuid_ok T (ts_database_id s) then Inl NativeStorage
      else if \<not> te_uuid_ok T (ts_table_id s) then Inl NativeStorage
      else if \<not> te_uuid_ok T (ts_snapshot_id s) then Inl NativeStorage
      else if ts_version s = 0 then Inl NativeStorage
      else bindr (parent_consistent E s) (\<lambda>_.
      bindr (checked_sum NativeStorage (map ns_rows segs)) (\<lambda>physical_rows.
      bindr (checked_sum NativeStorage (deleted_rows_list segs)) (\<lambda>deleted_rows.
      bindr (ok_or (checked_sub physical_rows deleted_rows) NativeStorage) (\<lambda>visible_rows.
      bindr (checked_sum NativeStorage (map ns_bytes segs)) (\<lambda>bytes.
      if physical_rows \<noteq> ts_physical_row_count s \<or> visible_rows \<noteq> ts_row_count s
         \<or> deleted_rows \<noteq> ts_deleted_row_count s \<or> bytes \<noteq> ts_segment_bytes s
      then Inl NativeStorage
      else bindr (checked_sum NativeStorage (sidecar_bytes_list segs)) (\<lambda>sidecar_bytes.
      bindr (checked_sum NativeStorage (delete_bytes_list segs)) (\<lambda>delete_vector_bytes.
      if delete_vector_bytes \<noteq> ts_delete_vector_bytes s then Inl NativeStorage
      else bindr (ok_or (Option.bind (checked_add bytes sidecar_bytes)
          (\<lambda>bytes. checked_add bytes delete_vector_bytes)) NativeStorage) (\<lambda>managed_bytes.
      bindr (storage_limit (ts_source_bytes s) 2) (\<lambda>limit.
      if managed_bytes > limit then Inl ResourceExhausted
      else bindr (try_fold (unique_segments T s) {} segs) (\<lambda>_. Inr ())))))))))))"

section \<open>Locations\<close>

definition own_location :: "'s table_snapshot \<Rightarrow> snapshot_location" where
  "own_location s = (ts_version s, ts_snapshot_id s)"

definition owner_locations :: "native_segment \<Rightarrow> snapshot_location list" where
  "owner_locations seg = (ns_owner_version seg, ns_owner_snapshot_id seg) #
     (case ns_delete_vector seg of
        Some vector \<Rightarrow> [(dvd_owner_version vector, dvd_owner_snapshot_id vector)] | None \<Rightarrow> [])"

text \<open>A \<open>BTreeSet\<close> collects the locations, so they come ordered and without duplicates.\<close>

definition reachable_locations :: "'s table_snapshot \<Rightarrow> snapshot_location list" where
  "reachable_locations s = sort (remdups (own_location s # concat (map owner_locations (ts_segments s))))"

definition snapshot_reference :: "'s table_snapshot \<Rightarrow> table_reference" where
  "snapshot_reference s = \<lparr>tr_table_id = ts_table_id s, tr_version = ts_version s,
     tr_snapshot_id = ts_snapshot_id s, tr_manifest_sha256 = ts_manifest_sha256 s\<rparr>"

text \<open>Leases: the counter is the next identity a new lease gets.\<close>

definition initialize_location_leases :: "lease \<Rightarrow> 's table_snapshot \<Rightarrow> 's table_snapshot \<times> lease" where
  "initialize_location_leases fresh s =
     (let locations = reachable_locations s
      in (s\<lparr>ts_location_leases := zip locations [fresh..<fresh + length locations]\<rparr>, fresh + length locations))"

fun inherit_leases ::
  "(snapshot_location \<times> lease) list \<Rightarrow> lease \<Rightarrow> snapshot_location list \<Rightarrow> (snapshot_location \<times> lease) list \<times> lease" where
  "inherit_leases previous fresh [] = ([], fresh)"
| "inherit_leases previous fresh (l # ls) = (case map_of previous l of
       Some lease \<Rightarrow> (let (rest, fresh') = inherit_leases previous fresh ls in ((l, lease) # rest, fresh'))
     | None \<Rightarrow> (let (rest, fresh') = inherit_leases previous (fresh + 1) ls in ((l, fresh) # rest, fresh')))"

definition inherit_location_leases ::
  "lease \<Rightarrow> 's table_snapshot \<Rightarrow> 's table_snapshot \<Rightarrow> 's table_snapshot \<times> lease" where
  "inherit_location_leases fresh s previous =
     (let (leases, fresh') = inherit_leases (ts_location_leases previous) fresh (reachable_locations s)
      in (s\<lparr>ts_location_leases := leases\<rparr>, fresh'))"

text \<open>A location without a lease is a panic.\<close>

definition location_lease :: "'s table_snapshot \<Rightarrow> snapshot_location \<Rightarrow> lease option" where
  "location_lease s location = map_of (ts_location_leases s) location"

section \<open>New snapshots\<close>

definition snapshot_new ::
  "'s table_env \<Rightarrow> catalog_env \<Rightarrow> lease \<Rightarrow> string \<Rightarrow> string \<Rightarrow> nat \<Rightarrow> string \<Rightarrow> table_reference option
   \<Rightarrow> snapshot_operation \<Rightarrow> 's \<Rightarrow> nat \<Rightarrow> native_segment list \<Rightarrow> (db_error, 's table_snapshot \<times> lease) result" where
  "snapshot_new T E fresh database_id table_id version snapshot_id parent operation schema source_bytes segs =
     bindr (checked_sum ResourceExhausted (map ns_rows segs)) (\<lambda>physical_row_count.
     bindr (checked_sum ResourceExhausted (deleted_rows_list segs)) (\<lambda>deleted_row_count.
     bindr (ok_or (checked_sub physical_row_count deleted_row_count) NativeStorage) (\<lambda>row_count.
     bindr (checked_sum ResourceExhausted (map ns_bytes segs)) (\<lambda>segment_bytes.
     bindr (checked_sum ResourceExhausted (delete_bytes_list segs)) (\<lambda>delete_vector_bytes.
     let (s, fresh') = initialize_location_leases fresh
       \<lparr>ts_format_version = SNAPSHOT_FORMAT_VERSION, ts_database_id = database_id, ts_table_id = table_id,
        ts_version = version, ts_snapshot_id = snapshot_id, ts_parent = parent, ts_operation = operation,
        ts_schema = schema, ts_schema_fingerprint = te_sha256 T (te_encode T schema),
        ts_source_bytes = source_bytes, ts_physical_row_count = physical_row_count, ts_row_count = row_count,
        ts_deleted_row_count = deleted_row_count, ts_segment_bytes = segment_bytes,
        ts_delete_vector_bytes = delete_vector_bytes, ts_storage_bytes = 0, ts_segments = segs,
        ts_verified_segment_fingerprints = replicate (length segs) None, ts_manifest_sha256 = [],
        ts_location_leases = []\<rparr>
     in bindr (verify_snapshot T E s) (\<lambda>_. Inr (s, fresh')))))))"

definition set_verified_segment_fingerprints ::
  "string option list \<Rightarrow> 's table_snapshot \<Rightarrow> (db_error, 's table_snapshot) result" where
  "set_verified_segment_fingerprints fingerprints s =
     (if length fingerprints \<noteq> length (ts_segments s) then Inl Internal
      else Inr (s\<lparr>ts_verified_segment_fingerprints := fingerprints\<rparr>))"

section \<open>The byte limits of a write\<close>

definition next_version :: "nat \<Rightarrow> (db_error, nat) result" where
  "next_version current = ok_or (checked_add current 1) ResourceExhausted"

definition new_snapshot_limit :: "nat \<Rightarrow> nat \<Rightarrow> nat \<Rightarrow> nat \<Rightarrow> nat \<Rightarrow> (db_error, nat) result" where
  "new_snapshot_limit inherited_source_bytes new_source_bytes inherited_storage_bytes
       retained_old_source_bytes retained_old_storage_bytes =
     bindr (ok_or (checked_add inherited_source_bytes new_source_bytes) ResourceExhausted) (\<lambda>source_bytes.
     bindr (storage_limit source_bytes 2) (\<lambda>final_limit.
     bindr (ok_or (checked_sub final_limit inherited_storage_bytes) ResourceExhausted) (\<lambda>final_remaining.
     bindr (ok_or (checked_add source_bytes retained_old_source_bytes) ResourceExhausted) (\<lambda>peak_source_bytes.
     bindr (storage_limit peak_source_bytes 3) (\<lambda>peak_limit.
     bindr (ok_or (Option.bind (checked_add retained_old_storage_bytes inherited_storage_bytes)
        (\<lambda>bytes. checked_add bytes new_source_bytes)) ResourceExhausted) (\<lambda>peak_used.
     bindr (ok_or (checked_sub peak_limit peak_used) ResourceExhausted) (\<lambda>peak_remaining.
     ok_or (checked_sub (min final_remaining peak_remaining) CATALOG_HEADROOM_BYTES) ResourceExhausted)))))))"

section \<open>Sums\<close>

lemma checked_sum_from:
  assumes "a < u64_limit"
  shows "try_fold (\<lambda>total v. ok_or (checked_add total v) e) a xs =
    (if a + sum_list xs < u64_limit then Inr (a + sum_list xs) else Inl e)"
  using assms
proof (induction xs arbitrary: a)
  case (Cons x xs)
  then show ?case by (cases "a + x < u64_limit") (auto simp: checked_add_def add.assoc)
qed simp

lemma checked_sum_eq: "checked_sum e xs = (if sum_list xs < u64_limit then Inr (sum_list xs) else Inl e)"
  using checked_sum_from [of 0 e xs] by (simp add: checked_sum_def)

lemma storage_limit_Inr: "storage_limit n k = Inr limit \<Longrightarrow> limit = n * k + FIXED_METADATA_ALLOWANCE_BYTES"
  by (auto simp: storage_limit_def result_simps checked_mul_def checked_add_def split: if_splits Option.bind_splits)

section \<open>Well-formed snapshots\<close>

definition segment_ok :: "'s table_snapshot \<Rightarrow> native_segment \<Rightarrow> bool" where
  "segment_ok s seg \<longleftrightarrow> 0 < ns_owner_version seg \<and> ns_owner_version seg \<le> ts_version s
     \<and> ns_schema_fingerprint seg = ts_schema_fingerprint s
     \<and> (\<forall>vector. ns_delete_vector seg = Some vector \<longrightarrow> dvd_owner_version vector \<le> ts_version s
          \<and> dvd_row_count vector = ns_rows seg \<and> 0 < dvd_deleted_rows vector \<and> dvd_deleted_rows vector \<le> ns_rows seg)
     \<and> (\<forall>sidecar. ns_predicate_sidecar seg = Some sidecar \<longrightarrow> psd_row_count sidecar = ns_rows seg
          \<and> sorted_wrt (<) (psd_indexed_column_ordinals sidecar))"

definition snapshot_ok :: "'s table_snapshot \<Rightarrow> bool" where
  "snapshot_ok s \<longleftrightarrow>
     ts_physical_row_count s = sum_list (map ns_rows (ts_segments s))
     \<and> ts_deleted_row_count s = sum_list (deleted_rows_list (ts_segments s))
     \<and> ts_row_count s + ts_deleted_row_count s = ts_physical_row_count s
     \<and> ts_segment_bytes s + sum_list (sidecar_bytes_list (ts_segments s)) + ts_delete_vector_bytes s
         \<le> 2 * ts_source_bytes s + FIXED_METADATA_ALLOWANCE_BYTES
     \<and> distinct (map ns_segment_id (ts_segments s)) \<and> (\<forall>seg \<in> set (ts_segments s). segment_ok s seg)
     \<and> (ts_parent s = None \<longleftrightarrow> ts_operation s = Import) \<and> (ts_operation s = Import \<longrightarrow> ts_version s = 1)
     \<and> (\<forall>parent. ts_parent s = Some parent \<longrightarrow> tr_table_id parent = ts_table_id s \<and> ts_version s = tr_version parent + 1)"

lemma windows_sorted: "list_all (\<lambda>(a, b). a < b) (zip xs (tl xs)) \<Longrightarrow> sorted_wrt (<) (xs :: nat list)"
proof (induction xs)
  case (Cons x xs)
  then show ?case by (cases xs) fastforce+
qed simp

lemma segment_descriptor_ok:
  assumes "segment_descriptor T s seg = Inr u"
  shows "segment_ok s seg"
proof -
  have basic: "0 < ns_owner_version seg" "ns_owner_version seg \<le> ts_version s"
    "ns_schema_fingerprint seg = ts_schema_fingerprint s"
    using assms by (auto simp: segment_descriptor_def split: if_splits)
  have sidecar: "predicate_sidecar_descriptor_check T s seg sidecar = Inr ()" if "ns_predicate_sidecar seg = Some sidecar" for sidecar
    using assms that by (auto simp: segment_descriptor_def result_simps split: if_splits)
  have vector: "delete_vector_descriptor_check T s seg vector = Inr ()" if "ns_delete_vector seg = Some vector" for vector
    using assms that by (auto simp: segment_descriptor_def result_simps split: if_splits)
  have "psd_row_count sidecar = ns_rows seg \<and> sorted_wrt (<) (psd_indexed_column_ordinals sidecar)"
    if "ns_predicate_sidecar seg = Some sidecar" for sidecar
    using sidecar [OF that] windows_sorted
    by (auto simp: predicate_sidecar_descriptor_check_def Let_def split: if_splits)
  moreover have "dvd_owner_version vector \<le> ts_version s \<and> dvd_row_count vector = ns_rows seg
      \<and> 0 < dvd_deleted_rows vector \<and> dvd_deleted_rows vector \<le> ns_rows seg"
    if "ns_delete_vector seg = Some vector" for vector
    using vector [OF that] by (auto simp: delete_vector_descriptor_check_def split: if_splits)
  ultimately show ?thesis using basic by (simp add: segment_ok_def)
qed

lemma unique_segments_ok:
  "try_fold (unique_segments T s) ids segs = Inr ids' \<Longrightarrow>
     distinct (map ns_segment_id segs) \<and> set (map ns_segment_id segs) \<inter> ids = {} \<and> (\<forall>seg \<in> set segs. segment_ok s seg)"
proof (induction segs arbitrary: ids)
  case (Cons seg segs)
  obtain ids1 where step: "unique_segments T s ids seg = Inr ids1" and "try_fold (unique_segments T s) ids1 segs = Inr ids'"
    using Cons.prems by (auto simp: bindr_eq_Inr)
  moreover from step have new: "ns_segment_id seg \<notin> ids" and d: "segment_descriptor T s seg = Inr ()"
    and "ids1 = insert (ns_segment_id seg) ids"
    by (auto simp: unique_segments_def result_simps split: if_splits)
  ultimately have rest: "try_fold (unique_segments T s) (insert (ns_segment_id seg) ids) segs = Inr ids'" by simp
  from Cons.IH [OF rest] new segment_descriptor_ok [OF d] show ?case by auto
qed simp

lemma parent_consistent_ok:
  assumes "parent_consistent E s = Inr u"
  shows "(ts_parent s = None \<longleftrightarrow> ts_operation s = Import) \<and> (ts_operation s = Import \<longrightarrow> ts_version s = 1)
    \<and> (\<forall>parent. ts_parent s = Some parent \<longrightarrow> tr_table_id parent = ts_table_id s \<and> ts_version s = tr_version parent + 1)"
  using assms
  by (cases "ts_operation s"; cases "ts_parent s") (auto simp: parent_consistent_def checked_add_def split: if_splits)

lemma verify_snapshot_ok:
  assumes "verify_snapshot T E s = Inr u"
  shows "snapshot_ok s"
proof -
  let ?segs = "ts_segments s"
  have parent: "parent_consistent E s = Inr ()"
    and rows: "checked_sum NativeStorage (map ns_rows ?segs) = Inr (ts_physical_row_count s)"
    and deleted: "checked_sum NativeStorage (deleted_rows_list ?segs) = Inr (ts_deleted_row_count s)"
    and visible: "checked_sub (ts_physical_row_count s) (ts_deleted_row_count s) = Some (ts_row_count s)"
    and bytes: "checked_sum NativeStorage (map ns_bytes ?segs) = Inr (ts_segment_bytes s)"
    using assms by (auto simp: verify_snapshot_def Let_def result_simps split: if_splits)
  obtain sidecars limit managed ids where sidecar: "checked_sum NativeStorage (sidecar_bytes_list ?segs) = Inr sidecars"
    and vectors: "checked_sum NativeStorage (delete_bytes_list ?segs) = Inr (ts_delete_vector_bytes s)"
    and managed: "Option.bind (checked_add (ts_segment_bytes s) sidecars) (\<lambda>b. checked_add b (ts_delete_vector_bytes s)) = Some managed"
    and limit: "storage_limit (ts_source_bytes s) 2 = Inr limit" and le: "managed \<le> limit"
    and ids: "try_fold (unique_segments T s) {} ?segs = Inr ids"
    using assms by (auto simp: verify_snapshot_def Let_def result_simps split: if_splits)
  have "ts_segment_bytes s + sidecars + ts_delete_vector_bytes s = managed"
    using managed by (auto simp: checked_add_def split: if_splits Option.bind_splits)
  then show ?thesis
    using rows deleted visible sidecar le storage_limit_Inr [OF limit] unique_segments_ok [OF ids] parent_consistent_ok [OF parent]
    by (auto simp: snapshot_ok_def checked_sum_eq checked_sub_def split: if_splits)
qed

lemma snapshot_new_verified:
  assumes "snapshot_new T E fresh db table version sid parent op schema source segs = Inr (s, fresh')"
  shows "verify_snapshot T E s = Inr ()" and "ts_segments s = segs"
  using assms by (auto simp: snapshot_new_def initialize_location_leases_def Let_def result_simps)

section \<open>Reachable locations and leases\<close>

definition reached :: "'s table_snapshot \<Rightarrow> snapshot_location set" where
  "reached s = insert (own_location s) (\<Union>seg \<in> set (ts_segments s). set (owner_locations seg))"

lemma set_reachable: "set (reachable_locations s) = reached s"
  by (auto simp: reachable_locations_def reached_def)

lemma distinct_reachable: "distinct (reachable_locations s)"
  by (simp add: reachable_locations_def)

lemma reached_leases [simp]: "reached (s\<lparr>ts_location_leases := ls\<rparr>) = reached s"
  by (simp add: reached_def own_location_def)

lemma reachable_leases [simp]: "reachable_locations (s\<lparr>ts_location_leases := ls\<rparr>) = reachable_locations s"
  by (simp add: reachable_locations_def own_location_def)

text \<open>A snapshot that holds a lease for each of its locations.\<close>

definition leased :: "'s table_snapshot \<Rightarrow> bool" where
  "leased s \<longleftrightarrow> map fst (ts_location_leases s) = reachable_locations s"

lemma leased_location: "leased s \<Longrightarrow> l \<in> reached s \<Longrightarrow> \<exists>x. location_lease s l = Some x"
  unfolding leased_def location_lease_def set_reachable [symmetric]
  by (metis list.set_map map_of_eq_None_iff option.exhaust)

lemma leased_lease: "leased s \<Longrightarrow> location_lease s l = Some x \<Longrightarrow> l \<in> reached s"
  unfolding leased_def location_lease_def set_reachable [symmetric]
  by (metis list.set_map map_of_SomeD imageI fst_conv)

lemma initialize_leases:
  assumes "initialize_location_leases fresh s = (s', fresh')"
  shows "leased s'" and "reached s' = reached s" and "fresh \<le> fresh'"
    and "location_lease s' l = Some x \<Longrightarrow> fresh \<le> x \<and> x < fresh'"
proof -
  have s': "s' = s\<lparr>ts_location_leases := zip (reachable_locations s) [fresh..<fresh + length (reachable_locations s)]\<rparr>"
    and f: "fresh' = fresh + length (reachable_locations s)"
    using assms by (auto simp: initialize_location_leases_def Let_def)
  show "leased s'" "reached s' = reached s" "fresh \<le> fresh'" by (simp_all add: s' f leased_def)
  show "fresh \<le> x \<and> x < fresh'" if "location_lease s' l = Some x"
    using map_of_SomeD [OF that [unfolded location_lease_def]] by (auto simp: s' f dest: set_zip_rightD)
qed

lemma inherit_leases_spec:
  "inherit_leases previous fresh ls = (leases, fresh') \<Longrightarrow>
     map fst leases = ls \<and> fresh \<le> fresh'
     \<and> (\<forall>(l, x) \<in> set leases. (case map_of previous l of Some y \<Rightarrow> x = y | None \<Rightarrow> fresh \<le> x \<and> x < fresh'))"
proof (induction previous fresh ls arbitrary: leases fresh' rule: inherit_leases.induct)
  case (2 previous fresh l ls)
  show ?case
  proof (cases "map_of previous l")
    case None
    then obtain rest where "inherit_leases previous (fresh + 1) ls = (rest, fresh')" and leases: "leases = (l, fresh) # rest"
      using "2.prems" by (auto split: prod.splits)
    with "2.IH"(1) [OF None] have rest: "map fst rest = ls" "fresh + 1 \<le> fresh'"
      "\<forall>(l, x) \<in> set rest. (case map_of previous l of Some y \<Rightarrow> x = y | None \<Rightarrow> fresh + 1 \<le> x \<and> x < fresh')" by auto
    have "\<forall>(l, x) \<in> set rest. (case map_of previous l of Some y \<Rightarrow> x = y | None \<Rightarrow> fresh \<le> x \<and> x < fresh')"
      using rest(3) by (fastforce split: option.splits)
    with rest None show ?thesis by (auto simp: leases)
  next
    case (Some y)
    then obtain rest where "inherit_leases previous fresh ls = (rest, fresh')" and leases: "leases = (l, y) # rest"
      using "2.prems" by (auto split: prod.splits)
    with "2.IH"(2) [OF Some] Some show ?thesis by auto
  qed
qed simp

lemma inherit_location_leases_spec:
  assumes "inherit_location_leases fresh s previous = (s', fresh')"
  shows "leased s'" and "reached s' = reached s" and "fresh \<le> fresh'"
    and "location_lease s' l = Some x \<Longrightarrow>
      (case location_lease previous l of Some y \<Rightarrow> x = y | None \<Rightarrow> fresh \<le> x \<and> x < fresh')"
proof -
  obtain leases where i: "inherit_leases (ts_location_leases previous) fresh (reachable_locations s) = (leases, fresh')"
    and s': "s' = s\<lparr>ts_location_leases := leases\<rparr>"
    using assms by (auto simp: inherit_location_leases_def split: prod.splits)
  note spec = inherit_leases_spec [OF i]
  show "leased s'" "reached s' = reached s" "fresh \<le> fresh'" using spec by (simp_all add: s' leased_def)
  show "case location_lease previous l of Some y \<Rightarrow> x = y | None \<Rightarrow> fresh \<le> x \<and> x < fresh'" if "location_lease s' l = Some x"
  proof -
    have "(l, x) \<in> set leases" using that map_of_SomeD by (fastforce simp: s' location_lease_def)
    then show ?thesis using spec by (auto simp: location_lease_def)
  qed
qed

end
