(* ===== verification/Transaction_Commit.thy ===== *)
theory Transaction_Commit
  imports Table_Snapshot Commit_Recovery
begin

text \<open>
  Committing a transaction of table writes, drops, renames, views and schemas
  (\<open>storage/native/transaction_commit.rs\<close>): conflict detection against the current catalog, the catalog
  the transaction produces, its durable commit, and the installation of the result in memory with the
  snapshots it retires.
\<close>

section \<open>Data\<close>

record 's native_view =
  nv_version :: nat
  nv_sql :: string
  nv_schema :: 's
  nv_reference :: view_reference

record retired_snapshot =
  rs_name :: string
  rs_lease :: lease
  rs_table_id :: string
  rs_location :: snapshot_location
  rs_source_bytes :: nat

text \<open>The state of an open database that commits change; the external sources are left out.\<close>

record 's native_state =
  nst_catalog :: catalog_state
  nst_tables :: "(string \<times> 's table_snapshot) list"
  nst_views :: "(string \<times> 's native_view) list"
  nst_retired :: "retired_snapshot list"

text \<open>A snapshot whose files are published but not yet committed, with the owner of its transaction.\<close>

record 's published =
  pub_name :: string
  pub_owner :: active_wal
  pub_snapshot :: "'s table_snapshot"

abbreviation pub_transaction_id :: "'s published \<Rightarrow> string" where
  "pub_transaction_id p \<equiv> aw_transaction_id (pub_owner p)"

definition rename_to :: "string \<Rightarrow> 's published \<Rightarrow> 's published" where
  "rename_to name p = p\<lparr>pub_name := name\<rparr>"

record 's transaction_changes =
  ch_snapshot_generation :: nat
  ch_expected_schemas :: "(string \<times> bool) list"
  ch_schema_updates :: "(string \<times> bool) list"
  ch_expected :: "(string \<times> 's table_snapshot option) list"
  ch_writes :: "'s published list"
  ch_drops :: "string list"
  ch_renames :: "(string \<times> string) list"
  ch_expected_views :: "(string \<times> 's native_view option) list"
  ch_view_updates :: "(string \<times> 's native_view option) list"

record native_commit =
  nc_previous_generation :: nat
  nc_generation :: nat
  nc_transaction_id :: string

section \<open>Renaming\<close>

text \<open>First every renamed entry is taken out, then all are put back under their new names; the entries
  this replaces are returned.\<close>

definition take_renamed ::
  "string list \<times> (string \<times> 't) list \<times> (string \<times> 't) list \<Rightarrow> string \<times> string
   \<Rightarrow> (db_error, string list \<times> (string \<times> 't) list \<times> (string \<times> 't) list) result" where
  "take_renamed = (\<lambda>(targets, entries, moved) (old, new).
     if new \<in> set targets then Inl Internal
     else case map_of entries old of
       None \<Rightarrow> Inl Internal
     | Some v \<Rightarrow> Inr (new # targets, bt_remove old entries, moved @ [(new, v)]))"

definition put_renamed ::
  "(string \<times> 't) list \<times> (string \<times> 't) list \<Rightarrow> string \<times> 't \<Rightarrow> (string \<times> 't) list \<times> (string \<times> 't) list" where
  "put_renamed = (\<lambda>(entries, overwritten) (new, v).
     (bt_insert new v entries,
      case map_of entries new of Some old \<Rightarrow> overwritten @ [(new, old)] | None \<Rightarrow> overwritten))"

definition apply_renames ::
  "(string \<times> string) list \<Rightarrow> (string \<times> 't) list \<Rightarrow> (db_error, (string \<times> 't) list \<times> (string \<times> 't) list) result" where
  "apply_renames renames entries =
     bindr (try_fold take_renamed ([], entries, []) renames) (\<lambda>(_, entries', moved).
     Inr (foldl put_renamed (entries', []) moved))"

section \<open>Retiring and installing\<close>

text \<open>The bytes of the source are charged to the first retired location.\<close>

fun retire_locations ::
  "string \<Rightarrow> 's table_snapshot \<Rightarrow> nat \<Rightarrow> snapshot_location list \<Rightarrow> (db_error, retired_snapshot list) result" where
  "retire_locations name old bytes [] = Inr []"
| "retire_locations name old bytes (l # ls) = (case location_lease old l of
       None \<Rightarrow> Inl Panic
     | Some lease \<Rightarrow> bindr (retire_locations name old 0 ls) (\<lambda>rest.
         Inr (\<lparr>rs_name = name, rs_lease = lease, rs_table_id = ts_table_id old, rs_location = l,
               rs_source_bytes = bytes\<rparr> # rest)))"

definition retire_snapshot :: "string \<Rightarrow> 's table_snapshot \<Rightarrow> 's native_state \<Rightarrow> (db_error, 's native_state) result" where
  "retire_snapshot name old st =
     bindr (retire_locations name old (ts_source_bytes old) (reachable_locations old)) (\<lambda>rs.
     Inr (st\<lparr>nst_retired := nst_retired st @ rs\<rparr>))"

definition retire_dropped_snapshot :: "string \<Rightarrow> 's native_state \<Rightarrow> (db_error, 's native_state) result" where
  "retire_dropped_snapshot name st = (case map_of (nst_tables st) name of
       None \<Rightarrow> Inr st
     | Some old \<Rightarrow> retire_snapshot name old (st\<lparr>nst_tables := bt_remove name (nst_tables st)\<rparr>))"

definition install_snapshot ::
  "string \<Rightarrow> 's table_snapshot \<Rightarrow> 's native_state \<Rightarrow> (db_error, 's native_state) result" where
  "install_snapshot name loaded st =
     (let st' = st\<lparr>nst_tables := bt_insert name loaded (nst_tables st)\<rparr> in
      case map_of (nst_tables st) name of
        None \<Rightarrow> Inr st'
      | Some old \<Rightarrow>
          bindr (retire_locations name old (ts_source_bytes old)
            (filter (\<lambda>l. l \<notin> set (reachable_locations loaded)) (reachable_locations old))) (\<lambda>rs.
          Inr (st'\<lparr>nst_retired := nst_retired st @ rs\<rparr>)))"

section \<open>Conflicts\<close>

definition find_map :: "('a \<Rightarrow> 'b option) \<Rightarrow> 'a list \<Rightarrow> 'b option" where
  "find_map f xs = (case List.map_filter f xs of [] \<Rightarrow> None | x # _ \<Rightarrow> Some x)"

definition schema_conflict :: "(string \<times> bool) list \<Rightarrow> string list \<Rightarrow> string option" where
  "schema_conflict expected_schemas current_schemas =
     find_map (\<lambda>(name, expected). if (name \<in> set current_schemas) \<noteq> expected then Some name else None) expected_schemas"

definition same_table :: "'s table_snapshot option \<Rightarrow> 's table_snapshot option \<Rightarrow> bool" where
  "same_table base current = (case (base, current) of
       (None, None) \<Rightarrow> True
     | (Some b, Some c) \<Rightarrow> snapshot_reference b = snapshot_reference c
     | _ \<Rightarrow> False)"

definition same_view :: "'s native_view option \<Rightarrow> 's native_view option \<Rightarrow> bool" where
  "same_view expected current = (case (expected, current) of
       (None, None) \<Rightarrow> True
     | (Some e, Some c) \<Rightarrow> nv_reference e = nv_reference c
     | _ \<Rightarrow> False)"

text \<open>The last write of a table, unless the transaction drops or renames that name.\<close>

definition final_write ::
  "string \<Rightarrow> string list \<Rightarrow> (string \<times> string) list \<Rightarrow> 's published list \<Rightarrow> 's published option" where
  "final_write name drops renames writes =
     (if name \<in> set drops \<or> map_of renames name \<noteq> None then None
      else find (\<lambda>p. pub_name p = name) (rev writes))"

record 's conflict_state =
  cf_writes :: "'s published list"
  cf_rebased :: bool
  cf_conflict :: "string option"

text \<open>The expectations on tables, in the order of the map; a changed table may be rebased, which adds a
  write.  The rebased expectation is not read again.\<close>

fun table_conflicts ::
  "(string \<Rightarrow> 's table_snapshot \<Rightarrow> 's table_snapshot \<Rightarrow> 's table_snapshot \<Rightarrow> (db_error, 's published option) result)
   \<Rightarrow> (string \<times> 's table_snapshot) list \<Rightarrow> string list \<Rightarrow> (string \<times> string) list
   \<Rightarrow> (string \<times> 's table_snapshot option) list \<Rightarrow> 's conflict_state
   \<Rightarrow> 's conflict_state \<times> db_error option" where
  "table_conflicts rebase tables drops renames [] c = (c, None)"
| "table_conflicts rebase tables drops renames ((name, base) # expected) c =
     (let current = map_of tables name in
      if same_table base current then table_conflicts rebase tables drops renames expected c
      else case (case (base, current, final_write name drops renames (cf_writes c)) of
            (Some b, Some cur, Some write) \<Rightarrow> rebase name b cur (pub_snapshot write)
          | _ \<Rightarrow> Inr None) of
        Inr (Some write) \<Rightarrow>
          table_conflicts rebase tables drops renames expected
            (c\<lparr>cf_writes := cf_writes c @ [write], cf_rebased := True\<rparr>)
      | Inr None \<Rightarrow> (c\<lparr>cf_conflict := Some name\<rparr>, None)
      | Inl e \<Rightarrow> (c, Some e))"

definition view_conflict ::
  "(string \<times> 's native_view option) list \<Rightarrow> (string \<times> 's native_view) list \<Rightarrow> string option" where
  "view_conflict expected_views views =
     find_map (\<lambda>(name, expected). if same_view expected (map_of views name) then None else Some name) expected_views"

definition dropped_schema_conflict ::
  "'s transaction_changes \<Rightarrow> (string \<times> 's table_snapshot) list \<Rightarrow> (string \<times> 's native_view) list \<Rightarrow> string option" where
  "dropped_schema_conflict ch tables views =
     find_map (\<lambda>(schema, create).
       if \<not> create
          \<and> (list_ex (\<lambda>name. schema_of name = schema \<and> name \<notin> set (ch_drops ch) \<and> map_of (ch_renames ch) name = None)
               (map fst tables)
             \<or> list_ex (\<lambda>name. schema_of name = schema \<and> map_of (ch_view_updates ch) name \<noteq> Some None) (map fst views))
       then Some schema else None) (ch_schema_updates ch)"

definition or_else :: "'a option \<Rightarrow> 'a option \<Rightarrow> 'a option" where
  "or_else a b = (case a of Some _ \<Rightarrow> a | None \<Rightarrow> b)"

section \<open>The catalog of the transaction\<close>

definition set_insert :: "string \<Rightarrow> string list \<Rightarrow> string list" where
  "set_insert x xs = (if x \<in> set xs then xs else insort x xs)"

definition planned_schemas :: "(string \<times> bool) list \<Rightarrow> string list \<Rightarrow> string list" where
  "planned_schemas updates schemas =
     foldl (\<lambda>ss (name, create). if create then set_insert name ss else removeAll name ss) schemas updates"

text \<open>The index of the last write of each name that is not dropped.\<close>

definition final_indices :: "string list \<Rightarrow> 's published list \<Rightarrow> (string \<times> nat) list" where
  "final_indices drops writes =
     foldl (\<lambda>m (index, write). if pub_name write \<in> set drops then m else bt_insert (pub_name write) index m)
       [] (enumerate 0 writes)"

definition planned_tables ::
  "string list \<Rightarrow> (string \<times> nat) list \<Rightarrow> 's published list \<Rightarrow> (string \<times> table_reference) list \<Rightarrow> (string \<times> table_reference) list"
  where
  "planned_tables drops finals writes tables =
     foldl (\<lambda>m (name, index). bt_insert name (snapshot_reference (pub_snapshot (writes ! index))) m)
       (foldl (\<lambda>m name. bt_remove name m) tables drops) finals"

definition planned_views ::
  "(string \<times> 's native_view option) list \<Rightarrow> (string \<times> view_reference) list \<Rightarrow> (string \<times> view_reference) list" where
  "planned_views updates views =
     foldl (\<lambda>m (name, update). case update of
         Some view \<Rightarrow> bt_insert name (nv_reference view) m | None \<Rightarrow> bt_remove name m) views updates"

section \<open>Installing the commit\<close>

definition install_commit ::
  "'s transaction_changes \<Rightarrow> 's published list \<Rightarrow> (string \<times> nat) list \<Rightarrow> catalog_state
   \<Rightarrow> (string \<times> 's table_snapshot) list \<Rightarrow> (string \<times> 's table_snapshot) list \<Rightarrow> 's native_state
   \<Rightarrow> (db_error, 's native_state) result" where
  "install_commit ch writes finals committed renamed overwritten st =
     (let retired = map (\<lambda>r. case map_of (ch_renames ch) (rs_name r) of
            Some new \<Rightarrow> r\<lparr>rs_name := new\<rparr> | None \<Rightarrow> r) (nst_retired st);
          st1 = st\<lparr>nst_catalog := committed, nst_retired := retired, nst_tables := renamed\<rparr> in
      bindr (try_fold (\<lambda>st (name, old). retire_snapshot name old st) st1 overwritten) (\<lambda>st2.
      bindr (try_fold (\<lambda>st (name, index). install_snapshot name (pub_snapshot (writes ! index)) st) st2 finals) (\<lambda>st3.
      bindr (try_fold (\<lambda>st name. retire_dropped_snapshot name st) st3 (ch_drops ch)) (\<lambda>st4.
      Inr (st4\<lparr>nst_views := foldl (\<lambda>m (name, update). case update of
          Some view \<Rightarrow> bt_insert name view m | None \<Rightarrow> bt_remove name m) (nst_views st4) (ch_view_updates ch)\<rparr>)))))"

section \<open>Cleaning up\<close>

text \<open>What the operations of a commit meet: the two environments, the faults of the durable commit and
  of the log appends (by transaction), the unique parts of temporary names, the outcome of removing a
  published snapshot, the rebase of a write and the quota check of a rebased transaction.\<close>

record 's tx_env =
  tx_catalog :: catalog_env
  tx_log :: log_env
  tx_faults :: commit_faults
  tx_begin :: append_faults
  tx_abort :: "string \<Rightarrow> append_faults"
  tx_abort_on_drop :: "string \<Rightarrow> append_faults"
  tx_unique :: "string \<Rightarrow> string"
  tx_remove :: "'s table_snapshot \<Rightarrow> db_error option"
  tx_rebase :: "string \<Rightarrow> 's table_snapshot \<Rightarrow> 's table_snapshot \<Rightarrow> 's table_snapshot \<Rightarrow> (db_error, 's published option) result"
  tx_quota :: "'s published list \<Rightarrow> (db_error, unit) result"

definition append_failure :: "db_error option \<Rightarrow> db_error \<Rightarrow> db_error option" where
  "append_failure failure e = Some (case failure of Some _ \<Rightarrow> NativeStorage | None \<Rightarrow> e)"

text \<open>Dropping a published write aborts its transaction when its owner is still armed.\<close>

definition drop_write :: "'s tx_env \<Rightarrow> 's published \<Rightarrow> wal \<Rightarrow> wal" where
  "drop_write X p w = active_wal_drop (tx_log X) (tx_abort_on_drop X (pub_transaction_id p))
     (tx_unique X (pub_transaction_id p)) (pub_owner p) w"

definition remove_and_abort :: "'s tx_env \<Rightarrow> 's published \<Rightarrow> wal \<Rightarrow> wal \<times> db_error option" where
  "remove_and_abort X p w =
     (let f1 = (case tx_remove X (pub_snapshot p) of Some e \<Rightarrow> append_failure None e | None \<Rightarrow> None) in
      case active_wal_abort (tx_log X) (tx_abort X (pub_transaction_id p)) (tx_unique X (pub_transaction_id p))
             (pub_owner p, w) of
        ((owner, w'), r) \<Rightarrow>
          (drop_write X (p\<lparr>pub_owner := owner\<rparr>) w',
           case r of Inl e \<Rightarrow> append_failure f1 e | Inr _ \<Rightarrow> f1))"

text \<open>The writes are undone from the last to the first.\<close>

fun abort_writes :: "'s tx_env \<Rightarrow> 's published list \<Rightarrow> wal \<Rightarrow> db_error option \<Rightarrow> wal \<times> db_error option" where
  "abort_writes X [] w failure = (w, failure)"
| "abort_writes X (p # ps) w failure =
     (case remove_and_abort X p w of (w', f) \<Rightarrow>
      abort_writes X ps w' (case f of Some e \<Rightarrow> append_failure failure e | None \<Rightarrow> failure))"

definition abort_published :: "'s tx_env \<Rightarrow> 's published list \<Rightarrow> wal \<Rightarrow> wal \<times> db_error option" where
  "abort_published X writes w = abort_writes X (rev writes) w None"

definition abort_commit ::
  "'s tx_env \<Rightarrow> 's published list \<Rightarrow> bool \<Rightarrow> string \<Rightarrow> db_error \<Rightarrow> wal \<Rightarrow> wal \<times> db_error" where
  "abort_commit X writes standalone coordinator e w =
     (case abort_published X writes w of (w1, writes_cleanup) \<Rightarrow>
      case (if standalone then wal_abort (tx_log X) (tx_abort X coordinator) (tx_unique X coordinator) coordinator w1
            else (w1, Inr ())) of (w2, coordinator_cleanup) \<Rightarrow>
      (w2, if writes_cleanup = None \<and> is_ok coordinator_cleanup then e else NativeStorage))"

text \<open>After the commit: remove the superseded snapshots and abort the other transactions, from the last
  write to the first, stopping at the first failure.\<close>

fun cleanup_writes ::
  "'s tx_env \<Rightarrow> snapshot_location set \<Rightarrow> (string \<times> nat) list \<Rightarrow> string \<Rightarrow> (nat \<times> 's published) list \<Rightarrow> wal
   \<Rightarrow> wal \<times> db_error option" where
  "cleanup_writes X kept finals coordinator [] w = (w, None)"
| "cleanup_writes X kept finals coordinator ((index, p) # ps) w =
     (case (if map_of finals (pub_name p) \<noteq> Some index \<and> own_location (pub_snapshot p) \<notin> kept
            then tx_remove X (pub_snapshot p) else None) of
        Some e \<Rightarrow> (w, Some e)
      | None \<Rightarrow>
      if pub_transaction_id p = coordinator then cleanup_writes X kept finals coordinator ps w
      else case wal_abort (tx_log X) (tx_abort X (pub_transaction_id p)) (tx_unique X (pub_transaction_id p))
             (pub_transaction_id p) w of
        (w', Inl e) \<Rightarrow> (w', Some e)
      | (w', Inr _) \<Rightarrow> cleanup_writes X kept finals coordinator ps w')"

definition cleanup_nonfinal ::
  "'s tx_env \<Rightarrow> 's published list \<Rightarrow> (string \<times> nat) list \<Rightarrow> string \<Rightarrow> wal \<Rightarrow> wal \<times> db_error option" where
  "cleanup_nonfinal X writes finals coordinator w =
     cleanup_writes X (\<Union>(_, index) \<in> set finals. set (reachable_locations (pub_snapshot (writes ! index))))
       finals coordinator (rev (enumerate 0 writes)) w"

section \<open>The commit\<close>

type_synonym 's tx_state = "catalog_dirs \<times> wal \<times> 's native_state"

text \<open>The part before the state lock: expectations, rebasing and the quota of a rebased transaction.
  The result is the writes to commit.\<close>

definition check_transaction_changes ::
  "'s tx_env \<Rightarrow> 's transaction_changes \<Rightarrow> 's native_state \<Rightarrow> 's published list \<times> (db_error, unit) result" where
  "check_transaction_changes X ch st =
     (case table_conflicts (tx_rebase X) (nst_tables st) (ch_drops ch) (ch_renames ch) (ch_expected ch)
         \<lparr>cf_writes = ch_writes ch, cf_rebased = False,
          cf_conflict = schema_conflict (ch_expected_schemas ch) (cs_schemas (nst_catalog st))\<rparr> of
        (c, Some e) \<Rightarrow> (cf_writes c, Inl e)
      | (c, None) \<Rightarrow>
          if or_else (or_else (cf_conflict c) (view_conflict (ch_expected_views ch) (nst_views st)))
               (dropped_schema_conflict ch (nst_tables st) (nst_views st)) \<noteq> None
          then (cf_writes c, Inl TransactionConflict)
          else (cf_writes c, if cf_rebased c then tx_quota X (cf_writes c) else Inr ()))"

text \<open>The catalog the transaction produces, and the renamed snapshots with those they replace.\<close>

record 's planned =
  pl_coordinator :: string
  pl_standalone :: bool
  pl_writes :: "'s published list"
  pl_tables :: "(string \<times> table_reference) list"
  pl_renamed :: "(string \<times> 's table_snapshot) list"
  pl_overwritten :: "(string \<times> 's table_snapshot) list"

definition plan_transaction ::
  "'s transaction_changes \<Rightarrow> string \<Rightarrow> 's published list \<Rightarrow> 's native_state \<Rightarrow> (db_error, 's planned) result" where
  "plan_transaction ch coordinator writes st =
     bindr (apply_renames (ch_renames ch) (cs_tables (nst_catalog st))) (\<lambda>(tables, _).
     bindr (apply_renames (ch_renames ch) (nst_tables st)) (\<lambda>(renamed, overwritten).
     Inr \<lparr>pl_coordinator = coordinator, pl_standalone = (ch_writes ch = []), pl_writes = writes,
          pl_tables = planned_tables (ch_drops ch) (final_indices (ch_drops ch) writes) writes tables,
          pl_renamed = renamed, pl_overwritten = overwritten\<rparr>))"

text \<open>The end of the commit: install the result in memory and clean up.\<close>

definition complete_commit ::
  "'s tx_env \<Rightarrow> 's transaction_changes \<Rightarrow> 's planned \<Rightarrow> catalog_state \<Rightarrow> 's tx_state
   \<Rightarrow> 's tx_state \<times> (db_error, native_commit) result" where
  "complete_commit X ch pl committed = (\<lambda>(dirs, w, st).
     let finals = final_indices (ch_drops ch) (pl_writes pl) in
     case install_commit ch (pl_writes pl) finals committed (pl_renamed pl) (pl_overwritten pl) st of
       Inl e \<Rightarrow> ((dirs, w, st), Inl e)
     | Inr st' \<Rightarrow>
     case cleanup_nonfinal X (pl_writes pl) finals (pl_coordinator pl) w of
       (w', Some e) \<Rightarrow> ((dirs, w', st'), Inl (NativeCommitPostCommitFailure (cs_generation committed)))
     | (w', None) \<Rightarrow> ((dirs, w', st'),
         Inr \<lparr>nc_previous_generation = cs_generation (nst_catalog st), nc_generation = cs_generation committed,
              nc_transaction_id = pl_coordinator pl\<rparr>))"

text \<open>From the durable commit record on: publish the catalog, remove what it supersedes, complete.\<close>

definition publish_commit ::
  "'s tx_env \<Rightarrow> 's transaction_changes \<Rightarrow> 's planned \<Rightarrow> catalog_state \<Rightarrow> 's tx_state
   \<Rightarrow> 's tx_state \<times> (db_error, native_commit) result" where
  "publish_commit X ch pl prepared = (\<lambda>(dirs, w, st).
     case publish_prepared (tx_catalog X) (cf_publish (tx_faults X)) (w_database_id w) (cs_generation (nst_catalog st))
            prepared (pl_coordinator pl) dirs of
       (dirs1, Inl e) \<Rightarrow> ((dirs1, w, st), Inl (catalog_publication_error e))
     | (dirs1, Inr committed) \<Rightarrow>
     if cf_inherited (tx_faults X)
     then ((dirs1, w, st), Inl (NativeCommitPostCommitFailure (cs_generation committed)))
     else case prune_old_generations (tx_catalog X) (cf_prune (tx_faults X)) (w_database_id w) (cs_generation committed) dirs1 of
       (dirs2, Inl e) \<Rightarrow> ((dirs2, w, st), Inl (NativeCommitPostCommitFailure (cs_generation committed)))
     | (dirs2, Inr _) \<Rightarrow> complete_commit X ch pl committed (dirs2, w, st))"

text \<open>Prepare the generation and log the commit; a failed log append drops the writes, the first of
  which is already released to recovery.\<close>

definition log_commit ::
  "'s tx_env \<Rightarrow> 's transaction_changes \<Rightarrow> 's planned \<Rightarrow> 's tx_state \<Rightarrow> 's tx_state \<times> (db_error, native_commit) result" where
  "log_commit X ch pl = (\<lambda>(dirs, w, st).
     let previous = cs_generation (nst_catalog st); unique = tx_unique X (pl_coordinator pl) in
     case prepare_catalog_commit (tx_catalog X) (cf_prepare (tx_faults X)) unique (w_database_id w) previous
            (planned_schemas (ch_schema_updates ch) (cs_schemas (nst_catalog st))) (pl_tables pl)
            (planned_views (ch_view_updates ch) (cs_views (nst_catalog st))) (pl_coordinator pl) dirs of
       (dirs1, Inl e) \<Rightarrow>
         (case abort_commit X (pl_writes pl) (pl_standalone pl) (pl_coordinator pl) e w of (w1, e') \<Rightarrow> ((dirs1, w1, st), Inl e'))
     | (dirs1, Inr prepared) \<Rightarrow>
     case commit_catalog (tx_log X) (cf_append (tx_faults X)) unique (pl_coordinator pl) previous (cs_generation prepared) w of
       (w1, Inl e) \<Rightarrow> ((dirs1, fold (drop_write X) (tl (pl_writes pl)) w1, st), Inl (wal_commit_error e))
     | (w1, Inr _) \<Rightarrow> publish_commit X ch pl prepared (dirs1, w1, st))"

definition transaction_commit ::
  "'s tx_env \<Rightarrow> string \<Rightarrow> 's transaction_changes \<Rightarrow> 's tx_state \<Rightarrow> 's tx_state \<times> (db_error, native_commit) result" where
  "transaction_commit X fresh ch = (\<lambda>(dirs, w, st).
     if ch_writes ch = [] \<and> ch_drops ch = [] \<and> ch_renames ch = [] \<and> ch_view_updates ch = [] \<and> ch_schema_updates ch = []
     then ((dirs, w, st), Inl InvalidArgument)
     else
     let standalone = (ch_writes ch = []);
         coordinator = (case ch_writes ch of [] \<Rightarrow> fresh | p # _ \<Rightarrow> pub_transaction_id p) in
     case (if standalone
           then wal_begin (tx_log X) (tx_begin X) (tx_unique X coordinator) coordinator (ch_snapshot_generation ch) w
           else (w, Inr ())) of
       (w0, Inl e) \<Rightarrow> ((dirs, w0, st), Inl e)
     | (w0, Inr _) \<Rightarrow>
     case check_transaction_changes X ch st of (writes, checked) \<Rightarrow>
     case bindr checked (\<lambda>_. plan_transaction ch coordinator writes st) of
       Inl e \<Rightarrow> (case abort_commit X writes standalone coordinator e w0 of (w1, e') \<Rightarrow> ((dirs, w1, st), Inl e'))
     | Inr pl \<Rightarrow> log_commit X ch pl (dirs, w0, st))"

end
