(* ===== verification/Transaction_Correct.thy ===== *)
theory Transaction_Correct
  imports Transaction_Commit
begin

text \<open>
  What a transaction commit does: the renames act at once on the whole catalog, the last write of a
  name wins over renames and a drop over both, the tables in memory stay in step with the catalog, and
  no commit meets a snapshot without a lease.
\<close>

section \<open>Renaming\<close>

lemma map_filter_cong: "(\<And>x. x \<in> set xs \<Longrightarrow> f x = g x) \<Longrightarrow> List.map_filter f xs = List.map_filter g xs"
  by (induction xs) (simp_all add: map_filter_simps split: option.split)

definition renamed_entry :: "(string \<times> string) list \<Rightarrow> (string \<rightharpoonup> 't) \<Rightarrow> string \<rightharpoonup> 't" where
  "renamed_entry renames m n = (case map_of (map prod.swap renames) n of
       Some old \<Rightarrow> m old
     | None \<Rightarrow> if n \<in> fst ` set renames then None else m n)"

lemma take_renamed_loop:
  assumes "distinct (map fst renames)" and "bt_ok entries"
  shows "try_fold take_renamed (targets, entries, moved) renames =
    (if distinct (map snd renames) \<and> set (map snd renames) \<inter> set targets = {} \<and> (\<forall>old \<in> fst ` set renames. map_of entries old \<noteq> None)
     then Inr (rev (map snd renames) @ targets, filter (\<lambda>(k, _). k \<notin> fst ` set renames) entries,
               moved @ map (\<lambda>(old, new). (new, the (map_of entries old))) renames)
     else Inl Internal)"
  using assms
proof (induction renames arbitrary: targets entries moved)
  case Nil
  then show ?case by simp
next
  case (Cons r renames)
  obtain old new where r: "r = (old, new)" by (cases r)
  have d: "distinct (map fst renames)" and old: "old \<notin> fst ` set renames" using Cons.prems(1) by (auto simp: r)
  show ?case
  proof (cases "new \<in> set targets \<or> map_of entries old = None")
    case True
    then show ?thesis by (auto simp: r take_renamed_def)
  next
    case False
    then obtain v where v: "map_of entries old = Some v" and new: "new \<notin> set targets" by auto
    have rest: "map_of (bt_remove old entries) x = map_of entries x" if "x \<in> fst ` set renames" for x
      using that old by (auto simp: map_of_bt_remove)
    have rest': "map_of (bt_remove old entries) x = map_of entries x" if "(x, y) \<in> set renames" for x y
      using that by (intro rest) (rule image_eqI [of _ fst "(x, y)"], simp_all)
    have same: "map (\<lambda>(o', n). (n, the (map_of (bt_remove old entries) o'))) renames = map (\<lambda>(o', n). (n, the (map_of entries o'))) renames"
      using rest' by (intro map_cong) auto
    have filt: "filter (\<lambda>(k, _). k \<notin> fst ` set renames) (bt_remove old entries)
        = filter (\<lambda>(k, _). k \<notin> fst ` set (r # renames)) entries"
      unfolding bt_remove_def filter_filter by (rule filter_cong) (auto simp: r)
    have step: "try_fold take_renamed (targets, entries, moved) (r # renames)
        = try_fold take_renamed (new # targets, bt_remove old entries, moved @ [(new, v)]) renames"
      by (simp add: r take_renamed_def v new)
    have cond: "(distinct (map snd (r # renames)) \<and> set (map snd (r # renames)) \<inter> set targets = {}
          \<and> (\<forall>old \<in> fst ` set (r # renames). map_of entries old \<noteq> None))
        = (distinct (map snd renames) \<and> set (map snd renames) \<inter> set (new # targets) = {}
          \<and> (\<forall>o' \<in> fst ` set renames. map_of (bt_remove old entries) o' \<noteq> None))"
      using rest v new by (auto simp: r)
    show ?thesis
      unfolding step cond Cons.IH [OF d bt_ok_remove [OF Cons.prems(2)]] filt same by (simp add: r v)
  qed
qed

lemma put_renamed_loop:
  assumes "bt_ok entries" and "distinct (map fst moved)"
  shows "foldl put_renamed (entries, overwritten) moved = (entries', overwritten') \<Longrightarrow>
    bt_ok entries' \<and> map_of entries' = map_of entries ++ map_of moved
    \<and> overwritten' = overwritten @ List.map_filter (\<lambda>(new, _). map_option (Pair new) (map_of entries new)) moved"
  using assms
proof (induction moved arbitrary: entries overwritten)
  case (Cons m moved)
  obtain new v where m: "m = (new, v)" by (cases m)
  have new: "new \<notin> fst ` set moved" "distinct (map fst moved)" using Cons.prems(3) by (auto simp: m)
  have others: "List.map_filter (\<lambda>(n, _). map_option (Pair n) (map_of (bt_insert new v entries) n)) moved
      = List.map_filter (\<lambda>(n, _). map_option (Pair n) (map_of entries n)) moved"
    using new(1) Cons.prems(2) by (intro map_filter_cong) (auto simp: map_of_bt_insert rev_image_eqI)
  have "map_of moved new = None" using new(1) by (simp add: map_of_eq_None_iff)
  then have merge: "(map_of entries)(new \<mapsto> v) ++ map_of moved = map_of entries ++ map_of (m # moved)"
    by (auto simp: m fun_eq_iff map_add_def split: option.splits)
  from Cons.IH [of "bt_insert new v entries" "case map_of entries new of Some old \<Rightarrow> overwritten @ [(new, old)] | None \<Rightarrow> overwritten"]
    Cons.prems(1,2) new(2)
  have "bt_ok entries' \<and> map_of entries' = (map_of entries)(new \<mapsto> v) ++ map_of moved
      \<and> overwritten' = (case map_of entries new of Some old \<Rightarrow> overwritten @ [(new, old)] | None \<Rightarrow> overwritten)
         @ List.map_filter (\<lambda>(n, _). map_option (Pair n) (map_of entries n)) moved"
    unfolding others by (simp add: m put_renamed_def map_of_bt_insert fun_upd_def)
  then have put: "bt_ok entries'" "map_of entries' = map_of entries ++ map_of (m # moved)"
    "overwritten' = (case map_of entries new of Some old \<Rightarrow> overwritten @ [(new, old)] | None \<Rightarrow> overwritten)
       @ List.map_filter (\<lambda>(n, _). map_option (Pair n) (map_of entries n)) moved"
    unfolding merge by blast+
  show ?case by (intro conjI put(1,2)) (simp add: put(3) m map_filter_simps split: option.split)
qed (simp add: map_filter_simps)

definition renames_apply :: "(string \<times> string) list \<Rightarrow> (string \<rightharpoonup> 't) \<Rightarrow> bool" where
  "renames_apply renames m \<longleftrightarrow> distinct (map snd renames) \<and> (\<forall>old \<in> fst ` set renames. m old \<noteq> None)"

definition overwritten_entries :: "(string \<times> string) list \<Rightarrow> (string \<rightharpoonup> 't) \<Rightarrow> (string \<times> 't) list" where
  "overwritten_entries renames m = List.map_filter
     (\<lambda>(_, new). if new \<in> fst ` set renames then None else map_option (Pair new) (m new)) renames"

lemma map_of_filter_keys: "map_of (filter (\<lambda>(k, _). P k) m) = (\<lambda>k. if P k then map_of m k else None)"
  by (induction m) (auto simp: fun_eq_iff)

lemma map_filter_map: "List.map_filter f (map g xs) = List.map_filter (f \<circ> g) xs"
  by (simp add: List.map_filter_def filter_map comp_def)

lemma bt_ok_filter: "bt_ok m \<Longrightarrow> bt_ok (filter (\<lambda>(k, _). P k) m)"
proof -
  have "map fst (filter (\<lambda>(k, _). P k) m) = filter P (map fst m)" by (induction m) auto
  then show "bt_ok m \<Longrightarrow> bt_ok (filter (\<lambda>(k, _). P k) m)" by (simp add: bt_ok_def sorted_wrt_filter)
qed

text \<open>The moved entries, as a map.\<close>

lemma map_of_moved:
  assumes "distinct (map snd renames)" and "\<And>old. old \<in> fst ` set renames \<Longrightarrow> m old \<noteq> None"
  shows "map_of (map (\<lambda>(old, new). (new, the (m old))) renames) n
    = (case map_of (map prod.swap renames) n of Some old \<Rightarrow> m old | None \<Rightarrow> None)"
  using assms by (induction renames) (auto split: option.splits)

lemma apply_renames_eq:
  assumes "distinct (map fst renames)" and "bt_ok entries"
  shows "renames_apply renames (map_of entries) \<Longrightarrow> \<exists>entries'. apply_renames renames entries
      = Inr (entries', overwritten_entries renames (map_of entries))
      \<and> bt_ok entries' \<and> map_of entries' = renamed_entry renames (map_of entries)"
    and "\<not> renames_apply renames (map_of entries) \<Longrightarrow> apply_renames renames entries = Inl Internal"
proof -
  let ?rest = "filter (\<lambda>(k, _). k \<notin> fst ` set renames) entries"
  let ?moved = "map (\<lambda>(old, new). (new, the (map_of entries old))) renames"
  note loop = take_renamed_loop [OF assms, of "[]" "[]"]
  show "apply_renames renames entries = Inl Internal" if "\<not> renames_apply renames (map_of entries)"
    using that by (auto simp: apply_renames_def loop renames_apply_def)
  assume ok: "renames_apply renames (map_of entries)"
  obtain entries' ow where f: "foldl put_renamed (?rest, []) ?moved = (entries', ow)" by (cases "foldl put_renamed (?rest, []) ?moved")
  have d: "distinct (map fst ?moved)" using ok by (simp add: renames_apply_def comp_def case_prod_unfold)
  note put = put_renamed_loop [OF bt_ok_filter [OF assms(2)] d f]
  have olds: "map_of entries old \<noteq> None" if "old \<in> fst ` set renames" for old
    using ok that unfolding renames_apply_def by blast
  note mv = map_of_moved [of renames "map_of entries", OF conjunct1 [OF ok [unfolded renames_apply_def]] olds]
  have entry: "map_of entries' n = renamed_entry renames (map_of entries) n" for n
  proof (cases "map_of (map prod.swap renames) n")
    case None
    then have "map_of ?moved n = None" by (simp add: mv)
    then show ?thesis using put None by (simp add: renamed_entry_def map_add_def map_of_filter_keys)
  next
    case (Some old)
    then have "old \<in> fst ` set renames" by (force dest: map_of_SomeD)
    then obtain v where v: "map_of entries old = Some v" using olds by blast
    then have "map_of ?moved n = Some v" using Some by (simp add: mv)
    then show ?thesis using put Some v by (simp add: renamed_entry_def map_add_def)
  qed
  have "ow = overwritten_entries renames (map_of entries)"
    using put by (auto simp: overwritten_entries_def map_filter_map map_of_filter_keys intro!: map_filter_cong)
  moreover have "apply_renames renames entries = Inr (entries', ow)"
    using ok f by (auto simp: apply_renames_def loop renames_apply_def)
  ultimately show "\<exists>entries'. apply_renames renames entries
      = Inr (entries', overwritten_entries renames (map_of entries))
      \<and> bt_ok entries' \<and> map_of entries' = renamed_entry renames (map_of entries)"
    using put entry by (intro exI [of _ entries']) (auto simp: fun_eq_iff)
qed

section \<open>Writes and drops\<close>

definition last_write :: "'s published list \<Rightarrow> string \<Rightarrow> 's published option" where
  "last_write writes n = find (\<lambda>p. pub_name p = n) (rev writes)"

text \<open>The entry of a name after a transaction: a drop hides a write, a write hides the renamed entry.\<close>

definition committed_entry ::
  "string list \<Rightarrow> 's published list \<Rightarrow> ('s table_snapshot \<Rightarrow> 't) \<Rightarrow> (string \<rightharpoonup> 't) \<Rightarrow> string \<rightharpoonup> 't" where
  "committed_entry drops writes f m n = (if n \<in> set drops then None
     else case last_write writes n of Some p \<Rightarrow> Some (f (pub_snapshot p)) | None \<Rightarrow> m n)"

lemma last_write_snoc: "last_write (writes @ [p]) n = (if pub_name p = n then Some p else last_write writes n)"
  by (simp add: last_write_def)

lemma final_indices_snoc:
  "final_indices drops (writes @ [p]) = (if pub_name p \<in> set drops then final_indices drops writes
     else bt_insert (pub_name p) (length writes) (final_indices drops writes))"
  by (simp add: final_indices_def enumerate_append_eq)

lemma final_indices_spec:
  "bt_ok (final_indices drops writes)
   \<and> (\<forall>n. case map_of (final_indices drops writes) n of
         Some i \<Rightarrow> i < length writes \<and> n \<notin> set drops \<and> last_write writes n = Some (writes ! i)
       | None \<Rightarrow> n \<in> set drops \<or> last_write writes n = None)"
proof (induction writes rule: rev_induct)
  case Nil
  then show ?case by (simp add: final_indices_def last_write_def)
next
  case (snoc p writes)
  have "case map_of (final_indices drops (writes @ [p])) n of
        Some i \<Rightarrow> i < length (writes @ [p]) \<and> n \<notin> set drops \<and> last_write (writes @ [p]) n = Some ((writes @ [p]) ! i)
      | None \<Rightarrow> n \<in> set drops \<or> last_write (writes @ [p]) n = None" for n
    using conjunct1 [OF snoc.IH] spec [OF conjunct2 [OF snoc.IH], of n]
    by (auto simp: final_indices_snoc last_write_snoc map_of_bt_insert nth_append split: option.splits if_splits)
  with conjunct1 [OF snoc.IH] show ?case by (simp add: final_indices_snoc)
qed

lemma fold_insert:
  assumes "bt_ok m" and "distinct (map fst kvs)"
  shows "bt_ok (foldl (\<lambda>m (k, x). bt_insert k (f x) m) m kvs)
    \<and> map_of (foldl (\<lambda>m (k, x). bt_insert k (f x) m) m kvs) n
      = (case map_of kvs n of Some x \<Rightarrow> Some (f x) | None \<Rightarrow> map_of m n)"
  using assms
proof (induction kvs arbitrary: m)
  case (Cons kv kvs)
  obtain k x where kv: "kv = (k, x)" by (cases kv)
  have "k \<notin> fst ` set kvs" "distinct (map fst kvs)" using Cons.prems(2) by (auto simp: kv)
  then have "map_of kvs k = None" by (simp add: map_of_eq_None_iff)
  then show ?case
    using Cons.IH [of "bt_insert k (f x) m"] Cons.prems(1) \<open>distinct (map fst kvs)\<close>
    by (auto simp: kv map_of_bt_insert split: option.splits)
qed simp

lemma fold_remove:
  "bt_ok m \<Longrightarrow> bt_ok (foldl (\<lambda>m k. bt_remove k m) m ks)
    \<and> map_of (foldl (\<lambda>m k. bt_remove k m) m ks) n = (if n \<in> set ks then None else map_of m n)"
  by (induction ks arbitrary: m) (auto simp: map_of_bt_remove)

text \<open>Both orders, drops before or after the writes, give the committed entries: a dropped name has no
  final write.\<close>

lemma final_entry:
  "(case map_of (final_indices drops writes) n of Some i \<Rightarrow> Some (f (pub_snapshot (writes ! i))) | None \<Rightarrow> m n)
    = (if n \<in> set drops then m n else committed_entry drops writes f m n)"
  using spec [OF conjunct2 [OF final_indices_spec], of n drops writes]
  by (auto simp: committed_entry_def split: option.splits)

lemma planned_tables_entry:
  assumes "bt_ok tables"
  shows "bt_ok (planned_tables drops (final_indices drops writes) writes tables)"
    and "map_of (planned_tables drops (final_indices drops writes) writes tables) n
      = committed_entry drops writes snapshot_reference (map_of tables) n"
proof -
  note rm = fold_remove [OF assms, where ks = drops]
  note ins = fold_insert [OF conjunct1 [OF rm] bt_ok_distinct [OF conjunct1 [OF final_indices_spec]],
      where f = "\<lambda>i. snapshot_reference (pub_snapshot (writes ! i))"]
  show "bt_ok (planned_tables drops (final_indices drops writes) writes tables)"
    using ins unfolding planned_tables_def by blast
  have "map_of (planned_tables drops (final_indices drops writes) writes tables) n
      = (if n \<in> set drops then map_of (foldl (\<lambda>m k. bt_remove k m) tables drops) n
         else committed_entry drops writes snapshot_reference (map_of (foldl (\<lambda>m k. bt_remove k m) tables drops)) n)"
    unfolding final_entry [symmetric] planned_tables_def by (rule conjunct2 [OF ins])
  then show "map_of (planned_tables drops (final_indices drops writes) writes tables) n
      = committed_entry drops writes snapshot_reference (map_of tables) n"
    using rm [of n] by (auto simp: committed_entry_def split: option.split)
qed

section \<open>Installing\<close>

lemma retire_locations_ok:
  assumes "leased old" and "set ls \<subseteq> reached old"
  shows "\<exists>rs. retire_locations name old bytes ls = Inr rs"
  using assms(2)
proof (induction ls arbitrary: bytes)
  case (Cons l ls)
  then have "l \<in> reached old" by simp
  then obtain x where "location_lease old l = Some x" using leased_location [OF assms(1)] by blast
  then show ?case using Cons by (auto simp: result_simps)
qed simp

lemma retire_locations_error: "retire_locations name old bytes ls = Inl e \<Longrightarrow> e = Panic"
  by (induction name old bytes ls rule: retire_locations.induct) (auto simp: result_simps split: option.splits)

text \<open>What a step of the installation keeps, and that it succeeds on leased snapshots.\<close>

definition leased_tables :: "(string \<times> 's table_snapshot) list \<Rightarrow> bool" where
  "leased_tables tables \<longleftrightarrow> bt_ok tables \<and> (\<forall>n s. map_of tables n = Some s \<longrightarrow> leased s)"

lemma retire_snapshot_step:
  assumes "leased old"
  shows "\<exists>rs. retire_snapshot name old st = Inr (st\<lparr>nst_retired := nst_retired st @ rs\<rparr>)"
  using retire_locations_ok [OF assms, of "reachable_locations old" name "ts_source_bytes old"]
  by (auto simp: retire_snapshot_def result_simps set_reachable)

lemma install_snapshot_step:
  assumes "\<And>old. map_of (nst_tables st) name = Some old \<Longrightarrow> leased old"
  shows "\<exists>rs. install_snapshot name loaded st
    = Inr (st\<lparr>nst_tables := bt_insert name loaded (nst_tables st), nst_retired := nst_retired st @ rs\<rparr>)"
proof (cases "map_of (nst_tables st) name")
  case None
  then show ?thesis by (intro exI [of _ "[]"]) (simp add: install_snapshot_def Let_def)
next
  case (Some old)
  let ?ls = "filter (\<lambda>l. l \<notin> set (reachable_locations loaded)) (reachable_locations old)"
  obtain rs where "retire_locations name old (ts_source_bytes old) ?ls = Inr rs"
    using retire_locations_ok [OF assms [OF Some], of ?ls name "ts_source_bytes old"] by (auto simp: set_reachable)
  then show ?thesis using Some by (auto simp: install_snapshot_def Let_def result_simps)
qed

lemma bt_remove_absent: "map_of m k = None \<Longrightarrow> bt_remove k m = m"
  by (induction m) (auto simp: bt_remove_def split: if_splits)

lemma retire_dropped_step:
  assumes "\<And>old. map_of (nst_tables st) name = Some old \<Longrightarrow> leased old"
  shows "\<exists>rs. retire_dropped_snapshot name st
    = Inr (st\<lparr>nst_tables := bt_remove name (nst_tables st), nst_retired := nst_retired st @ rs\<rparr>)"
proof (cases "map_of (nst_tables st) name")
  case None
  then show ?thesis by (intro exI [of _ "[]"]) (simp add: retire_dropped_snapshot_def bt_remove_absent)
next
  case (Some old)
  show ?thesis
    using retire_snapshot_step [OF assms [OF Some], of name "st\<lparr>nst_tables := bt_remove name (nst_tables st)\<rparr>"] Some
    by (auto simp: retire_dropped_snapshot_def)
qed

text \<open>The three loops: when every step only changes the tables by \<open>g\<close> and the retired list, keeping
  \<open>P\<close>, so does the loop.\<close>

lemma install_loop:
  assumes "P (nst_tables st)"
    and "\<And>x st. x \<in> set xs \<Longrightarrow> P (nst_tables st) \<Longrightarrow>
      \<exists>rs. f st x = Inr (st\<lparr>nst_tables := g (nst_tables st) x, nst_retired := nst_retired st @ rs\<rparr>)
        \<and> P (g (nst_tables st) x)"
  shows "\<exists>rs. try_fold f st xs = Inr (st\<lparr>nst_tables := foldl g (nst_tables st) xs, nst_retired := nst_retired st @ rs\<rparr>)
    \<and> P (foldl g (nst_tables st) xs)"
  using assms
proof (induction xs arbitrary: st)
  case Nil
  then show ?case by (intro exI [of _ "[]"]) simp
next
  case (Cons x xs)
  obtain rs where step: "f st x = Inr (st\<lparr>nst_tables := g (nst_tables st) x, nst_retired := nst_retired st @ rs\<rparr>)"
    and P: "P (g (nst_tables st) x)"
    using Cons.prems(2) [of x st] Cons.prems(1) by auto
  let ?st = "st\<lparr>nst_tables := g (nst_tables st) x, nst_retired := nst_retired st @ rs\<rparr>"
  have "\<exists>rs'. try_fold f ?st xs = Inr (?st\<lparr>nst_tables := foldl g (nst_tables ?st) xs, nst_retired := nst_retired ?st @ rs'\<rparr>)
      \<and> P (foldl g (nst_tables ?st) xs)"
    by (rule Cons.IH) (use P Cons.prems(2) in simp_all)
  then obtain rs' where "try_fold f ?st xs = Inr (?st\<lparr>nst_tables := foldl g (nst_tables ?st) xs, nst_retired := nst_retired ?st @ rs'\<rparr>)"
    and "P (foldl g (nst_tables ?st) xs)" by blast
  then show ?case by (intro exI [of _ "rs @ rs'"]) (simp add: step)
qed

definition apply_view_updates ::
  "(string \<times> 's native_view option) list \<Rightarrow> (string \<times> 's native_view) list \<Rightarrow> (string \<times> 's native_view) list" where
  "apply_view_updates updates views = foldl (\<lambda>m (name, update). case update of
     Some view \<Rightarrow> bt_insert name view m | None \<Rightarrow> bt_remove name m) views updates"

text \<open>The part of a state that the three loops leave alone.\<close>

definition same_but_tables :: "'s native_state \<Rightarrow> 's native_state \<Rightarrow> bool" where
  "same_but_tables st st' \<longleftrightarrow> nst_catalog st' = nst_catalog st \<and> nst_views st' = nst_views st"

lemma retire_overwritten:
  assumes "leased_tables (nst_tables st)" and "\<And>n s. (n, s) \<in> set overwritten \<Longrightarrow> leased s"
  shows "\<exists>st'. try_fold (\<lambda>st (name, old). retire_snapshot name old st) st overwritten = Inr st'
    \<and> nst_tables st' = nst_tables st \<and> same_but_tables st st'"
proof -
  have "\<exists>rs. try_fold (\<lambda>st (name, old). retire_snapshot name old st) st overwritten
      = Inr (st\<lparr>nst_tables := foldl (\<lambda>m _. m) (nst_tables st) overwritten, nst_retired := nst_retired st @ rs\<rparr>)
      \<and> leased_tables (foldl (\<lambda>m _. m) (nst_tables st) overwritten)"
    by (rule install_loop [where P = leased_tables]) (use assms retire_snapshot_step in fastforce)+
  moreover have "foldl (\<lambda>m _. m) m overwritten = m" for m :: "(string \<times> 'a table_snapshot) list"
    by (induction overwritten) auto
  ultimately show ?thesis by (auto simp: same_but_tables_def)
qed

lemma install_writes:
  fixes st :: "'s native_state"
  assumes "leased_tables (nst_tables st)" and writes: "\<And>p. p \<in> set writes \<Longrightarrow> leased (pub_snapshot p)"
  shows "\<exists>st'. try_fold (\<lambda>st (name, index). install_snapshot name (pub_snapshot (writes ! index)) st) st
        (final_indices drops writes) = Inr st'
    \<and> nst_tables st' = foldl (\<lambda>m (name, index). bt_insert name (pub_snapshot (writes ! index)) m)
        (nst_tables st) (final_indices drops writes)
    \<and> leased_tables (nst_tables st') \<and> same_but_tables st st'"
proof -
  let ?finals = "final_indices drops writes"
  let ?ins = "\<lambda>m (name, index). bt_insert name (pub_snapshot (writes ! index)) m"
  have "\<exists>rs. try_fold (\<lambda>st (name, index). install_snapshot name (pub_snapshot (writes ! index)) st) st ?finals
      = Inr (st\<lparr>nst_tables := foldl ?ins (nst_tables st) ?finals, nst_retired := nst_retired st @ rs\<rparr>)
      \<and> leased_tables (foldl ?ins (nst_tables st) ?finals)"
  proof (rule install_loop)
    show "leased_tables (nst_tables st)" by (rule assms(1))
    fix x and st :: "'s native_state"
    assume x: "x \<in> set ?finals" and P: "leased_tables (nst_tables st)"
    obtain name i where x': "x = (name, i)" by (cases x)
    have "map_of ?finals name = Some i"
      using x by (simp add: x' bt_set_map_of [OF conjunct1 [OF final_indices_spec]])
    then have "i < length writes" using spec [OF conjunct2 [OF final_indices_spec [of drops writes]], of name] by simp
    then have "leased (pub_snapshot (writes ! i))" using writes nth_mem by blast
    moreover have "leased old" if "map_of (nst_tables st) name = Some old" for old
      using P that by (auto simp: leased_tables_def)
    ultimately show "\<exists>rs. (case x of (name, index) \<Rightarrow> install_snapshot name (pub_snapshot (writes ! index)) st)
        = Inr (st\<lparr>nst_tables := ?ins (nst_tables st) x, nst_retired := nst_retired st @ rs\<rparr>) \<and> leased_tables (?ins (nst_tables st) x)"
      using install_snapshot_step [of st name "pub_snapshot (writes ! i)"] P
      by (auto simp: x' leased_tables_def map_of_bt_insert)
  qed
  then show ?thesis by (auto simp: same_but_tables_def)
qed

lemma retire_drops:
  fixes st :: "'s native_state"
  assumes "leased_tables (nst_tables st)"
  shows "\<exists>st'. try_fold (\<lambda>st name. retire_dropped_snapshot name st) st drops = Inr st'
    \<and> nst_tables st' = foldl (\<lambda>m name. bt_remove name m) (nst_tables st) drops
    \<and> leased_tables (nst_tables st') \<and> same_but_tables st st'"
proof -
  have "\<exists>rs. try_fold (\<lambda>st name. retire_dropped_snapshot name st) st drops
      = Inr (st\<lparr>nst_tables := foldl (\<lambda>m name. bt_remove name m) (nst_tables st) drops, nst_retired := nst_retired st @ rs\<rparr>)
      \<and> leased_tables (foldl (\<lambda>m name. bt_remove name m) (nst_tables st) drops)"
  proof (rule install_loop [where P = leased_tables])
    fix x and st :: "'s native_state"
    assume P: "leased_tables (nst_tables st)"
    then show "\<exists>rs. retire_dropped_snapshot x st = Inr (st\<lparr>nst_tables := bt_remove x (nst_tables st), nst_retired := nst_retired st @ rs\<rparr>)
        \<and> leased_tables (bt_remove x (nst_tables st))"
      using retire_dropped_step [of st x] by (auto simp: leased_tables_def map_of_bt_remove)
  qed (rule assms)
  then show ?thesis by (auto simp: same_but_tables_def)
qed

lemma install_commit_effect:
  fixes st :: "'s native_state"
  assumes renamed: "leased_tables renamed" and overwritten: "\<And>n s. (n, s) \<in> set overwritten \<Longrightarrow> leased s"
    and writes: "\<And>p. p \<in> set writes \<Longrightarrow> leased (pub_snapshot p)"
  shows "\<exists>st'. install_commit ch writes (final_indices (ch_drops ch) writes) committed renamed overwritten st = Inr st'
    \<and> nst_catalog st' = committed \<and> leased_tables (nst_tables st')
    \<and> map_of (nst_tables st') = committed_entry (ch_drops ch) writes id (map_of renamed)
    \<and> nst_views st' = apply_view_updates (ch_view_updates ch) (nst_views st)"
proof -
  let ?finals = "final_indices (ch_drops ch) writes"
  define st1 where "st1 = st\<lparr>nst_catalog := committed,
    nst_retired := map (\<lambda>r. case map_of (ch_renames ch) (rs_name r) of
      Some new \<Rightarrow> r\<lparr>rs_name := new\<rparr> | None \<Rightarrow> r) (nst_retired st), nst_tables := renamed\<rparr>"
  have 1: "nst_tables st1 = renamed" "nst_catalog st1 = committed" "nst_views st1 = nst_views st"
    by (simp_all add: st1_def)
  obtain st2 where 2: "try_fold (\<lambda>st (name, old). retire_snapshot name old st) st1 overwritten = Inr st2"
    "nst_tables st2 = renamed" "same_but_tables st1 st2"
    using retire_overwritten [of st1 overwritten] renamed overwritten unfolding 1 by blast
  obtain st3 where 3: "try_fold (\<lambda>st (name, index). install_snapshot name (pub_snapshot (writes ! index)) st) st2 ?finals = Inr st3"
    "nst_tables st3 = foldl (\<lambda>m (name, index). bt_insert name (pub_snapshot (writes ! index)) m) renamed ?finals"
    "leased_tables (nst_tables st3)" "same_but_tables st2 st3"
    using install_writes [of st2 writes "ch_drops ch"] renamed writes unfolding 2(2) by blast
  obtain st4 where 4: "try_fold (\<lambda>st name. retire_dropped_snapshot name st) st3 (ch_drops ch) = Inr st4"
    "nst_tables st4 = foldl (\<lambda>m name. bt_remove name m) (nst_tables st3) (ch_drops ch)"
    "leased_tables (nst_tables st4)" "same_but_tables st3 st4"
    using retire_drops [OF 3(3), of "ch_drops ch"] by blast
  have "map_of (nst_tables st4) n = committed_entry (ch_drops ch) writes id (map_of renamed) n" for n
  proof -
    have ok: "bt_ok renamed" "bt_ok (nst_tables st3)" using renamed 3(3) by (simp_all add: leased_tables_def)
    have "map_of (nst_tables st3) n = (if n \<in> set (ch_drops ch) then map_of renamed n
        else committed_entry (ch_drops ch) writes id (map_of renamed) n)"
      unfolding final_entry [symmetric] 3(2) id_apply
      by (rule conjunct2 [OF fold_insert [OF ok(1) bt_ok_distinct [OF conjunct1 [OF final_indices_spec]]]])
    then show ?thesis
      using fold_remove [OF ok(2), of "ch_drops ch" n] unfolding 4(2) by (simp add: committed_entry_def)
  qed
  then show ?thesis
    using 1 2 3(1,4) 4 unfolding install_commit_def Let_def st1_def [symmetric]
    by (auto simp: apply_view_updates_def same_but_tables_def fun_eq_iff)
qed

section \<open>Memory and catalog\<close>

text \<open>The open database mirrors its catalog: the snapshots and views in memory are those the catalog
  references, and every snapshot has the leases of the locations it reaches.\<close>

definition mirrors :: "'s native_state \<Rightarrow> bool" where
  "mirrors st \<longleftrightarrow> leased_tables (nst_tables st) \<and> bt_ok (cs_tables (nst_catalog st))
     \<and> map_of (cs_tables (nst_catalog st)) = map_option snapshot_reference \<circ> map_of (nst_tables st)
     \<and> bt_ok (nst_views st) \<and> bt_ok (cs_views (nst_catalog st))
     \<and> map_of (cs_views (nst_catalog st)) = map_option nv_reference \<circ> map_of (nst_views st)"

lemma renamed_entry_map: "renamed_entry renames (map_option f \<circ> m) = map_option f \<circ> renamed_entry renames m"
  by (auto simp: renamed_entry_def fun_eq_iff split: option.split)

lemma committed_entry_map: "committed_entry drops writes f (map_option f \<circ> m) = map_option f \<circ> committed_entry drops writes id m"
  by (auto simp: committed_entry_def fun_eq_iff split: option.split)

lemma renames_apply_map: "renames_apply renames (map_option f \<circ> m) = renames_apply renames m"
  by (simp add: renames_apply_def)

lemma renamed_entry_from: "renamed_entry renames m n = Some v \<Longrightarrow> \<exists>old. m old = Some v"
  by (auto simp: renamed_entry_def split: option.splits if_splits)

lemma view_updates_mirror:
  assumes "bt_ok views" and "bt_ok refs" and "map_of refs = map_option nv_reference \<circ> map_of views"
  shows "bt_ok (apply_view_updates updates views) \<and> bt_ok (planned_views updates refs)
    \<and> map_of (planned_views updates refs) = map_option nv_reference \<circ> map_of (apply_view_updates updates views)"
  using assms
proof (induction updates arbitrary: views refs)
  case (Cons u updates)
  obtain name update where u: "u = (name, update)" by (cases u)
  let ?v = "case update of Some view \<Rightarrow> bt_insert name view views | None \<Rightarrow> bt_remove name views"
  let ?r = "case update of Some view \<Rightarrow> bt_insert name (nv_reference view) refs | None \<Rightarrow> bt_remove name refs"
  have "bt_ok ?v" "bt_ok ?r" "map_of ?r = map_option nv_reference \<circ> map_of ?v"
    using Cons.prems by (auto simp: map_of_bt_insert map_of_bt_remove fun_eq_iff split: option.split)
  from Cons.IH [OF this] show ?case by (simp add: u apply_view_updates_def planned_views_def)
qed (simp add: apply_view_updates_def planned_views_def)

text \<open>Planning fails only when the renames do not apply; the plan has the committed entries.\<close>

definition plan_ok :: "'s transaction_changes \<Rightarrow> 's native_state \<Rightarrow> 's planned \<Rightarrow> bool" where
  "plan_ok ch st pl \<longleftrightarrow> leased_tables (pl_renamed pl)
     \<and> map_of (pl_renamed pl) = renamed_entry (ch_renames ch) (map_of (nst_tables st))
     \<and> (\<forall>(n, s) \<in> set (pl_overwritten pl). leased s)
     \<and> bt_ok (pl_tables pl)
     \<and> map_of (pl_tables pl) = map_option snapshot_reference
         \<circ> committed_entry (ch_drops ch) (pl_writes pl) id (renamed_entry (ch_renames ch) (map_of (nst_tables st)))"

lemma plan_transaction_eq:
  assumes st: "mirrors st" and renames: "distinct (map fst (ch_renames ch))"
  shows "\<not> renames_apply (ch_renames ch) (map_of (nst_tables st)) \<Longrightarrow> plan_transaction ch coordinator writes st = Inl Internal"
    and "renames_apply (ch_renames ch) (map_of (nst_tables st)) \<Longrightarrow>
      \<exists>pl. plan_transaction ch coordinator writes st = Inr pl \<and> plan_ok ch st pl \<and> pl_writes pl = writes
        \<and> pl_coordinator pl = coordinator \<and> pl_standalone pl = (ch_writes ch = [])"
proof -
  let ?r = "ch_renames ch" and ?tables = "cs_tables (nst_catalog st)"
  have ok: "bt_ok ?tables" "bt_ok (nst_tables st)" and m: "map_of ?tables = map_option snapshot_reference \<circ> map_of (nst_tables st)"
    and leased: "map_of (nst_tables st) n = Some s \<Longrightarrow> leased s" for n s
    using st by (auto simp: mirrors_def leased_tables_def)
  have iff: "renames_apply ?r (map_of ?tables) = renames_apply ?r (map_of (nst_tables st))"
    unfolding m by (rule renames_apply_map)
  show "plan_transaction ch coordinator writes st = Inl Internal" if "\<not> renames_apply ?r (map_of (nst_tables st))"
    using apply_renames_eq(2) [OF renames ok(1)] that iff by (simp add: plan_transaction_def)
  assume applies: "renames_apply ?r (map_of (nst_tables st))"
  obtain tables where t: "apply_renames ?r ?tables = Inr (tables, overwritten_entries ?r (map_of ?tables))"
    "bt_ok tables" "map_of tables = renamed_entry ?r (map_of ?tables)"
    using apply_renames_eq(1) [OF renames ok(1)] applies iff by blast
  obtain renamed where s: "apply_renames ?r (nst_tables st) = Inr (renamed, overwritten_entries ?r (map_of (nst_tables st)))"
    "bt_ok renamed" "map_of renamed = renamed_entry ?r (map_of (nst_tables st))"
    using apply_renames_eq(1) [OF renames ok(2) applies] by blast
  have "leased s" if "map_of renamed n = Some s" for n s
    using renamed_entry_from [OF that [unfolded s(3)]] leased by blast
  then have "leased_tables renamed" using s(2) by (simp add: leased_tables_def)
  moreover have "\<forall>(n, s) \<in> set (overwritten_entries ?r (map_of (nst_tables st))). leased s"
    using leased by (auto simp: overwritten_entries_def List.map_filter_def split: if_splits)
  moreover have "map_of (planned_tables (ch_drops ch) (final_indices (ch_drops ch) writes) writes tables)
      = map_option snapshot_reference \<circ> committed_entry (ch_drops ch) writes id (renamed_entry ?r (map_of (nst_tables st)))"
    using planned_tables_entry(2) [OF t(2)]
    unfolding committed_entry_map [symmetric] renamed_entry_map [symmetric] m [symmetric] t(3) [symmetric] by blast
  ultimately show "\<exists>pl. plan_transaction ch coordinator writes st = Inr pl \<and> plan_ok ch st pl \<and> pl_writes pl = writes
      \<and> pl_coordinator pl = coordinator \<and> pl_standalone pl = (ch_writes ch = [])"
    using t(1) s(1,3) planned_tables_entry(1) [OF t(2)] by (simp add: plan_transaction_def plan_ok_def)
qed

text \<open>Completing a commit installs the committed entries and never meets a missing lease.\<close>

lemma complete_commit_effect:
  assumes st: "mirrors st" and pl: "plan_ok ch st pl" and writes: "\<And>p. p \<in> set (pl_writes pl) \<Longrightarrow> leased (pub_snapshot p)"
    and committed: "cs_tables committed = pl_tables pl" "cs_views committed = planned_views (ch_view_updates ch) (cs_views (nst_catalog st))"
    and run: "complete_commit X ch pl committed (dirs, w, st) = ((dirs', w', st'), r)"
  shows "dirs' = dirs \<and> mirrors st' \<and> nst_catalog st' = committed
    \<and> map_of (nst_tables st') = committed_entry (ch_drops ch) (pl_writes pl) id (renamed_entry (ch_renames ch) (map_of (nst_tables st)))
    \<and> (\<exists>failure. cleanup_nonfinal X (pl_writes pl) (final_indices (ch_drops ch) (pl_writes pl)) (pl_coordinator pl) w = (w', failure)
        \<and> r = (case failure of Some _ \<Rightarrow> Inl (NativeCommitPostCommitFailure (cs_generation committed))
               | None \<Rightarrow> Inr \<lparr>nc_previous_generation = cs_generation (nst_catalog st), nc_generation = cs_generation committed,
                   nc_transaction_id = pl_coordinator pl\<rparr>))"
proof -
  have "leased_tables (pl_renamed pl)" and "\<And>n s. (n, s) \<in> set (pl_overwritten pl) \<Longrightarrow> leased s"
    using pl by (auto simp: plan_ok_def)
  from install_commit_effect [where ch = ch and committed = committed and st = st
      and writes = "pl_writes pl" and overwritten = "pl_overwritten pl", OF this(1) _ writes] this(2)
  obtain st1 where i: "install_commit ch (pl_writes pl) (final_indices (ch_drops ch) (pl_writes pl)) committed (pl_renamed pl) (pl_overwritten pl) st = Inr st1"
    and e: "nst_catalog st1 = committed" "leased_tables (nst_tables st1)"
      "map_of (nst_tables st1) = committed_entry (ch_drops ch) (pl_writes pl) id (map_of (pl_renamed pl))"
      "nst_views st1 = apply_view_updates (ch_view_updates ch) (nst_views st)" by blast
  have "mirrors st1"
    using view_updates_mirror [of "nst_views st" "cs_views (nst_catalog st)" "ch_view_updates ch"] st e pl committed
    by (simp add: mirrors_def plan_ok_def)
  with run i e pl show ?thesis
    by (auto simp: complete_commit_def Let_def plan_ok_def split: prod.splits option.splits)
qed

end
