(* ===== verification/Transaction_Durable.thy ===== *)
theory Transaction_Durable
  imports Transaction_Correct
begin

text \<open>
  What a transaction commit leaves on disk, on every path: the appends of its begin, abort and cleanup
  records do not change what reopening the database finds, even after an append whose outcome is
  unknown, so the result of the commit tells which catalog a reopened database has.
\<close>

section \<open>The log on disk\<close>

text \<open>The log that reopening finds is the one in memory, or has one record more: the record of an
  append that failed after it was written.\<close>

definition disk_log :: "log_env \<Rightarrow> wal \<Rightarrow> wal \<Rightarrow> bool" where
  "disk_log L w ws \<longleftrightarrow> wal_ok L ws \<and> w_dir ws = w_dir w \<and> w_database_id ws = w_database_id w
     \<and> (ws = w \<or> w_next_lsn ws = w_next_lsn w + 1
          \<and> (\<exists>r. record_read L (w_dir w) (w_database_id w) (w_next_lsn w) = Inr r
               \<and> apply_record (w_transactions w) r = Inr (w_transactions ws)))"

lemma disk_log_refl: "wal_ok L w \<Longrightarrow> disk_log L w w"
  by (simp add: disk_log_def)

definition is_commit :: "record_kind \<Rightarrow> bool" where
  "is_commit kind \<longleftrightarrow> (case kind of Catalog_Commit _ _ \<Rightarrow> True | _ \<Rightarrow> False)"

lemma commits_update:
  assumes "\<And>c. next \<noteq> CatalogCommitted c" and "\<And>c. map_of ts k \<noteq> Some (CatalogCommitted c)"
  shows "List.map_filter (\<lambda>(_, t). case t of CatalogCommitted c \<Rightarrow> Some c | _ \<Rightarrow> None) (AList.update k next ts)
    = List.map_filter (\<lambda>(_, t). case t of CatalogCommitted c \<Rightarrow> Some c | _ \<Rightarrow> None) ts"
  using assms by (induction ts)
    (auto simp: map_filter_simps split: transaction_state.splits option.splits if_splits)

lemma quiet_record:
  assumes "apply_record (w_transactions w) r = Inr (w_transactions w')" and "\<not> is_commit (wr_kind r)"
  shows "catalog_commits w' = catalog_commits w"
proof -
  have "\<nexists>c. map_of (w_transactions w) (wr_transaction_id r) = Some (CatalogCommitted c)"
    and "\<nexists>c. next_transaction_state r = CatalogCommitted c"
    and "w_transactions w' = AList.update (wr_transaction_id r) (next_transaction_state r) (w_transactions w)"
    using assms by (auto simp: apply_record_def result_simps validate_transition_def next_transaction_state_def is_commit_def
        split: option.splits transaction_state.splits record_kind.splits)
  then show ?thesis using commits_update unfolding catalog_commits_def by metis
qed

text \<open>An append to a log that is one record behind the disk does not write: it fails, or finds its own
  record and catches up.\<close>

lemma append_stale:
  assumes read: "record_read L (w_dir w) (w_database_id w) (w_next_lsn w) = Inr r"
    and ts: "apply_record (w_transactions w) r = Inr (w_transactions ws)"
    and ws: "w_dir ws = w_dir w" "w_database_id ws = w_database_id w" "w_next_lsn ws = w_next_lsn w + 1"
    and lsn: "w_next_lsn w + 1 < u64_limit"
    and run: "append_record L f unique txn kind w = (w', q)"
  shows "w' = w \<and> q \<noteq> Inr () \<or> w' = ws \<and> q = Inr ()"
proof -
  let ?r = "record_new (w_database_id w) (w_next_lsn w) txn kind"
  have n: "wr_lsn ?r = w_next_lsn w" "wr_kind ?r = kind" "wr_transaction_id ?r = txn" by (simp_all add: record_new_def)
  have "exists_file (w_dir w) (record_name (w_next_lsn w))"
    using read by (auto simp: record_read_def read_bounded_def exists_file_bytes result_simps split: option.splits)
  then obtain we where wr: "record_write L (af_create f) unique ?r (w_dir w) = (w_dir w, Inl we)"
    by (cases "record_encode L ?r") (auto simp: record_write_def n atomic_create_def Let_def)
  show ?thesis
  proof (cases "validate_transition (w_transactions w) txn kind")
    case (Inl e)
    then show ?thesis using run by (auto simp: append_record_def)
  next
    case (Inr v)
    then have ts': "apply_record (w_transactions w) ?r = Inr (AList.update txn (next_transaction_state ?r) (w_transactions w))"
      by (simp add: apply_record_def n)
    show ?thesis
    proof (cases "reconcile L f (w_database_id w) ?r we (w_dir w)")
      case (Inl e)
      then show ?thesis using run Inr wr by (auto simp: append_record_def Let_def)
    next
      case rec: (Inr x)
      then have "r = ?r" using read n by (auto simp: reconcile_def Let_def split: if_splits)
      then have "w_transactions ws = AList.update txn (next_transaction_state ?r) (w_transactions w)"
        using ts ts' by simp
      then have "w' = ws \<and> q = Inr ()"
        using run Inr wr rec ts' lsn ws by (cases ws) (auto simp: append_record_def Let_def checked_add_def)
      then show ?thesis by simp
    qed
  qed
qed

text \<open>An append to a log in step with the disk.\<close>

lemma append_sync:
  assumes ok: "wal_ok L w" and u: "unique_ok L unique" and lsn: "w_next_lsn w + 1 < u64_limit"
    and rb: "reads_back (rec_json L) (record_new (w_database_id w) (w_next_lsn w) txn kind)"
    and run: "append_record L f unique txn kind w = (w', q)"
  shows "w_database_id w' = w_database_id w"
    and "q = Inr u \<Longrightarrow> wal_ok L w' \<and> w_next_lsn w' = w_next_lsn w + 1
      \<and> apply_record (w_transactions w) (record_new (w_database_id w) (w_next_lsn w) txn kind) = Inr (w_transactions w')"
    and "q = Inl e \<Longrightarrow> w_next_lsn w' = w_next_lsn w \<and> w_transactions w' = w_transactions w
      \<and> (wal_ok L w' \<or> (\<exists>ws. disk_log L w' ws \<and> w_next_lsn ws = w_next_lsn w + 1
          \<and> apply_record (w_transactions w) (record_new (w_database_id w) (w_next_lsn w) txn kind) = Inr (w_transactions ws)))"
proof -
  let ?r = "record_new (w_database_id w) (w_next_lsn w) txn kind"
  obtain start recs where repr: "log_repr L (w_database_id w) (w_dir w) start recs"
    and nxt: "w_next_lsn w = start + length recs" and table: "try_fold apply_record [] recs = Inr (w_transactions w)"
    using ok by (auto simp: wal_ok_def)
  note out = append_record_outcome [OF repr nxt lsn u refl rb run]
  show "w_database_id w' = w_database_id w" by (rule out(1))
  show "wal_ok L w' \<and> w_next_lsn w' = w_next_lsn w + 1 \<and> apply_record (w_transactions w) ?r = Inr (w_transactions w')"
    if "q = Inr u"
    using out(1) out(2) [OF that] nxt table unfolding wal_ok_def
    by (auto intro!: exI [of _ start] exI [of _ "recs @ [?r]"])
  show "w_next_lsn w' = w_next_lsn w \<and> w_transactions w' = w_transactions w
      \<and> (wal_ok L w' \<or> (\<exists>ws. disk_log L w' ws \<and> w_next_lsn ws = w_next_lsn w + 1
          \<and> apply_record (w_transactions w) ?r = Inr (w_transactions ws)))" if q: "q = Inl e"
  proof -
    have same: "w_next_lsn w' = w_next_lsn w" "w_transactions w' = w_transactions w" using out(3) [OF q] by simp_all
    from out(3) [OF q] consider "log_repr L (w_database_id w) (w_dir w') start recs"
      | ts where "log_repr L (w_database_id w) (w_dir w') start (recs @ [?r])" "apply_record (w_transactions w) ?r = Inr ts"
      by (auto simp: is_ok_conv)
    then show ?thesis
    proof cases
      case 1
      then have "wal_ok L w'" using out(1) same nxt table unfolding wal_ok_def by auto
      with same show ?thesis by blast
    next
      case 2
      let ?ws = "\<lparr>w_dir = w_dir w', w_database_id = w_database_id w, w_next_lsn = w_next_lsn w + 1, w_transactions = ts\<rparr>"
      have "wal_ok L ?ws" using appended_wal_ok [OF 2(1) table 2(2)] nxt by simp
      moreover have "record_read L (w_dir w') (w_database_id w) (w_next_lsn w) = Inr ?r"
        using 2(1) nxt by (auto simp: log_repr_def nth_append dest!: spec [of _ "length recs"])
      ultimately have "disk_log L w' ?ws" using out(1) same 2(2) by (simp add: disk_log_def)
      with same 2(2) show ?thesis by (intro conjI disjI2 exI [of _ ?ws]) simp_all
    qed
  qed
qed

section \<open>Quiet appends\<close>

text \<open>At most \<open>k\<close> appends none of which changes the commits that reopening finds.\<close>

definition quiet :: "log_env \<Rightarrow> nat \<Rightarrow> wal \<Rightarrow> wal \<Rightarrow> bool" where
  "quiet L k w w' \<longleftrightarrow> w_database_id w' = w_database_id w
     \<and> w_next_lsn w \<le> w_next_lsn w' \<and> w_next_lsn w' \<le> w_next_lsn w + k
     \<and> (\<forall>ws. disk_log L w ws \<longrightarrow> (\<exists>ws'. disk_log L w' ws' \<and> catalog_commits ws' = catalog_commits ws))"

lemma quiet_refl [simp]: "quiet L k w w"
  by (auto simp: quiet_def)

lemma quiet_trans: "quiet L k w w' \<Longrightarrow> quiet L k' w' w'' \<Longrightarrow> quiet L (k + k') w w''"
  by (fastforce simp: quiet_def)

lemma quiet_weaken: "quiet L k w w' \<Longrightarrow> k \<le> k' \<Longrightarrow> quiet L k' w w'"
  by (auto simp: quiet_def)

text \<open>The records a commit may append read back, for the sequence numbers it may use.\<close>

definition writable :: "log_env \<Rightarrow> string \<Rightarrow> string set \<Rightarrow> record_kind set \<Rightarrow> nat \<Rightarrow> nat \<Rightarrow> bool" where
  "writable L db txns kinds lo hi \<longleftrightarrow> hi \<le> u64_limit
     \<and> (\<forall>txn \<in> txns. \<forall>kind \<in> kinds. \<forall>lsn \<in> {lo..<hi}. reads_back (rec_json L) (record_new db lsn txn kind))"

definition in_room :: "nat \<Rightarrow> nat \<Rightarrow> nat \<Rightarrow> wal \<Rightarrow> bool" where
  "in_room lo hi k w \<longleftrightarrow> lo \<le> w_next_lsn w \<and> w_next_lsn w + k < hi"

lemma room_quiet: "in_room lo hi (k + k') w \<Longrightarrow> quiet L k w w' \<Longrightarrow> in_room lo hi k' w'"
  by (simp add: in_room_def quiet_def)

lemma append_record_lsn:
  "append_record L f unique txn kind w = (w', q) \<Longrightarrow>
     w_database_id w' = w_database_id w \<and> w_next_lsn w \<le> w_next_lsn w' \<and> w_next_lsn w' \<le> w_next_lsn w + 1"
  by (auto simp: append_record_def Let_def checked_add_def split: sum.splits prod.splits option.splits if_splits)

lemma quiet_append:
  assumes wr: "writable L (w_database_id w) txns kinds lo hi" and room: "in_room lo hi 1 w"
    and u: "unique_ok L unique" and txn: "txn \<in> txns" and kind: "kind \<in> kinds" "\<not> is_commit kind"
    and run: "append_record L f unique txn kind w = (w', q)"
  shows "quiet L 1 w w'"
proof -
  let ?r = "record_new (w_database_id w) (w_next_lsn w) txn kind"
  have lsn: "w_next_lsn w + 1 < u64_limit" and rb: "reads_back (rec_json L) ?r"
    using wr room txn kind(1) by (auto simp: writable_def in_room_def)
  have k: "\<not> is_commit (wr_kind ?r)" using kind(2) by (simp add: record_new_def)
  have "\<exists>ws'. disk_log L w' ws' \<and> catalog_commits ws' = catalog_commits ws" if disk: "disk_log L w ws" for ws
  proof (cases "ws = w")
    case True
    then have ok: "wal_ok L w" using disk by (simp add: disk_log_def)
    note sync = append_sync [OF ok u lsn rb run]
    show ?thesis
    proof (cases q)
      case (Inr v)
      then show ?thesis using sync(2) [OF Inr] quiet_record k disk_log_refl True by metis
    next
      case (Inl e)
      have "catalog_commits w' = catalog_commits w" using sync(3) [OF Inl] by (simp add: catalog_commits_def)
      then show ?thesis using sync(3) [OF Inl] quiet_record k disk_log_refl True by metis
    qed
  next
    case False
    then have "w' = w \<or> w' = ws"
      using disk append_stale [OF _ _ _ _ _ lsn run, of _ ws] by (auto simp: disk_log_def)
    then show ?thesis using disk disk_log_refl by (auto simp: disk_log_def)
  qed
  then show ?thesis using append_record_lsn [OF run] by (simp add: quiet_def)
qed

section \<open>Reopening\<close>

text \<open>What reopening finds depends on the log only through its commits.\<close>

lemma commits_dir [simp]: "catalog_commits (w\<lparr>w_dir := d\<rparr>) = catalog_commits w"
  by (simp add: catalog_commits_def)

lemma open_same:
  assumes "wal_ok L w" and "wal_ok L w'" and "w_database_id w = db" and "w_database_id w' = db"
    and "catalog_commits w' = catalog_commits w"
  shows "opens_with E L db \<lparr>st_catalog = dirs, st_wal = w_dir w\<rparr> state
      \<longleftrightarrow> opens_with E L db \<lparr>st_catalog = dirs, st_wal = w_dir w'\<rparr> state"
proof -
  obtain d where d: "wal_open L (\<lambda>_. None) db (w_dir w) = (d, Inr (w\<lparr>w_dir := d\<rparr>))"
    using wal_reopen [OF assms(1)] assms(3) by metis
  obtain d' where d': "wal_open L (\<lambda>_. None) db (w_dir w') = (d', Inr (w'\<lparr>w_dir := d'\<rparr>))"
    using wal_reopen [OF assms(2)] assms(4) by metis
  have "replay_catalog E (\<lambda>_. No_Fault) db (w'\<lparr>w_dir := d'\<rparr>) dirs = replay_catalog E (\<lambda>_. No_Fault) db (w\<lparr>w_dir := d\<rparr>) dirs"
    unfolding replay_catalog_def commits_dir assms(5) ..
  then show ?thesis
    by (auto simp: opens_with_def open_catalog_def d d' result_simps bindr_def split: sum.splits prod.splits)
qed

lemma retry_same:
  assumes "wal_ok L w" and "wal_ok L w'" and "w_database_id w = db" and "w_database_id w' = db"
    and "catalog_commits w' = catalog_commits w"
    and "opens_on_retry E L db \<lparr>st_catalog = dirs, st_wal = w_dir w\<rparr> state"
  shows "opens_on_retry E L db \<lparr>st_catalog = dirs, st_wal = w_dir w'\<rparr> state"
proof -
  obtain d where d: "wal_open L (\<lambda>_. None) db (w_dir w) = (d, Inr (w\<lparr>w_dir := d\<rparr>))" "wal_ok L (w\<lparr>w_dir := d\<rparr>)"
    using wal_reopen [OF assms(1)] assms(3) by metis
  obtain d' where d': "wal_open L (\<lambda>_. None) db (w_dir w') = (d', Inr (w'\<lparr>w_dir := d'\<rparr>))" "wal_ok L (w'\<lparr>w_dir := d'\<rparr>)"
    using wal_reopen [OF assms(2)] assms(4) by metis
  have replay: "replay_catalog E (\<lambda>_. No_Fault) db (w'\<lparr>w_dir := d'\<rparr>) dirs = replay_catalog E (\<lambda>_. No_Fault) db (w\<lparr>w_dir := d\<rparr>) dirs"
    unfolding replay_catalog_def commits_dir assms(5) ..
  have again: "opens_with E L db \<lparr>st_catalog = dirs1, st_wal = d\<rparr> state
      \<longleftrightarrow> opens_with E L db \<lparr>st_catalog = dirs1, st_wal = d'\<rparr> state" for dirs1
    using open_same [OF d(2) d'(2)] assms(3-5) by simp
  show ?thesis
    using assms(6) unfolding opens_on_retry_def open_catalog_def
    by (auto simp: d d' replay again result_simps bindr_def split: sum.splits prod.splits)
qed

lemma opens_quiet:
  assumes "disk_log L w ws" and "quiet L k w w'" and "w_database_id w = db"
  shows "opens_with E L db \<lparr>st_catalog = dirs, st_wal = w_dir w\<rparr> state \<Longrightarrow>
      opens_with E L db \<lparr>st_catalog = dirs, st_wal = w_dir w'\<rparr> state"
    and "opens_on_retry E L db \<lparr>st_catalog = dirs, st_wal = w_dir w\<rparr> state \<Longrightarrow>
      opens_on_retry E L db \<lparr>st_catalog = dirs, st_wal = w_dir w'\<rparr> state"
proof -
  obtain ws' where "disk_log L w' ws'" "catalog_commits ws' = catalog_commits ws" "w_database_id w' = db"
    using assms unfolding quiet_def by metis
  then have *: "wal_ok L ws" "wal_ok L ws'" "w_database_id ws = db" "w_database_id ws' = db" "catalog_commits ws' = catalog_commits ws"
    and dirs: "w_dir ws = w_dir w" "w_dir ws' = w_dir w'"
    using assms by (auto simp: disk_log_def)
  show "opens_with E L db \<lparr>st_catalog = dirs, st_wal = w_dir w\<rparr> state \<Longrightarrow> opens_with E L db \<lparr>st_catalog = dirs, st_wal = w_dir w'\<rparr> state"
    using open_same [OF *] dirs by simp
  show "opens_on_retry E L db \<lparr>st_catalog = dirs, st_wal = w_dir w\<rparr> state \<Longrightarrow> opens_on_retry E L db \<lparr>st_catalog = dirs, st_wal = w_dir w'\<rparr> state"
    using retry_same [OF *] dirs by simp
qed

section \<open>Aborting and cleaning up\<close>

definition tx_log_ok :: "'s tx_env \<Rightarrow> string \<Rightarrow> string set \<Rightarrow> record_kind set \<Rightarrow> nat \<Rightarrow> nat \<Rightarrow> bool" where
  "tx_log_ok X db txns kinds lo hi \<longleftrightarrow> writable (tx_log X) db txns kinds lo hi \<and> Abort \<in> kinds
     \<and> (\<forall>txn \<in> txns. unique_ok (tx_log X) (tx_unique X txn))"

lemma quiet_abort:
  assumes "tx_log_ok X (w_database_id w) txns kinds lo hi" and "in_room lo hi 1 w" and "txn \<in> txns"
    and "wal_abort (tx_log X) f (tx_unique X txn) txn w = (w', q)"
  shows "quiet (tx_log X) 1 w w'"
  using assms quiet_append [where kind = Abort] by (fastforce simp: tx_log_ok_def wal_abort_def is_commit_def)

lemma quiet_owner_abort:
  assumes "tx_log_ok X (w_database_id w) txns kinds lo hi" and "in_room lo hi 1 w" and "aw_transaction_id a \<in> txns"
    and "active_wal_abort (tx_log X) f (tx_unique X (aw_transaction_id a)) (a, w) = ((a', w'), q)"
  shows "quiet (tx_log X) 1 w w' \<and> aw_transaction_id a' = aw_transaction_id a"
proof -
  obtain w1 q1 where ab: "wal_abort (tx_log X) f (tx_unique X (aw_transaction_id a)) (aw_transaction_id a) w = (w1, q1)"
    by (cases "wal_abort (tx_log X) f (tx_unique X (aw_transaction_id a)) (aw_transaction_id a) w")
  from quiet_abort [OF assms(1-3) this] assms(4) ab show ?thesis
    by (auto simp: active_wal_abort_def split: if_splits sum.splits)
qed

lemma quiet_drop:
  assumes "tx_log_ok X (w_database_id w) txns kinds lo hi" and "in_room lo hi 1 w" and "pub_transaction_id p \<in> txns"
  shows "quiet (tx_log X) 1 w (drop_write X p w)"
proof -
  obtain a' w' q where "active_wal_abort (tx_log X) (tx_abort_on_drop X (pub_transaction_id p))
      (tx_unique X (pub_transaction_id p)) (pub_owner p, w) = ((a', w'), q)"
    by (metis prod.exhaust)
  with quiet_owner_abort [OF assms this] show ?thesis
    by (simp add: drop_write_def active_wal_drop_def)
qed

lemma quiet_db: "quiet L k w w' \<Longrightarrow> w_database_id w' = w_database_id w"
  by (simp add: quiet_def)

lemma quiet_remove_and_abort:
  assumes X: "tx_log_ok X (w_database_id w) txns kinds lo hi" and room: "in_room lo hi (Suc (Suc k)) w"
    and p: "pub_transaction_id p \<in> txns" and run: "remove_and_abort X p w = (w', f)"
  shows "quiet (tx_log X) 2 w w'"
proof -
  obtain a w1 q where ab: "active_wal_abort (tx_log X) (tx_abort X (pub_transaction_id p))
      (tx_unique X (pub_transaction_id p)) (pub_owner p, w) = ((a, w1), q)"
    by (metis prod.exhaust)
  have r1: "in_room lo hi 1 w" using room by (simp add: in_room_def)
  note 1 = quiet_owner_abort [OF X r1 p ab]
  have r2: "in_room lo hi 1 w1" using room_quiet [of lo hi 1 1 w, OF _ conjunct1 [OF 1]] room by (simp add: in_room_def)
  have "quiet (tx_log X) 1 w1 (drop_write X (p\<lparr>pub_owner := a\<rparr>) w1)"
    by (rule quiet_drop [OF _ r2]) (use X 1 p quiet_db [OF conjunct1 [OF 1]] in simp_all)
  with 1 have "quiet (tx_log X) (1 + 1) w (drop_write X (p\<lparr>pub_owner := a\<rparr>) w1)" using quiet_trans by blast
  moreover have "w' = drop_write X (p\<lparr>pub_owner := a\<rparr>) w1"
    using run ab by (auto simp: remove_and_abort_def Let_def)
  ultimately show ?thesis by (simp add: numeral_2_eq_2)
qed

lemma quiet_abort_writes:
  assumes "tx_log_ok X (w_database_id w) txns kinds lo hi" and "in_room lo hi (2 * length ps + k) w"
    and "\<And>p. p \<in> set ps \<Longrightarrow> pub_transaction_id p \<in> txns" and "abort_writes X ps w f = (w', f')"
  shows "quiet (tx_log X) (2 * length ps) w w'"
  using assms
proof (induction ps arbitrary: w f)
  case (Cons p ps)
  obtain w1 f1 where ra: "remove_and_abort X p w = (w1, f1)" by (cases "remove_and_abort X p w")
  have 1: "quiet (tx_log X) 2 w w1"
    by (rule quiet_remove_and_abort [OF Cons.prems(1) _ _ ra, of "2 * length ps + k"]) (use Cons.prems(2,3) in simp_all)
  have "quiet (tx_log X) (2 * length ps) w1 w'"
  proof (rule Cons.IH)
    show "in_room lo hi (2 * length ps + k) w1"
      using room_quiet [of lo hi 2 _ w, OF _ 1] Cons.prems(2) by (simp add: add.assoc)
  qed (use Cons.prems ra quiet_db [OF 1] in auto)
  with 1 have "quiet (tx_log X) (2 + 2 * length ps) w w'" by (rule quiet_trans)
  then show ?case by simp
qed simp

lemma quiet_abort_commit:
  assumes X: "tx_log_ok X (w_database_id w) txns kinds lo hi" and room: "in_room lo hi (2 * length writes + 1) w"
    and p: "\<And>p. p \<in> set writes \<Longrightarrow> pub_transaction_id p \<in> txns" and c: "coordinator \<in> txns"
    and run: "abort_commit X writes standalone coordinator e w = (w', e')"
  shows "quiet (tx_log X) (2 * length writes + 1) w w'" and "e' = e \<or> e' = NativeStorage"
proof -
  obtain w1 f where ab: "abort_writes X (rev writes) w None = (w1, f)" by (cases "abort_writes X (rev writes) w None")
  have 1: "quiet (tx_log X) (2 * length writes) w w1"
    using quiet_abort_writes [OF X _ _ ab, of 1] room p by simp
  have r: "in_room lo hi 1 w1" by (rule room_quiet [OF room 1])
  obtain w2 q where cw: "(if standalone then wal_abort (tx_log X) (tx_abort X coordinator) (tx_unique X coordinator) coordinator w1
      else (w1, Inr ())) = (w2, q)" by (metis prod.exhaust)
  then have "quiet (tx_log X) 1 w1 w2"
    using quiet_abort [OF _ r c, of X kinds] X quiet_db [OF 1] by (auto split: if_splits)
  with 1 have "quiet (tx_log X) (2 * length writes + 1) w w2" by (rule quiet_trans)
  moreover have "w' = w2" "e' = e \<or> e' = NativeStorage"
    using run ab cw by (auto simp: abort_commit_def abort_published_def split: if_splits)
  ultimately show "quiet (tx_log X) (2 * length writes + 1) w w'" and "e' = e \<or> e' = NativeStorage" by simp_all
qed

lemma quiet_cleanup_writes:
  assumes "tx_log_ok X (w_database_id w) txns kinds lo hi" and "in_room lo hi (length ps) w"
    and "\<And>i p. (i, p) \<in> set ps \<Longrightarrow> pub_transaction_id p \<in> txns"
    and "cleanup_writes X kept finals coordinator ps w = (w', f)"
  shows "quiet (tx_log X) (length ps) w w'"
  using assms
proof (induction ps arbitrary: w)
  case (Cons ip ps)
  obtain i p where ip: "ip = (i, p)" by (cases ip)
  obtain w1 q where ab: "wal_abort (tx_log X) (tx_abort X (pub_transaction_id p)) (tx_unique X (pub_transaction_id p))
      (pub_transaction_id p) w = (w1, q)" by (metis prod.exhaust)
  have "in_room lo hi 1 w" using Cons.prems(2) by (simp add: in_room_def)
  then have 1: "quiet (tx_log X) 1 w w1" by (rule quiet_abort [OF Cons.prems(1) _ _ ab]) (use Cons.prems(3) ip in auto)
  have r: "in_room lo hi (length ps) w" "in_room lo hi (length ps) w1"
    using Cons.prems(2) room_quiet [of lo hi 1 "length ps" w, OF _ 1] by (simp_all add: in_room_def)
  have rest: "quiet (tx_log X) (length ps) v w'"
    if "cleanup_writes X kept finals coordinator ps v = (w', f)" "v \<in> {w, w1}" for v
    by (rule Cons.IH [OF _ _ _ that(1)]) (use Cons.prems r that(2) quiet_db [OF 1] in auto)
  consider "w' = w" | "w' = w1" | "cleanup_writes X kept finals coordinator ps w = (w', f)"
    | "cleanup_writes X kept finals coordinator ps w1 = (w', f)"
    using Cons.prems(4) ab by (auto simp: ip split: if_splits option.splits sum.splits)
  then show ?case
  proof cases
    case 2
    then show ?thesis using quiet_weaken [OF 1] by simp
  next
    case 3
    then show ?thesis using quiet_weaken [OF rest [OF 3]] by simp
  next
    case 4
    then show ?thesis using quiet_trans [OF 1 rest [OF 4]] by simp
  qed simp
qed simp

lemma quiet_drops:
  assumes "tx_log_ok X (w_database_id w) txns kinds lo hi" and "in_room lo hi (length ps) w"
    and "\<And>p. p \<in> set ps \<Longrightarrow> pub_transaction_id p \<in> txns"
  shows "quiet (tx_log X) (length ps) w (fold (drop_write X) ps w)"
  using assms
proof (induction ps arbitrary: w)
  case (Cons p ps)
  have 1: "quiet (tx_log X) 1 w (drop_write X p w)"
    by (rule quiet_drop [OF Cons.prems(1)]) (use Cons.prems(2,3) in \<open>auto simp: in_room_def\<close>)
  have "quiet (tx_log X) (length ps) (drop_write X p w) (fold (drop_write X) ps (drop_write X p w))"
    by (rule Cons.IH) (use Cons.prems quiet_db [OF 1] room_quiet [of lo hi 1 "length ps" w, OF _ 1] in auto)
  from quiet_trans [OF 1 this] show ?case by simp
qed simp

section \<open>The durable outcome\<close>

text \<open>The catalog a plan commits.\<close>

definition transaction_catalog :: "string \<Rightarrow> 's transaction_changes \<Rightarrow> 's planned \<Rightarrow> 's native_state \<Rightarrow> catalog_state" where
  "transaction_catalog db ch pl st = next_state db (cs_generation (nst_catalog st) + 1) (pl_coordinator pl)
     (planned_schemas (ch_schema_updates ch) (cs_schemas (nst_catalog st))) (pl_tables pl)
     (planned_views (ch_view_updates ch) (cs_views (nst_catalog st)))"

definition transaction_outcome ::
  "catalog_env \<Rightarrow> log_env \<Rightarrow> string \<Rightarrow> catalog_state \<Rightarrow> catalog_state \<Rightarrow> stored \<Rightarrow> (db_error, 'r) result \<Rightarrow> bool" where
  "transaction_outcome E L db old new s r \<longleftrightarrow> (case r of
       Inr _ \<Rightarrow> opens_with E L db s new
     | Inl (NativeCommitPostCommitFailure _) \<Rightarrow> opens_with E L db s new
     | Inl CommitOutcomeUnknown \<Rightarrow> opens_with E L db s old \<or> opens_with E L db s new \<or> opens_on_retry E L db s new
     | Inl _ \<Rightarrow> opens_with E L db s old)"

definition definite_error :: "db_error \<Rightarrow> bool" where
  "definite_error e \<longleftrightarrow> e \<noteq> CommitOutcomeUnknown \<and> (\<forall>g. e \<noteq> NativeCommitPostCommitFailure g)"

lemma outcome_old:
  "opens_with E L db s old \<Longrightarrow> definite_error e \<Longrightarrow> transaction_outcome E L db old new s (Inl e)"
  by (cases e) (auto simp: transaction_outcome_def definite_error_def)

lemma outcome_quiet:
  assumes "commit_outcome E L db old new \<lparr>st_catalog = dirs, st_wal = w_dir w\<rparr> (Inl e)"
    and "disk_log L w ws" and "quiet L k w w'" and "w_database_id w = db"
  shows "transaction_outcome E L db old new \<lparr>st_catalog = dirs, st_wal = w_dir w'\<rparr> (Inl e)"
  using assms(1) opens_quiet [OF assms(2-4)]
  by (cases e) (auto simp: commit_outcome_def transaction_outcome_def)

text \<open>The part of a commit up to the removal of old generations is the commit of a generation; what
  follows depends on where that ended.\<close>

abbreviation tx_commit_generation ::
  "'s tx_env \<Rightarrow> 's transaction_changes \<Rightarrow> 's planned \<Rightarrow> catalog_state \<Rightarrow> catalog_dirs \<times> wal
   \<Rightarrow> (catalog_dirs \<times> wal) \<times> (db_error, catalog_state) result" where
  "tx_commit_generation X ch pl old \<equiv> commit_generation (tx_catalog X) (tx_log X) (tx_faults X)
     (tx_unique X (pl_coordinator pl)) (tx_unique X (pl_coordinator pl)) (cs_generation old)
     (planned_schemas (ch_schema_updates ch) (cs_schemas old)) (pl_tables pl)
     (planned_views (ch_view_updates ch) (cs_views old)) (pl_coordinator pl)"

lemma log_commit_cases:
  assumes gen: "tx_commit_generation X ch pl (nst_catalog st) (dirs, w) = ((dirs1, w1), q)"
  obtains (committed) committed where "q = Inr committed"
      "log_commit X ch pl (dirs, w, st) = complete_commit X ch pl committed (dirs1, w1, st)"
    | (unprepared) e w' e' where "q = Inl e" "w1 = w" "definite_error e"
      "abort_commit X (pl_writes pl) (pl_standalone pl) (pl_coordinator pl) e w = (w', e')"
      "log_commit X ch pl (dirs, w, st) = ((dirs1, w', st), Inl e')"
    | (unlogged) e where "q = Inl (wal_commit_error e)"
      "append_record (tx_log X) (cf_append (tx_faults X)) (tx_unique X (pl_coordinator pl)) (pl_coordinator pl)
         (Catalog_Commit (cs_generation (nst_catalog st)) (cs_generation (nst_catalog st) + 1)) w = (w1, Inl e)"
      "log_commit X ch pl (dirs, w, st) = ((dirs1, fold (drop_write X) (tl (pl_writes pl)) w1, st), Inl (wal_commit_error e))"
    | (unpublished) e where "q = Inl e"
      "append_record (tx_log X) (cf_append (tx_faults X)) (tx_unique X (pl_coordinator pl)) (pl_coordinator pl)
         (Catalog_Commit (cs_generation (nst_catalog st)) (cs_generation (nst_catalog st) + 1)) w = (w1, Inr ())"
      "log_commit X ch pl (dirs, w, st) = ((dirs1, w1, st), Inl e)"
proof -
  let ?E = "tx_catalog X" and ?f = "tx_faults X" and ?u = "tx_unique X (pl_coordinator pl)" and ?old = "nst_catalog st"
  let ?prepare = "prepare_catalog_commit ?E (cf_prepare ?f) ?u (w_database_id w) (cs_generation ?old)
    (planned_schemas (ch_schema_updates ch) (cs_schemas ?old)) (pl_tables pl)
    (planned_views (ch_view_updates ch) (cs_views ?old)) (pl_coordinator pl) dirs"
  obtain dirs0 p where prep: "?prepare = (dirs0, p)" by (cases ?prepare)
  show ?thesis
  proof (cases p)
    case (Inl e)
    obtain w' e' where ab: "abort_commit X (pl_writes pl) (pl_standalone pl) (pl_coordinator pl) e w = (w', e')"
      by (metis prod.exhaust)
    have "definite_error e"
      using prepare_catalog_commit_Inl(2) [OF prep [unfolded Inl]] by (auto simp: load_error_def definite_error_def)
    then show ?thesis
      using gen prep Inl ab unprepared by (auto simp: commit_generation_def log_commit_def Let_def)
  next
    case (Inr prepared)
    have "cs_generation prepared = cs_generation ?old + 1"
      using prep Inr by (auto simp: prepare_catalog_commit_def Let_def checked_add_def next_state_def
          split: if_splits sum.splits option.splits prod.splits)
    note facts = gen prep Inr this commit_catalog_def
    obtain w2 a where app: "append_record (tx_log X) (cf_append ?f) ?u (pl_coordinator pl)
        (Catalog_Commit (cs_generation ?old) (cs_generation ?old + 1)) w = (w2, a)" by (metis prod.exhaust)
    show ?thesis
    proof (cases a)
      case (Inl e)
      have "w2 = w1" "q = Inl (wal_commit_error e)"
        "log_commit X ch pl (dirs, w, st) = ((dirs1, fold (drop_write X) (tl (pl_writes pl)) w1, st), Inl (wal_commit_error e))"
        using facts app Inl by (auto simp: commit_generation_def log_commit_def Let_def)
      then show ?thesis using unlogged app Inl by blast
    next
      case (Inr v)
      obtain dirs2 b where pub: "publish_prepared ?E (cf_publish ?f) (w_database_id w) (cs_generation ?old) prepared
          (pl_coordinator pl) dirs0 = (dirs2, b)" by (metis prod.exhaust)
      have db: "w_database_id w2 = w_database_id w" using append_record_lsn [OF app] by simp
      have lc: "log_commit X ch pl (dirs, w, st) = publish_commit X ch pl prepared (dirs0, w2, st)"
        using facts(2-5) app Inr by (simp add: log_commit_def Let_def)
      have cg: "((dirs1, w1), q) = (case b of
          Inl e \<Rightarrow> ((dirs2, w2), Inl (catalog_publication_error e))
        | Inr c \<Rightarrow> if cf_inherited ?f then ((dirs2, w2), Inl (NativeCommitPostCommitFailure (cs_generation c)))
            else case prune_old_generations ?E (cf_prune ?f) (w_database_id w) (cs_generation c) dirs2 of
              (dirs3, Inl e) \<Rightarrow> ((dirs3, w2), Inl (NativeCommitPostCommitFailure (cs_generation c)))
            | (dirs3, Inr _) \<Rightarrow> ((dirs3, w2), Inr c))"
        using facts app Inr pub by (auto simp: commit_generation_def)
      have "w2 = w1" using cg by (auto split: sum.splits if_splits prod.splits)
      moreover have "(\<exists>c. q = Inr c \<and> publish_commit X ch pl prepared (dirs0, w2, st) = complete_commit X ch pl c (dirs1, w1, st))
          \<or> (\<exists>e. q = Inl e \<and> publish_commit X ch pl prepared (dirs0, w2, st) = ((dirs1, w1, st), Inl e))"
        using cg pub db by (auto simp: publish_commit_def split: sum.splits if_splits prod.splits)
      ultimately show ?thesis using committed unpublished lc app Inr by auto
    qed
  qed
qed

text \<open>What is relied on for the records and the catalog of one commit.\<close>

definition commit_ready ::
  "'s tx_env \<Rightarrow> string \<Rightarrow> 's transaction_changes \<Rightarrow> 's planned \<Rightarrow> 's native_state \<Rightarrow> string set \<Rightarrow> record_kind set \<Rightarrow> nat \<Rightarrow> nat \<Rightarrow> bool"
  where
  "commit_ready X db ch pl st txns kinds lo hi \<longleftrightarrow>
     tx_log_ok X db txns kinds lo hi \<and> pl_coordinator pl \<in> txns
     \<and> Catalog_Commit (cs_generation (nst_catalog st)) (cs_generation (nst_catalog st) + 1) \<in> kinds
     \<and> (\<forall>p \<in> set (pl_writes pl). pub_transaction_id p \<in> txns \<and> leased (pub_snapshot p))
     \<and> storable (tx_catalog X) (transaction_catalog db ch pl st)"

lemma log_commit_generation_outcome:
  assumes rest: "at_rest (tx_catalog X) (tx_log X) dirs w (nst_catalog st)" and db: "w_database_id w = db"
    and ready: "commit_ready X db ch pl st txns kinds lo hi" and room: "in_room lo hi 1 w"
    and gen: "tx_commit_generation X ch pl (nst_catalog st) (dirs, w) = ((dirs1, w1), q)"
  shows "commit_outcome (tx_catalog X) (tx_log X) db (nst_catalog st) (transaction_catalog db ch pl st)
      \<lparr>st_catalog = dirs1, st_wal = w_dir w1\<rparr> q"
    and "q = Inr committed \<Longrightarrow> at_rest (tx_catalog X) (tx_log X) dirs1 w1 (transaction_catalog db ch pl st)"
proof -
  let ?base = "cs_generation (nst_catalog st)"
  have wr: "writable (tx_log X) db txns kinds lo hi" and u: "unique_ok (tx_log X) (tx_unique X (pl_coordinator pl))"
    and c: "pl_coordinator pl \<in> txns" "Catalog_Commit ?base (?base + 1) \<in> kinds"
    and st: "storable (tx_catalog X) (transaction_catalog db ch pl st)"
    using ready by (auto simp: commit_ready_def tx_log_ok_def)
  have rb: "reads_back (rec_json (tx_log X)) (record_new db (w_next_lsn w) (pl_coordinator pl) (Catalog_Commit ?base (?base + 1)))"
    and lsn: "w_next_lsn w + 1 < u64_limit"
    using wr c room by (auto simp: writable_def in_room_def)
  note out = commit_generation_recovers [OF rest refl db [symmetric] transaction_catalog_def st u lsn rb gen]
  show "commit_outcome (tx_catalog X) (tx_log X) db (nst_catalog st) (transaction_catalog db ch pl st)
      \<lparr>st_catalog = dirs1, st_wal = w_dir w1\<rparr> q" by (rule out(1))
  show "at_rest (tx_catalog X) (tx_log X) dirs1 w1 (transaction_catalog db ch pl st)" if "q = Inr committed" by (rule out(2) [OF that])
qed

text \<open>A completed commit: the new catalog is what reopening finds, and memory mirrors it.\<close>

definition committed_state :: "string \<Rightarrow> 's transaction_changes \<Rightarrow> 's planned \<Rightarrow> 's native_state \<Rightarrow> 's native_state \<Rightarrow> bool" where
  "committed_state db ch pl st st' \<longleftrightarrow> mirrors st' \<and> nst_catalog st' = transaction_catalog db ch pl st
     \<and> map_of (nst_tables st') = committed_entry (ch_drops ch) (pl_writes pl) id
         (renamed_entry (ch_renames ch) (map_of (nst_tables st)))"

lemma complete_commit_durable:
  assumes rest: "at_rest (tx_catalog X) (tx_log X) dirs w (transaction_catalog db ch pl st)" and db: "w_database_id w = db"
    and ready: "commit_ready X db ch pl st txns kinds lo hi" and room: "in_room lo hi (length (pl_writes pl)) w"
    and st: "mirrors st" "plan_ok ch st pl"
    and run: "complete_commit X ch pl (transaction_catalog db ch pl st) (dirs, w, st) = ((dirs', w', st'), r)"
  shows "transaction_outcome (tx_catalog X) (tx_log X) db (nst_catalog st) (transaction_catalog db ch pl st)
      \<lparr>st_catalog = dirs', st_wal = w_dir w'\<rparr> r
    \<and> committed_state db ch pl st st' \<and> (r = Inr c \<longrightarrow> nc_generation c = cs_generation (nst_catalog st) + 1)"
proof -
  let ?new = "transaction_catalog db ch pl st"
  have leased: "\<And>p. p \<in> set (pl_writes pl) \<Longrightarrow> leased (pub_snapshot p)" and ids: "\<And>p. p \<in> set (pl_writes pl) \<Longrightarrow> pub_transaction_id p \<in> txns"
    and X: "tx_log_ok X (w_database_id w) txns kinds lo hi"
    using ready db by (auto simp: commit_ready_def)
  have new: "cs_tables ?new = pl_tables pl" "cs_views ?new = planned_views (ch_view_updates ch) (cs_views (nst_catalog st))"
    "cs_generation ?new = cs_generation (nst_catalog st) + 1"
    by (simp_all add: transaction_catalog_def next_state_def)
  note effect = complete_commit_effect [OF st leased new(1,2) run]
  then obtain f where clean: "cleanup_nonfinal X (pl_writes pl) (final_indices (ch_drops ch) (pl_writes pl)) (pl_coordinator pl) w = (w', f)"
    and r: "r = (case f of Some _ \<Rightarrow> Inl (NativeCommitPostCommitFailure (cs_generation ?new))
      | None \<Rightarrow> Inr \<lparr>nc_previous_generation = cs_generation (nst_catalog st), nc_generation = cs_generation ?new,
          nc_transaction_id = pl_coordinator pl\<rparr>)" by blast
  have "quiet (tx_log X) (length (rev (enumerate 0 (pl_writes pl)))) w w'"
    by (rule quiet_cleanup_writes [OF X _ _ clean [unfolded cleanup_nonfinal_def]])
      (use room ids in \<open>auto simp: enumerate_eq_zip dest: set_zip_rightD\<close>)
  moreover have "wal_ok (tx_log X) w" using rest by (simp add: at_rest_def)
  ultimately have "opens_with (tx_catalog X) (tx_log X) db \<lparr>st_catalog = dirs, st_wal = w_dir w'\<rparr> ?new"
    using opens_quiet(1) [OF disk_log_refl _ db] open_at_rest [OF rest] db by blast
  then show ?thesis
    using effect r new(3) by (auto simp: transaction_outcome_def committed_state_def split: option.splits)
qed

lemma set_tl: "set (tl xs) \<subseteq> set xs"
  by (cases xs) auto

lemma log_commit_durable:
  assumes rest: "at_rest (tx_catalog X) (tx_log X) dirs w (nst_catalog st)" and db: "w_database_id w = db"
    and ready: "commit_ready X db ch pl st txns kinds lo hi" and room: "in_room lo hi (2 * length (pl_writes pl) + 2) w"
    and st: "mirrors st" "plan_ok ch st pl"
    and run: "log_commit X ch pl (dirs, w, st) = ((dirs', w', st'), r)"
  shows "transaction_outcome (tx_catalog X) (tx_log X) db (nst_catalog st) (transaction_catalog db ch pl st)
      \<lparr>st_catalog = dirs', st_wal = w_dir w'\<rparr> r
    \<and> (st' = st \<and> \<not> is_ok r \<or> committed_state db ch pl st st')
    \<and> (r = Inr c \<longrightarrow> nc_generation c = cs_generation (nst_catalog st) + 1)"
proof -
  let ?E = "tx_catalog X" and ?L = "tx_log X" and ?old = "nst_catalog st" and ?new = "transaction_catalog db ch pl st"
  let ?n = "length (pl_writes pl)"
  have wok: "wal_ok ?L w" using rest by (simp add: at_rest_def)
  have X: "tx_log_ok X db txns kinds lo hi" and c: "pl_coordinator pl \<in> txns"
    and ids: "\<And>p. p \<in> set (pl_writes pl) \<Longrightarrow> pub_transaction_id p \<in> txns"
    and kind: "Catalog_Commit (cs_generation ?old) (cs_generation ?old + 1) \<in> kinds"
    using ready by (auto simp: commit_ready_def)
  have r1: "in_room lo hi 1 w" using room by (simp add: in_room_def)
  obtain dirs1 w1 q where gen: "tx_commit_generation X ch pl ?old (dirs, w) = ((dirs1, w1), q)" by (metis prod.exhaust)
  note out = log_commit_generation_outcome [OF rest db ready r1 gen]
  have app: "w_database_id w1 = db \<and> in_room lo hi (2 * ?n + 1) w1"
    if "append_record ?L f u t k w = (w1, a)" for f u t k a
    using append_record_lsn [OF that] db room by (simp add: in_room_def)
  show ?thesis
    using gen
  proof (cases rule: log_commit_cases)
    case (committed cc)
    have rest': "at_rest ?E ?L dirs1 w1 ?new" by (rule out(2) [OF committed(1)])
    have cc: "cc = ?new" using out(1) committed(1) by (simp add: commit_outcome_def)
    have w1: "w_database_id w1 = db \<and> in_room lo hi ?n w1"
      using gen committed(1) db room append_record_lsn
      by (fastforce simp: commit_generation_def commit_catalog_def in_room_def split: prod.splits sum.splits if_splits)
    show ?thesis
      using complete_commit_durable [OF rest' conjunct1 [OF w1] ready conjunct2 [OF w1] st] run
      unfolding committed(2) cc by blast
  next
    case (unprepared e v e')
    have ab: "quiet ?L (2 * ?n + 1) w v" "e' = e \<or> e' = NativeStorage"
      using quiet_abort_commit [OF _ _ ids c unprepared(4)] X db room by (simp_all add: in_room_def)
    have "opens_with ?E ?L db \<lparr>st_catalog = dirs1, st_wal = w_dir w\<rparr> ?old"
      using out(1) unprepared(1-3) by (cases e) (auto simp: commit_outcome_def definite_error_def)
    then have "opens_with ?E ?L db \<lparr>st_catalog = dirs1, st_wal = w_dir v\<rparr> ?old"
      by (rule opens_quiet(1) [OF disk_log_refl [OF wok] ab(1) db])
    moreover have "definite_error e'" using ab(2) unprepared(3) by (auto simp: definite_error_def)
    ultimately show ?thesis using run unprepared(5) outcome_old by fastforce
  next
    case (unlogged e)
    have "reads_back (rec_json ?L) (record_new (w_database_id w) (w_next_lsn w) (pl_coordinator pl)
        (Catalog_Commit (cs_generation ?old) (cs_generation ?old + 1)))" "w_next_lsn w + 1 < u64_limit"
      "unique_ok ?L (tx_unique X (pl_coordinator pl))"
      using X c kind db r1 by (auto simp: tx_log_ok_def writable_def in_room_def)
    from append_sync(3) [OF wok this(3,2,1) unlogged(2)] disk_log_refl
    obtain ws where "disk_log ?L w1 ws" by blast
    moreover have "quiet ?L (length (tl (pl_writes pl))) w1 (fold (drop_write X) (tl (pl_writes pl)) w1)"
      by (rule quiet_drops) (use X app [OF unlogged(2)] ids set_tl [of "pl_writes pl"] in \<open>auto simp: in_room_def\<close>)
    ultimately have "transaction_outcome ?E ?L db ?old ?new
        \<lparr>st_catalog = dirs1, st_wal = w_dir (fold (drop_write X) (tl (pl_writes pl)) w1)\<rparr> (Inl (wal_commit_error e) :: (db_error, native_commit) result)"
      using outcome_quiet [OF out(1) [unfolded unlogged(1)]] app [OF unlogged(2)] by blast
    then show ?thesis using run unlogged(3) by auto
  next
    case (unpublished e)
    have "transaction_outcome ?E ?L db ?old ?new \<lparr>st_catalog = dirs1, st_wal = w_dir w1\<rparr> (Inl e :: (db_error, native_commit) result)"
      using out(1) unpublished(1) by (cases e) (auto simp: commit_outcome_def transaction_outcome_def)
    then show ?thesis using run unpublished(3) by auto
  qed
qed

text \<open>The whole commit.\<close>

definition tx_coordinator :: "string \<Rightarrow> 's transaction_changes \<Rightarrow> string" where
  "tx_coordinator fresh ch = (case ch_writes ch of [] \<Rightarrow> fresh | p # _ \<Rightarrow> pub_transaction_id p)"

abbreviation tx_plan :: "'s tx_env \<Rightarrow> string \<Rightarrow> 's transaction_changes \<Rightarrow> 's native_state \<Rightarrow> (db_error, 's planned) result" where
  "tx_plan X fresh ch st \<equiv> plan_transaction ch (tx_coordinator fresh ch) (fst (check_transaction_changes X ch st)) st"

definition transaction_target :: "'s tx_env \<Rightarrow> string \<Rightarrow> string \<Rightarrow> 's transaction_changes \<Rightarrow> 's native_state \<Rightarrow> catalog_state" where
  "transaction_target X db fresh ch st = (case tx_plan X fresh ch st of
     Inr pl \<Rightarrow> transaction_catalog db ch pl st | Inl _ \<Rightarrow> nst_catalog st)"

text \<open>What is relied on for a transaction: the log can take its records, the errors of the rebase and
  of the quota check are not outcomes of a commit, and a planned catalog can be stored.\<close>

definition tx_ready ::
  "'s tx_env \<Rightarrow> string \<Rightarrow> string \<Rightarrow> 's transaction_changes \<Rightarrow> 's native_state \<Rightarrow> string set \<Rightarrow> record_kind set \<Rightarrow> nat \<Rightarrow> nat \<Rightarrow> bool"
  where
  "tx_ready X db fresh ch st txns kinds lo hi \<longleftrightarrow>
     tx_log_ok X db txns kinds lo hi \<and> tx_coordinator fresh ch \<in> txns
     \<and> Begin (ch_snapshot_generation ch) ReadWrite \<in> kinds
     \<and> Catalog_Commit (cs_generation (nst_catalog st)) (cs_generation (nst_catalog st) + 1) \<in> kinds
     \<and> (\<forall>p \<in> set (fst (check_transaction_changes X ch st)). pub_transaction_id p \<in> txns \<and> leased (pub_snapshot p))
     \<and> (\<forall>e. snd (check_transaction_changes X ch st) = Inl e \<longrightarrow> definite_error e)
     \<and> (\<forall>pl. tx_plan X fresh ch st = Inr pl \<longrightarrow> storable (tx_catalog X) (transaction_catalog db ch pl st))
     \<and> distinct (map fst (ch_renames ch))"

lemma begin_at_rest:
  assumes rest: "at_rest E L dirs w old" and wr: "writable L (w_database_id w) txns kinds lo hi" and room: "in_room lo hi (Suc k) w"
    and u: "unique_ok L unique" and txn: "txn \<in> txns" and kind: "Begin generation ReadWrite \<in> kinds"
    and run: "wal_begin L f unique txn generation w = (w', q)"
  shows "q = Inr v \<Longrightarrow> at_rest E L dirs w' old \<and> w_database_id w' = w_database_id w \<and> in_room lo hi k w'"
    and "q = Inl e \<Longrightarrow> opens_with E L (w_database_id w) \<lparr>st_catalog = dirs, st_wal = w_dir w'\<rparr> old \<and> definite_error e"
proof -
  let ?k = "Begin generation ReadWrite"
  have wok: "wal_ok L w" using rest by (simp add: at_rest_def)
  have lsn: "w_next_lsn w + 1 < u64_limit" and rb: "reads_back (rec_json L) (record_new (w_database_id w) (w_next_lsn w) txn ?k)"
    using wr room txn kind by (auto simp: writable_def in_room_def)
  show "at_rest E L dirs w' old \<and> w_database_id w' = w_database_id w \<and> in_room lo hi k w'" if q: "q = Inr v"
  proof -
    have app: "append_record L f unique txn ?k w = (w', Inr v)" using run q by (auto simp: wal_begin_def split: if_splits)
    note s = append_sync(1) [OF wok u lsn rb app] append_sync(2) [OF wok u lsn rb app refl]
    then have "catalog_commits w' = catalog_commits w"
      by (intro quiet_record [where r = "record_new (w_database_id w) (w_next_lsn w) txn ?k"])
        (simp_all add: is_commit_def record_new_def)
    then show ?thesis
      using s rest append_record_lsn [OF app] room by (simp add: at_rest_def caught_up_def in_room_def)
  qed
  show "opens_with E L (w_database_id w) \<lparr>st_catalog = dirs, st_wal = w_dir w'\<rparr> old \<and> definite_error e" if q: "q = Inl e"
  proof (cases "log_uuid_ok L txn")
    case True
    then have app: "append_record L f unique txn ?k w = (w', Inl e)" using run q by (auto simp: wal_begin_def)
    have "in_room lo hi 1 w" using room by (simp add: in_room_def)
    then have "quiet L 1 w w'" by (rule quiet_append [OF wr _ u txn kind _ app]) (simp add: is_commit_def)
    then show ?thesis
      using opens_quiet(1) [OF disk_log_refl [OF wok] _ refl open_at_rest [OF rest]] append_record_error_kind [OF app lsn]
      by (auto simp: definite_error_def ambiguous_append_error_def)
  next
    case False
    then show ?thesis using run q open_at_rest [OF rest] by (auto simp: wal_begin_def definite_error_def)
  qed
qed

lemma plan_transaction_Inl: "mirrors st \<Longrightarrow> distinct (map fst (ch_renames ch)) \<Longrightarrow>
    plan_transaction ch coordinator writes st = Inl e \<Longrightarrow> e = Internal"
  using plan_transaction_eq [of st ch coordinator writes] by (cases "renames_apply (ch_renames ch) (map_of (nst_tables st))") auto

lemma plan_transaction_Inr: "mirrors st \<Longrightarrow> distinct (map fst (ch_renames ch)) \<Longrightarrow>
    plan_transaction ch coordinator writes st = Inr pl \<Longrightarrow> plan_ok ch st pl \<and> pl_writes pl = writes \<and> pl_coordinator pl = coordinator"
  using plan_transaction_eq [of st ch coordinator writes] by (cases "renames_apply (ch_renames ch) (map_of (nst_tables st))") auto

text \<open>The steps of a transaction that is not empty.\<close>

definition tx_begun :: "'s tx_env \<Rightarrow> string \<Rightarrow> 's transaction_changes \<Rightarrow> wal \<Rightarrow> wal \<times> (db_error, unit) result" where
  "tx_begun X fresh ch w = (if ch_writes ch = []
     then wal_begin (tx_log X) (tx_begin X) (tx_unique X (tx_coordinator fresh ch)) (tx_coordinator fresh ch) (ch_snapshot_generation ch) w
     else (w, Inr ()))"

lemma transaction_commit_eq:
  assumes "\<not> (ch_writes ch = [] \<and> ch_drops ch = [] \<and> ch_renames ch = [] \<and> ch_view_updates ch = [] \<and> ch_schema_updates ch = [])"
    and "tx_begun X fresh ch w = (w0, b)" and "check_transaction_changes X ch st = (writes, checked)"
  shows "transaction_commit X fresh ch (dirs, w, st) = (case b of
      Inl e \<Rightarrow> ((dirs, w0, st), Inl e)
    | Inr _ \<Rightarrow> (case bindr checked (\<lambda>_. plan_transaction ch (tx_coordinator fresh ch) writes st) of
        Inl e \<Rightarrow> (case abort_commit X writes (ch_writes ch = []) (tx_coordinator fresh ch) e w0 of (w1, e') \<Rightarrow> ((dirs, w1, st), Inl e'))
      | Inr pl \<Rightarrow> log_commit X ch pl (dirs, w0, st)))"
  unfolding transaction_commit_def prod.case Let_def if_not_P [OF assms(1)] tx_coordinator_def [symmetric]
    tx_begun_def [symmetric] assms(2,3) by (cases b) simp_all

lemma tx_begun_at_rest:
  assumes rest: "at_rest (tx_catalog X) (tx_log X) dirs w (nst_catalog st)" and db: "w_database_id w = db"
    and ready: "tx_ready X db fresh ch st txns kinds lo hi" and room: "in_room lo hi (Suc k) w"
    and bg: "tx_begun X fresh ch w = (w0, b)"
  shows "b = Inr v \<Longrightarrow> at_rest (tx_catalog X) (tx_log X) dirs w0 (nst_catalog st) \<and> w_database_id w0 = db \<and> in_room lo hi k w0"
    and "b = Inl e \<Longrightarrow> opens_with (tx_catalog X) (tx_log X) db \<lparr>st_catalog = dirs, st_wal = w_dir w0\<rparr> (nst_catalog st) \<and> definite_error e"
proof -
  have *: "writable (tx_log X) (w_database_id w) txns kinds lo hi" "tx_coordinator fresh ch \<in> txns"
    "unique_ok (tx_log X) (tx_unique X (tx_coordinator fresh ch))" "Begin (ch_snapshot_generation ch) ReadWrite \<in> kinds"
    using ready db by (auto simp: tx_ready_def tx_log_ok_def)
  note bar = begin_at_rest [OF rest *(1) room *(3,2,4)]
  show "b = Inr v \<Longrightarrow> at_rest (tx_catalog X) (tx_log X) dirs w0 (nst_catalog st) \<and> w_database_id w0 = db \<and> in_room lo hi k w0"
    using bar(1) bg db rest room by (auto simp: tx_begun_def in_room_def split: if_splits)
  show "b = Inl e \<Longrightarrow> opens_with (tx_catalog X) (tx_log X) db \<lparr>st_catalog = dirs, st_wal = w_dir w0\<rparr> (nst_catalog st) \<and> definite_error e"
    using bar(2) bg db by (auto simp: tx_begun_def split: if_splits)
qed

lemma transaction_commit_durable:
  assumes rest: "at_rest (tx_catalog X) (tx_log X) dirs w (nst_catalog st)" and db: "w_database_id w = db"
    and ready: "tx_ready X db fresh ch st txns kinds lo hi"
    and room: "in_room lo hi (2 * length (fst (check_transaction_changes X ch st)) + 3) w" and st: "mirrors st"
    and run: "transaction_commit X fresh ch (dirs, w, st) = ((dirs', w', st'), r)"
  shows "transaction_outcome (tx_catalog X) (tx_log X) db (nst_catalog st) (transaction_target X db fresh ch st)
      \<lparr>st_catalog = dirs', st_wal = w_dir w'\<rparr> r
    \<and> (st' = st \<and> \<not> is_ok r \<or> (\<exists>pl. tx_plan X fresh ch st = Inr pl \<and> committed_state db ch pl st st'))
    \<and> (\<forall>c. r = Inr c \<longrightarrow> snd (check_transaction_changes X ch st) = Inr () \<and> nc_generation c = cs_generation (nst_catalog st) + 1)"
proof -
  let ?E = "tx_catalog X" and ?L = "tx_log X" and ?old = "nst_catalog st" and ?c = "tx_coordinator fresh ch"
  obtain writes checked where check: "check_transaction_changes X ch st = (writes, checked)" by (metis prod.exhaust)
  have X: "tx_log_ok X db txns kinds lo hi" and c: "?c \<in> txns" and ids: "\<And>p. p \<in> set writes \<Longrightarrow> pub_transaction_id p \<in> txns"
    and ren: "distinct (map fst (ch_renames ch))"
    using ready check by (auto simp: tx_ready_def)
  have old: ?thesis if "opens_with ?E ?L db \<lparr>st_catalog = dirs', st_wal = w_dir w'\<rparr> ?old" "definite_error e" "r = Inl e" "st' = st" for e
    using outcome_old [OF that(1,2)] that(3,4) by simp
  show ?thesis
  proof (cases "ch_writes ch = [] \<and> ch_drops ch = [] \<and> ch_renames ch = [] \<and> ch_view_updates ch = [] \<and> ch_schema_updates ch = []")
    case True
    then have "dirs' = dirs" "w' = w" "st' = st" "r = Inl InvalidArgument" using run by (simp_all add: transaction_commit_def)
    then show ?thesis using open_at_rest [OF rest] db by (intro old [of InvalidArgument]) (simp_all add: definite_error_def)
  next
    case False
    obtain w0 b where bg: "tx_begun X fresh ch w = (w0, b)" by (metis prod.exhaust)
    note run' = run [unfolded transaction_commit_eq [OF False bg check]]
    have "in_room lo hi (Suc (2 * length writes + 2)) w" using room check by (simp add: in_room_def)
    note begun = tx_begun_at_rest [OF rest db ready this bg]
    show ?thesis
    proof (cases b)
      case (Inl e)
      then have "dirs' = dirs" "w' = w0" "st' = st" "r = Inl e" using run' by simp_all
      then show ?thesis using begun(2) [OF Inl] by (intro old [of e]) simp_all
    next
      case (Inr v)
      have w0: "at_rest ?E ?L dirs w0 ?old" "w_database_id w0 = db" "in_room lo hi (2 * length writes + 2) w0"
        using begun(1) [OF Inr] by auto
      show ?thesis
      proof (cases "bindr checked (\<lambda>_. plan_transaction ch ?c writes st)")
        case err: (Inl e)
        obtain w1 e' where ab: "abort_commit X writes (ch_writes ch = []) ?c e w0 = (w1, e')" by (metis prod.exhaust)
        have q: "quiet ?L (2 * length writes + 1) w0 w1" "e' = e \<or> e' = NativeStorage"
          using quiet_abort_commit [OF _ _ ids c ab] X w0 by (simp_all add: in_room_def)
        have "definite_error e"
          using err ready check plan_transaction_Inl [OF st ren] by (auto simp: bindr_eq_Inl tx_ready_def definite_error_def)
        then have "definite_error e'" using q(2) by (auto simp: definite_error_def)
        moreover have "opens_with ?E ?L db \<lparr>st_catalog = dirs, st_wal = w_dir w1\<rparr> ?old"
          using opens_quiet(1) [OF disk_log_refl q(1) w0(2)] open_at_rest [OF w0(1)] w0 by (auto simp: at_rest_def)
        moreover have "dirs' = dirs" "w' = w1" "st' = st" "r = Inl e'" using run' [unfolded Inr err sum.case ab] by simp_all
        ultimately show ?thesis by (intro old [of e']) simp_all
      next
        case ok: (Inr pl)
        then have pl: "plan_transaction ch ?c writes st = Inr pl" and checked: "checked = Inr ()" by (auto simp: result_simps)
        note facts = plan_transaction_Inr [OF st ren pl]
        have "commit_ready X db ch pl st txns kinds lo hi"
          using ready facts check pl by (auto simp: tx_ready_def commit_ready_def)
        from log_commit_durable [OF w0(1,2) this _ st conjunct1 [OF facts]] w0(3) facts run' [unfolded Inr ok sum.case]
        have "transaction_outcome ?E ?L db ?old (transaction_catalog db ch pl st) \<lparr>st_catalog = dirs', st_wal = w_dir w'\<rparr> r
            \<and> (st' = st \<and> \<not> is_ok r \<or> committed_state db ch pl st st')
            \<and> (r = Inr cc \<longrightarrow> nc_generation cc = cs_generation ?old + 1)" for cc by simp
        moreover have "transaction_target X db fresh ch st = transaction_catalog db ch pl st" by (simp add: transaction_target_def check pl)
        ultimately show ?thesis using check checked pl by auto
      qed
    qed
  qed
qed

end
