(* ===== verification/Session_Catalog.thy ===== *)
theory Session_Catalog
  imports Catalog_Name Ordered_Map Native_Error
begin

text \<open>
  The catalog a session reads (\<open>catalog.rs\<close>, \<open>catalog/persistent.rs\<close>): its own tables and views over
  the persistent tables of the engine, which commits replace as a whole, and pinning, which fixes both
  for one statement or transaction.
\<close>

section \<open>Persistent entries\<close>

record 'p table_entry =
  te_name :: string
  te_provider :: 'p

text \<open>The hash maps are looked up, and listed only through a sort, so their order does not show: they are
  ordered maps here.\<close>

record 'p persistent_snapshot =
  ps_generation :: nat
  ps_tables :: "(string \<times> 'p table_entry) list"

definition persistent_empty :: "'p persistent_snapshot" where
  "persistent_empty = \<lparr>ps_generation = 0, ps_tables = []\<rparr>"

definition persistent_new :: "nat \<Rightarrow> 'p table_entry list \<Rightarrow> (db_error, 'p persistent_snapshot) result" where
  "persistent_new generation entries =
     bindr (try_fold (\<lambda>tables entry.
         let key = to_ascii_lowercase (te_name entry) in
         if map_of tables key \<noteq> None then Inl Catalog else Inr (bt_insert key entry tables)) [] entries) (\<lambda>tables.
     Inr \<lparr>ps_generation = generation, ps_tables = tables\<rparr>)"

text \<open>Both updates replace the shared value, if the generation it was computed from is still current.\<close>

definition persistent_publish ::
  "nat \<Rightarrow> 'p table_entry list \<Rightarrow> 'p persistent_snapshot \<Rightarrow> 'p persistent_snapshot \<times> (db_error, nat) result" where
  "persistent_publish expected entries current = (case checked_add expected 1 of
       None \<Rightarrow> (current, Inl Catalog)
     | Some generation \<Rightarrow> (case persistent_new generation entries of
         Inl e \<Rightarrow> (current, Inl e)
       | Inr next \<Rightarrow> if ps_generation current \<noteq> expected then (current, Inl Catalog) else (next, Inr generation)))"

definition persistent_replace ::
  "nat \<Rightarrow> 'p table_entry list \<Rightarrow> 'p persistent_snapshot \<Rightarrow> 'p persistent_snapshot \<times> (db_error, unit) result" where
  "persistent_replace expected entries current = (case persistent_new expected entries of
       Inl e \<Rightarrow> (current, Inl e)
     | Inr next \<Rightarrow> if ps_generation current \<noteq> expected then (current, Inl Catalog) else (next, Inr ()))"

section \<open>The session\<close>

record 'p local_catalog_state =
  lc_tables :: "(string \<times> 'p table_entry) list"
  lc_views :: "(string \<times> string) list"
  lc_hidden_persistent :: "string set"

text \<open>A catalog, without the shared persistent value: the operations that read it take its value at the
  time of the call, or none for an engine in memory.\<close>

record 'p catalog =
  ca_local :: "'p local_catalog_state"
  ca_pinned :: "'p persistent_snapshot option"

type_synonym 'p persistent = "'p persistent_snapshot option"

definition catalog_new :: "'p catalog" where
  "catalog_new = \<lparr>ca_local = \<lparr>lc_tables = [], lc_views = [], lc_hidden_persistent = {}\<rparr>, ca_pinned = None\<rparr>"

definition catalog_persistent :: "'p persistent \<Rightarrow> 'p catalog \<Rightarrow> 'p persistent" where
  "catalog_persistent current c = (case ca_pinned c of Some s \<Rightarrow> Some s | None \<Rightarrow> current)"

definition catalog_pin :: "'p persistent \<Rightarrow> 'p catalog \<Rightarrow> 'p catalog" where
  "catalog_pin current c = c\<lparr>ca_pinned := catalog_persistent current c\<rparr>"

definition persistent_generation :: "'p persistent \<Rightarrow> 'p catalog \<Rightarrow> nat option" where
  "persistent_generation current c = map_option ps_generation (catalog_persistent current c)"

definition catalog_register :: "'p table_entry \<Rightarrow> 'p catalog \<Rightarrow> 'p catalog" where
  "catalog_register entry c =
     (let key = to_ascii_lowercase (te_name entry); l = ca_local c in
      c\<lparr>ca_local := \<lparr>lc_tables = bt_insert key entry (lc_tables l), lc_views = bt_remove key (lc_views l),
        lc_hidden_persistent = lc_hidden_persistent l - {key}\<rparr>\<rparr>)"

definition catalog_unregister :: "string \<Rightarrow> 'p catalog \<Rightarrow> 'p catalog \<times> 'p table_entry option" where
  "catalog_unregister name c =
     (let key = to_ascii_lowercase name; l = ca_local c in
      (c\<lparr>ca_local := l\<lparr>lc_tables := bt_remove key (lc_tables l), lc_views := bt_remove key (lc_views l)\<rparr>\<rparr>,
       map_of (lc_tables l) key))"

definition persistent_entry :: "'p persistent \<Rightarrow> string \<Rightarrow> 'p table_entry option" where
  "persistent_entry p key = Option.bind p (\<lambda>s. map_of (ps_tables s) key)"

definition catalog_table :: "'p persistent \<Rightarrow> string \<Rightarrow> 'p catalog \<Rightarrow> 'p table_entry option" where
  "catalog_table current name c =
     (let key = to_ascii_lowercase name; l = ca_local c in
      case map_of (lc_tables l) key of
        Some entry \<Rightarrow> Some entry
      | None \<Rightarrow> if key \<in> lc_hidden_persistent l then None
                else persistent_entry (catalog_persistent current c) key)"

definition catalog_local_table :: "string \<Rightarrow> 'p catalog \<Rightarrow> 'p table_entry option" where
  "catalog_local_table name c = map_of (lc_tables (ca_local c)) (to_ascii_lowercase name)"

definition catalog_persistent_table :: "'p persistent \<Rightarrow> string \<Rightarrow> 'p catalog \<Rightarrow> 'p table_entry option" where
  "catalog_persistent_table current name c =
     (if to_ascii_lowercase name \<in> lc_hidden_persistent (ca_local c) then None
      else persistent_entry (catalog_persistent current c) (to_ascii_lowercase name))"

definition hide_persistent :: "string \<Rightarrow> 'p catalog \<Rightarrow> 'p catalog" where
  "hide_persistent name c =
     (let key = to_ascii_lowercase name; l = ca_local c in
      c\<lparr>ca_local := \<lparr>lc_tables = bt_remove key (lc_tables l), lc_views = bt_remove key (lc_views l),
        lc_hidden_persistent = insert key (lc_hidden_persistent l)\<rparr>\<rparr>)"

text \<open>\<open>ptr_eq\<close> is the identity of providers.\<close>

definition replace_provider ::
  "('p \<Rightarrow> 'p \<Rightarrow> bool) \<Rightarrow> string \<Rightarrow> 'p \<Rightarrow> 'p \<Rightarrow> 'p catalog \<Rightarrow> 'p catalog \<times> (db_error, unit) result" where
  "replace_provider ptr_eq name expected replacement c =
     (let key = to_ascii_lowercase name; l = ca_local c in
      case map_of (lc_tables l) key of
        None \<Rightarrow> (c, Inl Catalog)
      | Some entry \<Rightarrow>
          if \<not> ptr_eq (te_provider entry) expected then (c, Inl Catalog)
          else (c\<lparr>ca_local := l\<lparr>lc_tables :=
                 bt_insert key \<lparr>te_name = te_name entry, te_provider = replacement\<rparr> (lc_tables l)\<rparr>\<rparr>, Inr ()))"

definition table_names :: "'p persistent \<Rightarrow> 'p catalog \<Rightarrow> string list" where
  "table_names current c =
     (let l = ca_local c;
          named = map (\<lambda>entry. (to_ascii_lowercase (te_name entry), te_name entry));
          persistent = (case catalog_persistent current c of None \<Rightarrow> []
            | Some s \<Rightarrow> filter (\<lambda>entry. to_ascii_lowercase (te_name entry) \<notin> lc_hidden_persistent l) (map snd (ps_tables s)));
          visible = bt_collect (named persistent @ named (map snd (lc_tables l))) in
      sort (map snd visible))"

definition register_view :: "'p table_entry \<Rightarrow> string \<Rightarrow> bool \<Rightarrow> 'p catalog \<Rightarrow> 'p catalog \<times> (db_error, unit) result" where
  "register_view entry sql replace c =
     (let key = to_ascii_lowercase (te_name entry); l = ca_local c;
          table_exists = (map_of (lc_tables l) key \<noteq> None);
          view_exists = (map_of (lc_views l) key \<noteq> None) in
      if table_exists \<and> \<not> view_exists then (c, Inl Catalog)
      else if (table_exists \<or> view_exists) \<and> \<not> replace then (c, Inl Catalog)
      else (c\<lparr>ca_local := l\<lparr>lc_tables := bt_insert key entry (lc_tables l),
                            lc_views := bt_insert key sql (lc_views l)\<rparr>\<rparr>, Inr ()))"

definition drop_view :: "string \<Rightarrow> 'p catalog \<Rightarrow> 'p catalog \<times> bool" where
  "drop_view name c =
     (let key = to_ascii_lowercase name; l = ca_local c in
      if map_of (lc_views l) key = None then (c, False)
      else (c\<lparr>ca_local := l\<lparr>lc_tables := bt_remove key (lc_tables l), lc_views := bt_remove key (lc_views l)\<rparr>\<rparr>, True))"

definition is_local_view :: "string \<Rightarrow> 'p catalog \<Rightarrow> bool" where
  "is_local_view name c \<longleftrightarrow> map_of (lc_views (ca_local c)) (to_ascii_lowercase name) \<noteq> None"

section \<open>What a session sees\<close>

text \<open>Well-formed: the local maps are ordered, and every view is an entry.\<close>

definition catalog_ok_local :: "'p catalog \<Rightarrow> bool" where
  "catalog_ok_local c \<longleftrightarrow> bt_ok (lc_tables (ca_local c)) \<and> bt_ok (lc_views (ca_local c))
     \<and> (\<forall>n. map_of (lc_tables (ca_local c)) n = None \<longrightarrow> map_of (lc_views (ca_local c)) n = None)"

lemma catalog_ok_new: "catalog_ok_local catalog_new"
  by (simp add: catalog_ok_local_def catalog_new_def)

lemma catalog_ok_register: "catalog_ok_local c \<Longrightarrow> catalog_ok_local (catalog_register entry c)"
  by (auto simp: catalog_ok_local_def catalog_register_def Let_def map_of_bt_insert map_of_bt_remove split: if_splits)

lemma catalog_ok_hide: "catalog_ok_local c \<Longrightarrow> catalog_ok_local (hide_persistent name c)"
  by (auto simp: catalog_ok_local_def hide_persistent_def Let_def map_of_bt_remove split: if_splits)

lemma catalog_ok_unregister: "catalog_ok_local c \<Longrightarrow> catalog_unregister name c = (c', entry) \<Longrightarrow> catalog_ok_local c'"
  by (auto simp: catalog_ok_local_def catalog_unregister_def Let_def map_of_bt_remove split: if_splits)

lemma catalog_ok_register_view: "catalog_ok_local c \<Longrightarrow> register_view entry sql replace c = (c', q) \<Longrightarrow> catalog_ok_local c'"
  by (auto simp: catalog_ok_local_def register_view_def Let_def map_of_bt_insert split: if_splits)

lemma catalog_ok_drop_view: "catalog_ok_local c \<Longrightarrow> drop_view name c = (c', q) \<Longrightarrow> catalog_ok_local c'"
  by (auto simp: catalog_ok_local_def drop_view_def Let_def map_of_bt_remove split: if_splits)

lemma catalog_persistent_local [simp]: "catalog_persistent current (c\<lparr>ca_local := l\<rparr>) = catalog_persistent current c"
  by (simp add: catalog_persistent_def)

text \<open>Case does not matter to a lookup.\<close>

lemma catalog_table_register:
  assumes "catalog_ok_local c"
  shows "catalog_table current n (catalog_register entry c) =
    (if to_ascii_lowercase n = to_ascii_lowercase (te_name entry) then Some entry else catalog_table current n c)"
  using assms by (auto simp: catalog_table_def catalog_register_def Let_def map_of_bt_insert catalog_ok_local_def
      split: option.splits)

lemma catalog_table_hide:
  "catalog_table current n (hide_persistent name c) =
    (if to_ascii_lowercase n = to_ascii_lowercase name then None else catalog_table current n c)"
  by (auto simp: catalog_table_def hide_persistent_def Let_def map_of_bt_remove split: option.splits)

lemma register_view_Inr:
  "register_view entry sql replace c = (c', Inr u) \<Longrightarrow>
     c' = c\<lparr>ca_local := (ca_local c)\<lparr>lc_tables := bt_insert (to_ascii_lowercase (te_name entry)) entry (lc_tables (ca_local c)),
       lc_views := bt_insert (to_ascii_lowercase (te_name entry)) sql (lc_views (ca_local c))\<rparr>\<rparr>"
  by (simp add: register_view_def Let_def split: if_splits)

lemma catalog_table_register_view:
  assumes "catalog_ok_local c" and "register_view entry sql replace c = (c', Inr u)"
  shows "catalog_table current n c' =
    (if to_ascii_lowercase n = to_ascii_lowercase (te_name entry) then Some entry else catalog_table current n c)"
proof -
  have "map_of (bt_insert k entry (lc_tables (ca_local c))) = (map_of (lc_tables (ca_local c)))(k \<mapsto> entry)" for k
    by (rule map_of_bt_insert) (use assms(1) in \<open>simp add: catalog_ok_local_def\<close>)
  then show ?thesis
    unfolding register_view_Inr [OF assms(2)] by (simp add: catalog_table_def Let_def split: option.split)
qed

text \<open>A pinned catalog does not see a later commit.\<close>

lemma pin_persistent: "catalog_persistent (Some later) (catalog_pin (Some now) c) = catalog_persistent (Some now) c"
  by (simp add: catalog_persistent_def catalog_pin_def split: option.split)

lemma pin_table: "catalog_table (Some later) n (catalog_pin (Some now) c) = catalog_table (Some now) n c"
  using pin_persistent [of later now c]
  by (auto simp: catalog_table_def Let_def catalog_pin_def split: option.split)

end
