(* ===== verification/Transaction_Workspace.thy ===== *)
theory Transaction_Workspace
  imports Transaction_Durable Session_Catalog
begin

text \<open>
  The changes an explicit transaction collects before it commits (\<open>engine/transaction/workspace.rs\<close>):
  staged schemas, views, writes, drops and renames over a snapshot of the database, the session catalog
  that shows them to the statements of the transaction, and the vacuum that follows a commit
  (\<open>storage/native/mod.rs\<close>).
\<close>

section \<open>Providers and views\<close>

datatype system_table_kind = InformationSchemata | InformationTables | InformationColumns | NativeTables

text \<open>What a session registers: the segments of a snapshot, a view, a system table over the state of a
  transaction, or a table of its own, by number.\<close>

datatype 's provider =
    NativeSegmentTable "'s table_snapshot"
  | ViewTable string string
  | NativeSystemTable system_table_kind "string list" "(string \<times> 's table_snapshot) list" "(string \<times> 's native_view) list"
  | LocalTable nat

definition view_reference_new :: "'s table_env \<Rightarrow> nat \<Rightarrow> string \<Rightarrow> 's \<Rightarrow> view_reference" where
  "view_reference_new T version sql schema =
     \<lparr>vr_version = version, vr_sql = sql, vr_schema_ipc_hex = encode_hex (te_encode T schema),
      vr_schema_sha256 = te_sha256 T (te_encode T schema)\<rparr>"

definition native_view_new :: "'s table_env \<Rightarrow> nat \<Rightarrow> string \<Rightarrow> 's \<Rightarrow> (db_error, 's native_view) result" where
  "native_view_new T version sql schema =
     (if version = 0 then Inl InvalidArgument
      else if sql = [] \<or> MAX_VIEW_SQL_BYTES < length sql then Inl InvalidArgument
      else Inr \<lparr>nv_version = version, nv_sql = sql, nv_schema = schema,
                nv_reference = view_reference_new T version sql schema\<rparr>)"

section \<open>The workspace\<close>

record 's tx_workspace =
  tw_transaction_id :: string
  tw_snapshot_generation :: nat
  tw_base_schemas :: "string list"
  tw_base_tables :: "(string \<times> 's table_snapshot) list"
  tw_base_views :: "(string \<times> 's native_view) list"
  tw_mutation_active :: bool
  tw_expected_schemas :: "(string \<times> bool) list"
  tw_working_schemas :: "string list"
  tw_schema_updates :: "(string \<times> bool) list"
  tw_expected :: "(string \<times> 's table_snapshot option) list"
  tw_working :: "(string \<times> 's table_snapshot) list"
  tw_working_views :: "(string \<times> 's native_view) list"
  tw_writes :: "'s published list"
  tw_drops :: "string list"
  tw_renames :: "(string \<times> string) list"
  tw_expected_views :: "(string \<times> 's native_view option) list"
  tw_view_updates :: "(string \<times> 's native_view option) list"

definition workspace_new ::
  "string \<Rightarrow> nat \<Rightarrow> string list \<Rightarrow> (string \<times> 's table_snapshot) list \<Rightarrow> (string \<times> 's native_view) list \<Rightarrow> 's tx_workspace"
  where
  "workspace_new transaction_id generation schemas tables views =
     \<lparr>tw_transaction_id = transaction_id, tw_snapshot_generation = generation, tw_base_schemas = schemas,
      tw_base_tables = tables, tw_base_views = views, tw_mutation_active = False, tw_expected_schemas = [],
      tw_working_schemas = schemas, tw_schema_updates = [], tw_expected = [], tw_working = tables,
      tw_working_views = views, tw_writes = [], tw_drops = [], tw_renames = [], tw_expected_views = [],
      tw_view_updates = []\<rparr>"

definition begin_mutation :: "'s tx_workspace \<Rightarrow> 's tx_workspace \<times> (db_error, unit) result" where
  "begin_mutation ws = (if tw_mutation_active ws then (ws, Inl InvalidArgument)
     else (ws\<lparr>tw_mutation_active := True\<rparr>, Inr ()))"

definition end_mutation :: "'s tx_workspace \<Rightarrow> 's tx_workspace" where
  "end_mutation ws = ws\<lparr>tw_mutation_active := False\<rparr>"

definition is_staged :: "string \<Rightarrow> 's tx_workspace \<Rightarrow> bool" where
  "is_staged name ws \<longleftrightarrow> map_of (tw_expected ws) (to_ascii_lowercase name) \<noteq> None"

definition working_snapshot :: "string \<Rightarrow> 's tx_workspace \<Rightarrow> 's table_snapshot option" where
  "working_snapshot name ws = map_of (tw_working ws) (to_ascii_lowercase name)"

definition working_view :: "string \<Rightarrow> 's tx_workspace \<Rightarrow> 's native_view option" where
  "working_view name ws = map_of (tw_working_views ws) (to_ascii_lowercase name)"

text \<open>\<open>entry(k).or_insert(v)\<close>, and the expectations on the base.\<close>

definition or_insert :: "'k::linorder \<Rightarrow> 'v \<Rightarrow> ('k \<times> 'v) list \<Rightarrow> ('k \<times> 'v) list" where
  "or_insert k v m = (if map_of m k = None then bt_insert k v m else m)"

definition expect_schema :: "string \<Rightarrow> 's tx_workspace \<Rightarrow> 's tx_workspace" where
  "expect_schema schema ws =
     ws\<lparr>tw_expected_schemas := or_insert schema (schema \<in> set (tw_base_schemas ws)) (tw_expected_schemas ws)\<rparr>"

definition expect_table :: "string \<Rightarrow> 's tx_workspace \<Rightarrow> 's tx_workspace" where
  "expect_table name ws =
     ws\<lparr>tw_expected := or_insert name (map_of (tw_base_tables ws) name) (tw_expected ws)\<rparr>"

definition expect_view :: "string \<Rightarrow> 's tx_workspace \<Rightarrow> 's tx_workspace" where
  "expect_view name ws =
     ws\<lparr>tw_expected_views := or_insert name (map_of (tw_base_views ws) name) (tw_expected_views ws)\<rparr>"

section \<open>Schemas and views\<close>

definition stage_schema_create :: "string \<Rightarrow> bool \<Rightarrow> 's tx_workspace \<Rightarrow> 's tx_workspace \<times> (db_error, bool) result" where
  "stage_schema_create raw if_not_exists ws =
     (let name = to_ascii_lowercase raw in
      if name \<in> set (tw_working_schemas ws) then (ws, if if_not_exists then Inr False else Inl Catalog)
      else
      let ws1 = ws\<lparr>tw_working_schemas := set_insert name (tw_working_schemas ws)\<rparr> in
      (if name \<in> set (tw_base_schemas ws)
       then ws1\<lparr>tw_expected_schemas := bt_remove name (tw_expected_schemas ws1),
                tw_schema_updates := bt_remove name (tw_schema_updates ws1)\<rparr>
       else ws1\<lparr>tw_expected_schemas := bt_insert name False (tw_expected_schemas ws1),
                tw_schema_updates := bt_insert name True (tw_schema_updates ws1)\<rparr>, Inr True))"

definition stage_schema_drop :: "string \<Rightarrow> bool \<Rightarrow> 's tx_workspace \<Rightarrow> 's tx_workspace \<times> (db_error, bool) result" where
  "stage_schema_drop raw if_exists ws =
     (let name = to_ascii_lowercase raw in
      if name = DEFAULT_SCHEMA then (ws, Inl Unsupported)
      else if name \<notin> set (tw_working_schemas ws) then (ws, if if_exists then Inr False else Inl Catalog)
      else if list_ex (\<lambda>object. schema_of object = name) (map fst (tw_working ws) @ map fst (tw_working_views ws))
      then (ws, Inl Catalog)
      else
      let ws1 = ws\<lparr>tw_working_schemas := removeAll name (tw_working_schemas ws)\<rparr> in
      (if name \<in> set (tw_base_schemas ws)
       then ws1\<lparr>tw_expected_schemas := bt_insert name True (tw_expected_schemas ws1),
                tw_schema_updates := bt_insert name False (tw_schema_updates ws1)\<rparr>
       else ws1\<lparr>tw_expected_schemas := bt_remove name (tw_expected_schemas ws1),
                tw_schema_updates := bt_remove name (tw_schema_updates ws1)\<rparr>, Inr True))"

text \<open>The system tables a transaction registers before it pins the catalog.\<close>

definition workspace_pin_catalog :: "'s provider persistent \<Rightarrow> 's tx_workspace \<Rightarrow> 's provider catalog \<Rightarrow> 's provider catalog \<times> 's provider catalog" where
  "workspace_pin_catalog current ws c =
     (let c' = foldl (\<lambda>c (name, kind). catalog_register
            \<lparr>te_name = name, te_provider = NativeSystemTable kind (tw_working_schemas ws) (tw_working ws) (tw_working_views ws)\<rparr> c) c
          [(''information_schema.schemata'', InformationSchemata), (''information_schema.tables'', InformationTables),
           (''information_schema.columns'', InformationColumns), (''rustdb_system.tables'', NativeTables)] in
      (c', catalog_pin current c'))"

text \<open>The expectation on the schema is recorded even when the statement then fails.\<close>

definition stage_view ::
  "'s table_env \<Rightarrow> string \<Rightarrow> string \<Rightarrow> 's \<Rightarrow> 's provider table_entry \<Rightarrow> bool \<Rightarrow> 's tx_workspace \<times> 's provider catalog
   \<Rightarrow> ('s tx_workspace \<times> 's provider catalog) \<times> (db_error, unit) result" where
  "stage_view T raw sql schema entry replace = (\<lambda>(ws, c).
     let name = to_ascii_lowercase raw in
     if schema_of name \<notin> set (tw_working_schemas ws) then ((ws, c), Inl Catalog)
     else
     let ws1 = expect_schema (schema_of name) ws; previous = map_of (tw_working_views ws) name in
     if map_of (tw_working ws) name \<noteq> None then ((ws1, c), Inl Catalog)
     else if previous \<noteq> None \<and> \<not> replace then ((ws1, c), Inl Catalog)
     else case (case previous of Some view \<Rightarrow> ok_or (checked_add (nv_version view) 1) ResourceExhausted | None \<Rightarrow> Inr 1) of
       Inl e \<Rightarrow> ((ws1, c), Inl e)
     | Inr version \<Rightarrow> (case native_view_new T version sql schema of
       Inl e \<Rightarrow> ((ws1, c), Inl e)
     | Inr view \<Rightarrow> (case register_view entry sql True c of
       (c', Inl e) \<Rightarrow> ((ws1, c'), Inl e)
     | (c', Inr _) \<Rightarrow>
       let ws2 = expect_table name (expect_view name ws1) in
       ((ws2\<lparr>tw_working_views := bt_insert name view (tw_working_views ws2),
             tw_view_updates := bt_insert name (Some view) (tw_view_updates ws2)\<rparr>, c'), Inr ()))))"

definition stage_view_drop ::
  "string \<Rightarrow> bool \<Rightarrow> 's tx_workspace \<times> 's provider catalog \<Rightarrow> ('s tx_workspace \<times> 's provider catalog) \<times> (db_error, bool) result" where
  "stage_view_drop raw if_exists = (\<lambda>(ws, c).
     let name = to_ascii_lowercase raw in
     if map_of (tw_working_views ws) name = None then ((ws, c), if if_exists then Inr False else Inl Catalog)
     else
     let ws1 = expect_view name (ws\<lparr>tw_working_views := bt_remove name (tw_working_views ws)\<rparr>) in
     ((ws1\<lparr>tw_view_updates := bt_insert name None (tw_view_updates ws1)\<rparr>, hide_persistent name c), Inr True))"

section \<open>Tables\<close>

text \<open>\<open>plan\<close> is the planning of the write by the database, from the existing snapshot and the schemas.\<close>

definition workspace_plan_write ::
  "(string \<Rightarrow> 's table_snapshot option \<Rightarrow> string list \<Rightarrow> (db_error, 'plan) result) \<Rightarrow> string \<Rightarrow> 's tx_workspace
   \<Rightarrow> 's tx_workspace \<times> (db_error, 'plan) result" where
  "workspace_plan_write plan raw ws =
     (let name = to_ascii_lowercase raw in
      if schema_of name \<notin> set (tw_working_schemas ws) then (ws, Inl Catalog)
      else
      let ws1 = expect_schema (schema_of name) ws in
      if map_of (tw_working_views ws) name \<noteq> None then (ws1, Inl Catalog)
      else (ws1, plan name (map_of (tw_working ws) name) (tw_working_schemas ws)))"

text \<open>The names of the published writes, by transaction, that the quota check knows.\<close>

type_synonym quota_writes = "(string \<times> string) list"

text \<open>Staging a write that is published: the part of \<open>stage_prepared\<close> after the publication.\<close>

definition stage_published ::
  "'s published \<Rightarrow> 's tx_workspace \<times> 's provider catalog \<Rightarrow> 's tx_workspace \<times> 's provider catalog" where
  "stage_published p = (\<lambda>(ws, c).
     let name = pub_name p;
         ws1 = expect_view name (expect_table name ws) in
     (ws1\<lparr>tw_working := bt_insert name (pub_snapshot p) (tw_working ws1), tw_drops := removeAll name (tw_drops ws1),
          tw_writes := tw_writes ws1 @ [p]\<rparr>,
      catalog_register \<lparr>te_name = name, te_provider = NativeSegmentTable (pub_snapshot p)\<rparr> c))"

definition native_write_error_poisons :: "db_error \<Rightarrow> bool" where
  "native_write_error_poisons e \<longleftrightarrow> (case e of
       NativeStorage \<Rightarrow> True | CommitOutcomeUnknown \<Rightarrow> True | NativeCommitPostCommitFailure _ \<Rightarrow> True | _ \<Rightarrow> False)"

text \<open>The outcomes of aborting and of publishing the prepared snapshot are arguments; \<open>poisoned\<close> is the flag
  of the engine.\<close>

definition stage_prepared ::
  "db_error option \<Rightarrow> (db_error, 's published) result \<Rightarrow> bool \<times> quota_writes \<Rightarrow> 's tx_workspace \<times> 's provider catalog
   \<Rightarrow> (bool \<times> quota_writes) \<times> ('s tx_workspace \<times> 's provider catalog) \<times> (db_error, unit) result" where
  "stage_prepared abort publish = (\<lambda>(poisoned, quota) s.
     if poisoned then ((poisoned, quota), s, case abort of None \<Rightarrow> Inl NativeStorage | Some _ \<Rightarrow> Inl NativeStorage)
     else case publish of
       Inl e \<Rightarrow> ((native_write_error_poisons e, quota), s, Inl e)
     | Inr p \<Rightarrow> ((poisoned, bt_insert (pub_transaction_id p) (pub_name p) quota), stage_published p s, Inr ()))"

definition stage_drop ::
  "string \<Rightarrow> bool \<Rightarrow> 's tx_workspace \<times> 's provider catalog \<Rightarrow> ('s tx_workspace \<times> 's provider catalog) \<times> (db_error, bool) result" where
  "stage_drop raw if_exists = (\<lambda>(ws, c).
     let name = to_ascii_lowercase raw in
     if map_of (tw_working ws) name = None then ((ws, c), if if_exists then Inr False else Inl Catalog)
     else
     let ws1 = expect_table name (ws\<lparr>tw_working := bt_remove name (tw_working ws)\<rparr>) in
     ((ws1\<lparr>tw_drops := set_insert name (tw_drops ws1)\<rparr>, hide_persistent name c), Inr True))"

definition rename_writes :: "string \<Rightarrow> string \<Rightarrow> 's published list \<Rightarrow> 's published list" where
  "rename_writes old new writes = map (\<lambda>p. if pub_name p = old then rename_to new p else p) writes"

definition rename_quota :: "string \<Rightarrow> string \<Rightarrow> 's published list \<Rightarrow> quota_writes \<Rightarrow> quota_writes" where
  "rename_quota old new writes quota = foldl (\<lambda>q p.
     if pub_name p = old \<and> map_of q (pub_transaction_id p) \<noteq> None then bt_insert (pub_transaction_id p) new q else q) quota writes"

text \<open>A rename of a renamed table changes the target of that rename; a rename back to the source removes it.\<close>

definition rename_chain :: "string \<Rightarrow> string \<Rightarrow> bool \<Rightarrow> (string \<times> string) list \<Rightarrow> (string \<times> string) list" where
  "rename_chain old new in_base renames =
     (let changed = list_ex (\<lambda>(_, target). target = old) renames;
          retargeted = map (\<lambda>(source, target). (source, if target = old then new else target)) renames;
          extended = (if \<not> changed \<and> in_base then bt_insert old new retargeted else retargeted) in
      filter (\<lambda>(source, target). source \<noteq> target) extended)"

definition stage_rename ::
  "string \<Rightarrow> string \<Rightarrow> quota_writes \<Rightarrow> 's tx_workspace \<times> 's provider catalog
   \<Rightarrow> quota_writes \<times> ('s tx_workspace \<times> 's provider catalog) \<times> (db_error, unit) result" where
  "stage_rename raw_old raw_new quota = (\<lambda>(ws, c).
     let old = to_ascii_lowercase raw_old; new = to_ascii_lowercase raw_new in
     if old = new then (quota, (ws, c), Inl InvalidArgument)
     else if schema_of new \<notin> set (tw_working_schemas ws) then (quota, (ws, c), Inl Catalog)
     else
     let ws1 = expect_schema (schema_of new) ws in
     case map_of (tw_working ws1) old of
       None \<Rightarrow> (quota, (ws1, c), Inl Catalog)
     | Some snapshot \<Rightarrow>
     if map_of (tw_working ws1) new \<noteq> None \<or> map_of (tw_working_views ws1) new \<noteq> None then (quota, (ws1, c), Inl Catalog)
     else
     let ws2 = expect_view new (expect_table new (expect_table old ws1)) in
     (rename_quota old new (tw_writes ws2) quota,
      (ws2\<lparr>tw_writes := rename_writes old new (tw_writes ws2),
           tw_renames := rename_chain old new (map_of (tw_base_tables ws2) old \<noteq> None) (tw_renames ws2),
           tw_drops := removeAll new (tw_drops ws2),
           tw_working := bt_insert new snapshot (bt_remove old (tw_working ws2))\<rparr>,
       catalog_register \<lparr>te_name = new, te_provider = NativeSegmentTable snapshot\<rparr> (hide_persistent old c)), Inr ()))"

text \<open>The changes that a commit takes out of the workspace.\<close>

definition workspace_changes :: "'s tx_workspace \<Rightarrow> 's transaction_changes" where
  "workspace_changes ws =
     \<lparr>ch_snapshot_generation = tw_snapshot_generation ws, ch_expected_schemas = tw_expected_schemas ws,
      ch_schema_updates = tw_schema_updates ws, ch_expected = tw_expected ws, ch_writes = tw_writes ws,
      ch_drops = tw_drops ws, ch_renames = tw_renames ws, ch_expected_views = tw_expected_views ws,
      ch_view_updates = tw_view_updates ws\<rparr>"

definition workspace_clear :: "'s tx_workspace \<Rightarrow> 's tx_workspace" where
  "workspace_clear ws = ws\<lparr>tw_expected_schemas := [], tw_schema_updates := [], tw_expected := [], tw_writes := [],
     tw_drops := [], tw_renames := [], tw_expected_views := [], tw_view_updates := []\<rparr>"

definition has_changes :: "'s tx_workspace \<Rightarrow> bool" where
  "has_changes ws \<longleftrightarrow> tw_writes ws \<noteq> [] \<or> tw_drops ws \<noteq> [] \<or> tw_renames ws \<noteq> [] \<or> tw_view_updates ws \<noteq> []
     \<or> tw_schema_updates ws \<noteq> []"

end
