(* ===== verification/Workspace_Correct.thy ===== *)
theory Workspace_Correct
  imports Transaction_Workspace
begin

text \<open>
  What a transaction stages is what it shows and what it commits: an invariant over the staging
  operations relates the working tables of a workspace to the drops, writes and renames it hands to
  the commit, as long as no rename reuses a name in one of the ways listed below.
\<close>

section \<open>Renames as a relation\<close>

lemma renamed_entry_in:
  assumes "distinct (map snd R)" and "(old, n) \<in> set R"
  shows "renamed_entry R m n = m old"
proof -
  have "map fst (map prod.swap R) = map snd R" by simp
  then have "distinct (map fst (map prod.swap R))" using assms(1) by metis
  then have "map_of (map prod.swap R) n = Some old"
    by (rule map_of_is_SomeI) (use assms(2) in \<open>force simp: image_iff\<close>)
  then show ?thesis by (simp add: renamed_entry_def)
qed

lemma renamed_entry_out:
  assumes "n \<notin> snd ` set R"
  shows "renamed_entry R m n = (if n \<in> fst ` set R then None else m n)"
proof -
  have "map_of (map prod.swap R) n = None" using assms by (force simp: map_of_eq_None_iff)
  then show ?thesis by (simp add: renamed_entry_def)
qed

lemma set_bt_insert_new: "k \<notin> fst ` set m \<Longrightarrow> set (bt_insert k v m) = insert (k, v) (set m)"
  by (induction k v m rule: bt_insert.induct) auto

abbreviation retarget :: "string \<Rightarrow> string \<Rightarrow> (string \<times> string) list \<Rightarrow> (string \<times> string) list" where
  "retarget old new R \<equiv> map (\<lambda>(source, target). (source, if target = old then new else target)) R"

lemma set_retarget: "(a, b) \<in> set (retarget old new R) \<longleftrightarrow> (a, b) \<in> set R \<and> b \<noteq> old \<or> b = new \<and> (a, old) \<in> set R"
  by (induction R) (auto split: if_splits)

lemma retarget_keys: "map fst (retarget old new R) = map fst R"
  by (induction R) auto

lemma bt_ok_retarget: "bt_ok R \<Longrightarrow> bt_ok (retarget old new R)"
  unfolding bt_ok_def retarget_keys .

lemma distinct_snd: "distinct (map snd R) \<Longrightarrow> (a, b) \<in> set R \<Longrightarrow> (a', b) \<in> set R \<Longrightarrow> a = a'"
  by (induction R) force+

lemma bt_ok_filter_pairs: "bt_ok m \<Longrightarrow> bt_ok (filter P m)"
  by (induction m) (auto simp: bt_ok_def)

text \<open>The condition under which a rename is recorded faithfully: the new name is not the target of
  another rename, and a table of the base with the old name has been renamed exactly when the old name
  is itself a target.\<close>

definition rename_recorded :: "string \<Rightarrow> string \<Rightarrow> bool \<Rightarrow> (string \<times> string) list \<Rightarrow> bool" where
  "rename_recorded old new in_base R \<longleftrightarrow> new \<notin> snd ` set R
     \<and> (in_base \<longrightarrow> (old \<in> snd ` set R \<longleftrightarrow> old \<in> fst ` set R))"

lemma rename_chain_set:
  assumes "rename_recorded old new in_base R" and "old \<noteq> new"
  shows "(a, b) \<in> set (rename_chain old new in_base R) \<longleftrightarrow> a \<noteq> b
    \<and> ((a, b) \<in> set R \<and> b \<noteq> old \<or> b = new \<and> (a, old) \<in> set R
       \<or> (a, b) = (old, new) \<and> old \<notin> snd ` set R \<and> in_base)"
proof -
  have ex: "list_ex (\<lambda>(_, target). target = old) R \<longleftrightarrow> old \<in> snd ` set R" by (force simp: list_ex_iff)
  have keys: "fst ` set (retarget old new R) = fst ` set R"
    by (metis retarget_keys set_map)
  have fresh: "old \<notin> fst ` set (retarget old new R)" if "old \<notin> snd ` set R" in_base
    using assms(1) that unfolding keys by (simp add: rename_recorded_def)
  show ?thesis
  proof (cases "old \<notin> snd ` set R \<and> in_base")
    case True
    then show ?thesis
      using fresh by (auto simp: rename_chain_def Let_def ex set_bt_insert_new set_retarget simp del: set_map)
  next
    case False
    then show ?thesis by (auto simp: rename_chain_def Let_def ex set_retarget simp del: set_map)
  qed
qed

lemma rename_chain_ok:
  assumes "rename_recorded old new in_base R" and "bt_ok R" and "renames_apply R base" and "old \<noteq> new"
    and "in_base \<longleftrightarrow> base old \<noteq> None"
  shows "bt_ok (rename_chain old new in_base R) \<and> renames_apply (rename_chain old new in_base R) base"
proof -
  let ?R = "rename_chain old new in_base R"
  have bt: "bt_ok ?R" by (simp add: rename_chain_def Let_def bt_ok_filter_pairs bt_ok_retarget assms(2))
  have inj: "a = a'" if "(a, b) \<in> set R" "(a', b) \<in> set R" for a a' b
    using that assms(3) distinct_snd unfolding renames_apply_def by metis
  have "inj_on snd (set ?R)"
  proof (rule inj_onI, clarify)
    fix a b a' b'
    assume *: "(a, b) \<in> set ?R" "(a', b') \<in> set ?R" "snd (a, b) = snd (a', b')"
    have "new \<notin> snd ` set R" using assms(1) by (simp add: rename_recorded_def)
    then show "a = a' \<and> b = b'"
      using * inj [of a b a'] inj [of a old a'] unfolding rename_chain_set [OF assms(1,4)] by (force simp: rev_image_eqI)
  qed
  moreover have "distinct ?R" using bt_ok_distinct [OF bt] distinct_map by blast
  moreover have "base a \<noteq> None" if "(a, b) \<in> set ?R" for a b
    using that assms(3,5) unfolding rename_chain_set [OF assms(1,4)] renames_apply_def by (auto simp: rev_image_eqI)
  ultimately show ?thesis using bt by (auto simp: renames_apply_def distinct_map)
qed

lemma renamed_entry_cong:
  assumes "distinct (map snd R)" and "distinct (map snd R')" and "\<And>a. (a, n) \<in> set R' \<longleftrightarrow> (a, n) \<in> set R"
    and "n \<in> fst ` set R' \<longleftrightarrow> n \<in> fst ` set R"
  shows "renamed_entry R' m n = renamed_entry R m n"
proof (cases "n \<in> snd ` set R")
  case True
  then obtain a where "(a, n) \<in> set R" by auto
  then show ?thesis using assms renamed_entry_in by metis
next
  case False
  then have "n \<notin> snd ` set R'" using assms(3) by force
  then show ?thesis using False assms(4) by (simp add: renamed_entry_out)
qed

lemma rename_chain_entry:
  assumes rec: "rename_recorded old new in_base R" and bt: "bt_ok R" and ap: "renames_apply R base" and ne: "old \<noteq> new"
    and B: "in_base \<longleftrightarrow> base old \<noteq> None"
    and ns: "\<And>a. (a, a) \<notin> set R"
  shows "renamed_entry (rename_chain old new in_base R) base n =
    (if n = old then None
     else if n = new \<and> (old \<in> snd ` set R \<or> in_base) then renamed_entry R base old
     else renamed_entry R base n)"
proof -
  let ?R = "rename_chain old new in_base R"
  note S = rename_chain_set [OF rec ne]
  have D: "distinct (map snd R)" "distinct (map snd ?R)"
    using ap rename_chain_ok [OF rec bt ap ne B] by (auto simp: renames_apply_def)
  have new: "new \<notin> snd ` set R" using rec by (simp add: rename_recorded_def)
  have fst: "b = b'" if "(a, b) \<in> set R" "(a, b') \<in> set R" for a b b'
    using eq_key_imp_eq_value [OF bt_ok_distinct [OF bt]] that by metis
  consider "n = old" | (chained) x where "n = new" "(x, old) \<in> set R" | (recorded) "n = new" "old \<notin> snd ` set R" in_base
    | (other) "n \<noteq> old" "\<not> (n = new \<and> (old \<in> snd ` set R \<or> in_base))"
    by force
  then show ?thesis
  proof cases
    case 1
    have "old \<notin> snd ` set ?R" using ne S by force
    moreover have "old \<in> fst ` set ?R" if in_base
    proof (cases "old \<in> snd ` set R")
      case True
      then obtain b where "(old, b) \<in> set R" using rec \<open>in_base\<close> by (auto simp: rename_recorded_def)
      moreover have "b \<noteq> old" using ns calculation by auto
      ultimately have "(old, b) \<in> set ?R" using S by auto
      then show ?thesis by force
    next
      case False
      then have "(old, new) \<in> set ?R" using S ne that by auto
      then show ?thesis by force
    qed
    ultimately show ?thesis using 1 B by (auto simp: renamed_entry_out)
  next
    case (chained x)
    have snd: "old \<in> snd ` set R" using chained(2) by force
    have old: "renamed_entry R base old = base x" by (rule renamed_entry_in [OF D(1) chained(2)])
    show ?thesis
    proof (cases "x = new")
      case False
      then have "(x, new) \<in> set ?R" using S chained(2) by auto
      then show ?thesis using renamed_entry_in [OF D(2)] chained(1) old snd ne by simp
    next
      case True
      have only: "a = new" if "(a, old) \<in> set R" for a
        using distinct_snd [OF D(1)] that chained(2) True by metis
      have "(a, new) \<notin> set ?R" for a using S [of a new] new only [of a] snd by (force simp: rev_image_eqI)
      then have "new \<notin> snd ` set ?R" by auto
      moreover have "(new, b) \<notin> set ?R" for b using S [of new b] fst [of new old b] chained(2) True ne by auto
      then have "new \<notin> fst ` set ?R" by auto
      ultimately show ?thesis using chained(1) old snd ne True by (simp add: renamed_entry_out)
    qed
  next
    case recorded
    have "(old, new) \<in> set ?R" using S ne recorded by auto
    moreover have "old \<notin> fst ` set R" using rec recorded by (auto simp: rename_recorded_def)
    ultimately show ?thesis using renamed_entry_in [OF D(2)] recorded ne by (simp add: renamed_entry_out)
  next
    case other
    have "(a, n) \<in> set ?R \<longleftrightarrow> (a, n) \<in> set R" for a
      using S [of a n] other ns by force
    moreover have "n \<in> fst ` set ?R \<longleftrightarrow> n \<in> fst ` set R"
    proof
      assume "n \<in> fst ` set R"
      then obtain b where b: "(n, b) \<in> set R" by auto
      then have "(n, b) \<in> set ?R \<or> (n, new) \<in> set ?R" using S [of n b] S [of n new] ns other by (cases "b = old") force+
      then show "n \<in> fst ` set ?R" by force
    next
      assume "n \<in> fst ` set ?R"
      then obtain b where "(n, b) \<in> set ?R" by auto
      then have "(n, b) \<in> set R \<or> (n, old) \<in> set R" using S [of n b] other(1) by auto
      then show "n \<in> fst ` set R" by force
    qed
    ultimately have "renamed_entry ?R base n = renamed_entry R base n" by (intro renamed_entry_cong D) auto
    then show ?thesis using other by auto
  qed
qed

section \<open>The invariant\<close>

text \<open>The tables a commit of the workspace leaves when the database has not changed.\<close>

definition staged_entry :: "'s tx_workspace \<Rightarrow> string \<rightharpoonup> 's table_snapshot" where
  "staged_entry ws = committed_entry (tw_drops ws) (tw_writes ws) id (renamed_entry (tw_renames ws) (map_of (tw_base_tables ws)))"

definition touched :: "'s tx_workspace \<Rightarrow> string set" where
  "touched ws = set (tw_drops ws) \<union> pub_name ` set (tw_writes ws) \<union> fst ` set (tw_renames ws) \<union> snd ` set (tw_renames ws)"

definition tables_ok :: "'s tx_workspace \<Rightarrow> bool" where
  "tables_ok ws \<longleftrightarrow> bt_ok (tw_base_tables ws) \<and> bt_ok (tw_working ws) \<and> bt_ok (tw_expected ws) \<and> bt_ok (tw_renames ws)
     \<and> renames_apply (tw_renames ws) (map_of (tw_base_tables ws)) \<and> (\<forall>a. (a, a) \<notin> set (tw_renames ws))
     \<and> map_of (tw_working ws) = staged_entry ws
     \<and> (\<forall>n b. map_of (tw_expected ws) n = Some b \<longrightarrow> b = map_of (tw_base_tables ws) n)
     \<and> (\<forall>n. map_of (tw_expected ws) n = None \<longrightarrow> n \<notin> touched ws)"

text \<open>A partial map of updates over a base.\<close>

definition overlay :: "('k \<rightharpoonup> 'v) \<Rightarrow> ('k \<Rightarrow> 'v) \<Rightarrow> 'k \<Rightarrow> 'v" where
  "overlay updates base k = (case updates k of Some v \<Rightarrow> v | None \<Rightarrow> base k)"

lemma overlay_simps [simp]:
  "overlay (\<lambda>_. None) base = base"
  "overlay (updates(k \<mapsto> v)) base = (overlay updates base)(k := v)"
  "overlay (updates(k := None)) base = (overlay updates base)(k := base k)"
  by (auto simp: overlay_def)

definition views_ok :: "'s tx_workspace \<Rightarrow> bool" where
  "views_ok ws \<longleftrightarrow> bt_ok (tw_base_views ws) \<and> bt_ok (tw_working_views ws) \<and> bt_ok (tw_expected_views ws) \<and> bt_ok (tw_view_updates ws)
     \<and> map_of (tw_working_views ws) = overlay (map_of (tw_view_updates ws)) (map_of (tw_base_views ws))
     \<and> (\<forall>n b. map_of (tw_expected_views ws) n = Some b \<longrightarrow> b = map_of (tw_base_views ws) n)
     \<and> (\<forall>n. map_of (tw_expected_views ws) n = None \<longrightarrow> map_of (tw_view_updates ws) n = None)"

definition schemas_ok :: "'s tx_workspace \<Rightarrow> bool" where
  "schemas_ok ws \<longleftrightarrow> bt_ok (tw_expected_schemas ws) \<and> bt_ok (tw_schema_updates ws)
     \<and> (\<forall>n. n \<in> set (tw_working_schemas ws) \<longleftrightarrow> overlay (map_of (tw_schema_updates ws)) (\<lambda>n. n \<in> set (tw_base_schemas ws)) n)
     \<and> (\<forall>n b. map_of (tw_expected_schemas ws) n = Some b \<longrightarrow> b = (n \<in> set (tw_base_schemas ws)))
     \<and> (\<forall>n. map_of (tw_expected_schemas ws) n = None \<longrightarrow> map_of (tw_schema_updates ws) n = None)"

lemma workspace_new_ok:
  assumes "bt_ok tables" and "bt_ok views"
  shows "tables_ok (workspace_new t g schemas tables views) \<and> views_ok (workspace_new t g schemas tables views)
    \<and> schemas_ok (workspace_new t g schemas tables views)"
  using assms by (auto simp: workspace_new_def tables_ok_def views_ok_def schemas_ok_def staged_entry_def touched_def
      renames_apply_def renamed_entry_def committed_entry_def last_write_def)

lemma bt_ok_or_insert [simp]: "bt_ok m \<Longrightarrow> bt_ok (or_insert k v m)"
  by (simp add: or_insert_def)

lemma map_of_or_insert: "bt_ok m \<Longrightarrow> map_of (or_insert k v m) n = (if n = k \<and> map_of m k = None then Some v else map_of m n)"
  by (auto simp: or_insert_def map_of_bt_insert)

text \<open>Recording an expectation keeps each part of the invariant, and covers the name.\<close>

lemma expect_table_ok: "tables_ok ws \<Longrightarrow> tables_ok (expect_table n ws) \<and> map_of (tw_expected (expect_table n ws)) n \<noteq> None"
  by (auto simp: tables_ok_def expect_table_def map_of_or_insert staged_entry_def touched_def split: if_splits)

lemma expect_view_ok: "views_ok ws \<Longrightarrow> views_ok (expect_view n ws) \<and> map_of (tw_expected_views (expect_view n ws)) n \<noteq> None"
  by (auto simp: views_ok_def expect_view_def map_of_or_insert split: if_splits)

lemma expect_schema_ok: "schemas_ok ws \<Longrightarrow> schemas_ok (expect_schema n ws) \<and> map_of (tw_expected_schemas (expect_schema n ws)) n \<noteq> None"
  by (auto simp: schemas_ok_def expect_schema_def map_of_or_insert split: if_splits)

lemma expect_other [simp]:
  "tables_ok (expect_view n ws) = tables_ok ws" "tables_ok (expect_schema n ws) = tables_ok ws"
  "views_ok (expect_table n ws) = views_ok ws" "views_ok (expect_schema n ws) = views_ok ws"
  "schemas_ok (expect_table n ws) = schemas_ok ws" "schemas_ok (expect_view n ws) = schemas_ok ws"
  by (simp_all add: tables_ok_def views_ok_def schemas_ok_def staged_entry_def touched_def expect_view_def expect_schema_def expect_table_def)

section \<open>Staging keeps the invariant\<close>

lemma set_set_insert [simp]: "set (set_insert x xs) = insert x (set xs)"
  by (auto simp: set_insert_def set_insort_key)

lemma tables_other:
  "tables_ok (ws\<lparr>tw_working_views := x1\<rparr>) = tables_ok ws"
  "tables_ok (ws\<lparr>tw_view_updates := x2\<rparr>) = tables_ok ws"
  "tables_ok (ws\<lparr>tw_working_schemas := x3\<rparr>) = tables_ok ws"
  "tables_ok (ws\<lparr>tw_expected_schemas := x4\<rparr>) = tables_ok ws"
  "tables_ok (ws\<lparr>tw_schema_updates := x5\<rparr>) = tables_ok ws"
  by (simp_all add: tables_ok_def staged_entry_def touched_def)

lemma views_other:
  "views_ok (ws\<lparr>tw_working := x6\<rparr>) = views_ok ws"
  "views_ok (ws\<lparr>tw_drops := x7\<rparr>) = views_ok ws"
  "views_ok (ws\<lparr>tw_writes := x8\<rparr>) = views_ok ws"
  "views_ok (ws\<lparr>tw_renames := x9\<rparr>) = views_ok ws"
  "views_ok (ws\<lparr>tw_working_schemas := x10\<rparr>) = views_ok ws"
  "views_ok (ws\<lparr>tw_expected_schemas := x11\<rparr>) = views_ok ws"
  "views_ok (ws\<lparr>tw_schema_updates := x12\<rparr>) = views_ok ws"
  by (simp_all add: views_ok_def)

lemma schemas_other:
  "schemas_ok (ws\<lparr>tw_working := x13\<rparr>) = schemas_ok ws"
  "schemas_ok (ws\<lparr>tw_drops := x14\<rparr>) = schemas_ok ws"
  "schemas_ok (ws\<lparr>tw_writes := x15\<rparr>) = schemas_ok ws"
  "schemas_ok (ws\<lparr>tw_renames := x16\<rparr>) = schemas_ok ws"
  "schemas_ok (ws\<lparr>tw_working_views := x17\<rparr>) = schemas_ok ws"
  "schemas_ok (ws\<lparr>tw_view_updates := x18\<rparr>) = schemas_ok ws"
  by (simp_all add: schemas_ok_def)

definition ws_ok :: "'s tx_workspace \<Rightarrow> bool" where
  "ws_ok ws \<longleftrightarrow> tables_ok ws \<and> views_ok ws \<and> schemas_ok ws"

lemmas other_parts = tables_other views_other schemas_other

lemma stage_schema_create_ok: "ws_ok ws \<Longrightarrow> stage_schema_create raw b ws = (ws', q) \<Longrightarrow> ws_ok ws'"
  by (auto simp: ws_ok_def other_parts stage_schema_create_def Let_def schemas_ok_def map_of_bt_insert map_of_bt_remove split: if_splits)

lemma stage_schema_drop_ok: "ws_ok ws \<Longrightarrow> stage_schema_drop raw b ws = (ws', q) \<Longrightarrow> ws_ok ws'"
  by (auto simp: ws_ok_def other_parts stage_schema_drop_def Let_def schemas_ok_def map_of_bt_insert map_of_bt_remove split: if_splits)

lemma expect_commutes:
  "expect_table n (ws\<lparr>tw_working := w\<rparr>) = (expect_table n ws)\<lparr>tw_working := w\<rparr>"
  "expect_view n (ws\<lparr>tw_working_views := v\<rparr>) = (expect_view n ws)\<lparr>tw_working_views := v\<rparr>"
  by (simp_all add: expect_table_def expect_view_def)

lemma expect_fields [simp]:
  "tw_working (expect_table n ws) = tw_working ws" "tw_working (expect_view n ws) = tw_working ws" "tw_working (expect_schema n ws) = tw_working ws"
  "tw_drops (expect_table n ws) = tw_drops ws" "tw_drops (expect_view n ws) = tw_drops ws" "tw_drops (expect_schema n ws) = tw_drops ws"
  "tw_writes (expect_table n ws) = tw_writes ws" "tw_writes (expect_view n ws) = tw_writes ws" "tw_writes (expect_schema n ws) = tw_writes ws"
  "tw_renames (expect_table n ws) = tw_renames ws" "tw_renames (expect_view n ws) = tw_renames ws" "tw_renames (expect_schema n ws) = tw_renames ws"
  "tw_base_tables (expect_table n ws) = tw_base_tables ws" "tw_base_tables (expect_view n ws) = tw_base_tables ws" "tw_base_tables (expect_schema n ws) = tw_base_tables ws"
  "tw_working_views (expect_table n ws) = tw_working_views ws" "tw_working_views (expect_view n ws) = tw_working_views ws" "tw_working_views (expect_schema n ws) = tw_working_views ws"
  "tw_view_updates (expect_table n ws) = tw_view_updates ws" "tw_view_updates (expect_view n ws) = tw_view_updates ws" "tw_view_updates (expect_schema n ws) = tw_view_updates ws"
  "tw_expected (expect_view n ws) = tw_expected ws" "tw_expected (expect_schema n ws) = tw_expected ws"
  "tw_expected_views (expect_table n ws) = tw_expected_views ws" "tw_expected_views (expect_schema n ws) = tw_expected_views ws"
  by (simp_all add: expect_table_def expect_view_def expect_schema_def)

lemma ws_ok_expect:
  "ws_ok ws \<Longrightarrow> ws_ok (expect_table n ws)" "ws_ok ws \<Longrightarrow> ws_ok (expect_view n ws)" "ws_ok ws \<Longrightarrow> ws_ok (expect_schema n ws)"
  using expect_table_ok [of ws n] expect_view_ok [of ws n] expect_schema_ok [of ws n] by (simp_all add: ws_ok_def)

lemma expected_covers:
  "ws_ok ws \<Longrightarrow> map_of (tw_expected (expect_table n ws)) k = None \<longleftrightarrow> k \<noteq> n \<and> map_of (tw_expected ws) k = None"
  "ws_ok ws \<Longrightarrow> map_of (tw_expected_views (expect_view n ws)) k = None \<longleftrightarrow> k \<noteq> n \<and> map_of (tw_expected_views ws) k = None"
  by (auto simp: ws_ok_def tables_ok_def views_ok_def expect_table_def expect_view_def map_of_or_insert)

text \<open>Changing the tables of an expected name, or its view, keeps the other parts.\<close>

lemma ws_ok_view_update:
  assumes "ws_ok ws" and "map_of (tw_expected_views ws) n \<noteq> None"
  shows "ws_ok (ws\<lparr>tw_working_views := bt_insert n v (tw_working_views ws), tw_view_updates := bt_insert n (Some v) (tw_view_updates ws)\<rparr>)"
    and "ws_ok (ws\<lparr>tw_working_views := bt_remove n (tw_working_views ws), tw_view_updates := bt_insert n None (tw_view_updates ws)\<rparr>)"
  using assms by (auto simp: ws_ok_def other_parts views_ok_def map_of_bt_insert map_of_bt_remove)

lemma stage_view_ok:
  assumes "ws_ok ws" and "stage_view T raw sql schema entry replace (ws, c) = ((ws', c'), q)"
  shows "ws_ok ws'"
proof -
  let ?n = "to_ascii_lowercase raw"
  let ?ws = "expect_table ?n (expect_view ?n (expect_schema (schema_of ?n) ws))"
  have "ws_ok (?ws\<lparr>tw_working_views := bt_insert ?n view (tw_working_views ?ws),
      tw_view_updates := bt_insert ?n (Some view) (tw_view_updates ?ws)\<rparr>)" for view
    by (intro ws_ok_view_update ws_ok_expect assms(1)) (simp add: expected_covers ws_ok_expect assms(1))
  then show ?thesis
    using assms by (auto simp: stage_view_def Let_def ws_ok_expect split: if_splits sum.splits prod.splits)
qed

lemma stage_view_drop_ok:
  assumes "ws_ok ws" and "stage_view_drop raw b (ws, c) = ((ws', c'), q)"
  shows "ws_ok ws'"
proof -
  let ?ws = "expect_view (to_ascii_lowercase raw) ws"
  have "ws_ok (?ws\<lparr>tw_working_views := bt_remove (to_ascii_lowercase raw) (tw_working_views ?ws),
      tw_view_updates := bt_insert (to_ascii_lowercase raw) None (tw_view_updates ?ws)\<rparr>)"
    by (intro ws_ok_view_update ws_ok_expect assms(1)) (simp add: expected_covers assms(1))
  then show ?thesis using assms by (auto simp: stage_view_drop_def Let_def expect_commutes split: if_splits)
qed

lemma workspace_plan_write_ok: "ws_ok ws \<Longrightarrow> workspace_plan_write plan raw ws = (ws', q) \<Longrightarrow> ws_ok ws'"
  by (auto simp: workspace_plan_write_def Let_def ws_ok_expect split: if_splits)

lemma stage_published_ok:
  assumes "ws_ok ws" and run: "stage_published p (ws, c) = (ws', c')"
  shows "ws_ok ws'"
proof -
  let ?n = "pub_name p"
  let ?ws = "expect_view ?n (expect_table ?n ws)"
  have ok: "ws_ok ?ws" by (intro ws_ok_expect assms(1))
  moreover have "map_of (tw_expected ?ws) ?n \<noteq> None" by (simp add: expected_covers assms(1))
  ultimately have "tables_ok (?ws\<lparr>tw_working := bt_insert ?n (pub_snapshot p) (tw_working ?ws), tw_drops := removeAll ?n (tw_drops ?ws),
      tw_writes := tw_writes ?ws @ [p]\<rparr>)"
    by (auto simp: ws_ok_def tables_ok_def staged_entry_def committed_entry_def last_write_snoc map_of_bt_insert
        touched_def fun_eq_iff split: option.splits simp del: expect_fields expect_other)
  then show ?thesis using ok run by (auto simp: stage_published_def Let_def ws_ok_def other_parts)
qed

lemma stage_drop_ok:
  assumes "ws_ok ws" and run: "stage_drop raw b (ws, c) = ((ws', c'), q)"
  shows "ws_ok ws'"
proof -
  let ?n = "to_ascii_lowercase raw"
  let ?ws = "expect_table ?n ws"
  have ok: "ws_ok ?ws" by (intro ws_ok_expect assms(1))
  moreover have "map_of (tw_expected ?ws) ?n \<noteq> None" by (simp add: expected_covers assms(1))
  ultimately have "tables_ok (?ws\<lparr>tw_working := bt_remove ?n (tw_working ?ws), tw_drops := set_insert ?n (tw_drops ?ws)\<rparr>)"
    by (auto simp: ws_ok_def tables_ok_def staged_entry_def committed_entry_def map_of_bt_remove touched_def fun_eq_iff
       simp del: expect_fields expect_other)
  then show ?thesis
    using ok assms by (auto simp: stage_drop_def Let_def expect_commutes ws_ok_def other_parts split: if_splits)
qed

lemma rename_to_simps [simp]: "pub_name (rename_to n p) = n" "pub_snapshot (rename_to n p) = pub_snapshot p"
  by (simp_all add: rename_to_def)

lemma last_write_rename:
  assumes "old \<noteq> new" and "new \<notin> pub_name ` set writes"
  shows "last_write (rename_writes old new writes) n =
    (if n = old then None else if n = new then map_option (rename_to new) (last_write writes old) else last_write writes n)"
  using assms(2)
proof (induction writes rule: rev_induct)
  case Nil
  then show ?case by (simp add: rename_writes_def last_write_def)
next
  case (snoc p writes)
  then show ?case using assms(1) by (auto simp: rename_writes_def last_write_snoc)
qed

lemma rename_staged_entry:
  assumes ok: "tables_ok ws" and ne: "old \<noteq> new" and old: "map_of (tw_working ws) old = Some s"
    and B: "in_base \<longleftrightarrow> map_of (tw_base_tables ws) old \<noteq> None"
    and rec: "rename_recorded old new in_base (tw_renames ws)" and fresh: "new \<notin> pub_name ` set (tw_writes ws)"
  shows "committed_entry (removeAll new (tw_drops ws)) (rename_writes old new (tw_writes ws)) id
      (renamed_entry (rename_chain old new in_base (tw_renames ws)) (map_of (tw_base_tables ws)))
    = (map_of (tw_working ws))(old := None, new \<mapsto> s)"
proof
  fix n
  note T = ok [unfolded tables_ok_def staged_entry_def]
  have entry: "renamed_entry (rename_chain old new in_base (tw_renames ws)) (map_of (tw_base_tables ws)) n =
    (if n = old then None
     else if n = new \<and> (old \<in> snd ` set (tw_renames ws) \<or> in_base) then renamed_entry (tw_renames ws) (map_of (tw_base_tables ws)) old
     else renamed_entry (tw_renames ws) (map_of (tw_base_tables ws)) n)" for n
    using T by (intro rename_chain_entry rec ne B) auto
  have W: "map_of (tw_working ws) k = committed_entry (tw_drops ws) (tw_writes ws) id (renamed_entry (tw_renames ws) (map_of (tw_base_tables ws))) k" for k
    using T by metis
  have "old \<in> snd ` set (tw_renames ws) \<or> in_base" if "last_write (tw_writes ws) old = None"
    using that old B unfolding W by (auto simp: committed_entry_def renamed_entry_out split: if_splits)
  then show "committed_entry (removeAll new (tw_drops ws)) (rename_writes old new (tw_writes ws)) id
      (renamed_entry (rename_chain old new in_base (tw_renames ws)) (map_of (tw_base_tables ws))) n
    = ((map_of (tw_working ws))(old := None, new \<mapsto> s)) n"
    using old ne by (simp add: W committed_entry_def entry last_write_rename [OF ne fresh] split: if_splits option.splits)
qed

lemma rename_touched:
  assumes "rename_recorded old new in_base (tw_renames ws)" and "old \<noteq> new"
  shows "touched (ws\<lparr>tw_writes := rename_writes old new (tw_writes ws), tw_renames := rename_chain old new in_base (tw_renames ws),
           tw_drops := removeAll new (tw_drops ws), tw_working := w\<rparr>) \<subseteq> insert old (insert new (touched ws))"
proof -
  have "fst ` set (rename_chain old new in_base (tw_renames ws)) \<subseteq> insert old (fst ` set (tw_renames ws))"
    "snd ` set (rename_chain old new in_base (tw_renames ws)) \<subseteq> insert new (snd ` set (tw_renames ws))"
    using rename_chain_set [OF assms] by (auto simp: rev_image_eqI)
  then show ?thesis by (auto simp: touched_def rename_writes_def)
qed

lemma rename_chain_no_loop: "(a, a) \<notin> set (rename_chain old new b R)"
  by (auto simp: rename_chain_def Let_def)

text \<open>A rename is faithful when it is recorded and the new name has no write of the transaction.\<close>

definition rename_faithful :: "string \<Rightarrow> string \<Rightarrow> 's tx_workspace \<Rightarrow> bool" where
  "rename_faithful old new ws \<longleftrightarrow> new \<notin> pub_name ` set (tw_writes ws)
     \<and> rename_recorded old new (map_of (tw_base_tables ws) old \<noteq> None) (tw_renames ws)"

lemma rename_tables_ok:
  assumes "tables_ok ws" and "old \<noteq> new" and "map_of (tw_working ws) old = Some s" and "rename_faithful old new ws"
    and "map_of (tw_expected ws) old \<noteq> None" and "map_of (tw_expected ws) new \<noteq> None"
  shows "tables_ok (ws\<lparr>tw_writes := rename_writes old new (tw_writes ws),
           tw_renames := rename_chain old new (map_of (tw_base_tables ws) old \<noteq> None) (tw_renames ws),
           tw_drops := removeAll new (tw_drops ws),
           tw_working := bt_insert new s (bt_remove old (tw_working ws))\<rparr>)"
proof -
  define in_base where "in_base \<longleftrightarrow> map_of (tw_base_tables ws) old \<noteq> None"
  note T = assms(1) [unfolded tables_ok_def]
  have rec: "rename_recorded old new in_base (tw_renames ws)" and fresh: "new \<notin> pub_name ` set (tw_writes ws)"
    using assms(4) by (auto simp: rename_faithful_def in_base_def)
  have chain: "bt_ok (rename_chain old new in_base (tw_renames ws)) \<and> renames_apply (rename_chain old new in_base (tw_renames ws)) (map_of (tw_base_tables ws))"
    using T by (intro rename_chain_ok rec assms(2) in_base_def) auto
  note entry = rename_staged_entry [OF assms(1-3) in_base_def rec fresh]
  have "\<forall>n. map_of (tw_expected ws) n = None \<longrightarrow> n \<notin> touched ws" using T by blast
  then have "n \<notin> insert old (insert new (touched ws))" if "map_of (tw_expected ws) n = None" for n
    using assms(5,6) that by (cases "n = old \<or> n = new") auto
  then have covered: "n \<notin> touched (ws\<lparr>tw_writes := rename_writes old new (tw_writes ws), tw_renames := rename_chain old new in_base (tw_renames ws),
      tw_drops := removeAll new (tw_drops ws), tw_working := w\<rparr>)" if "map_of (tw_expected ws) n = None" for n w
    using rename_touched [OF rec assms(2), of w] that by blast
  show ?thesis
    unfolding in_base_def [symmetric] tables_ok_def staged_entry_def
    using T chain entry covered by (auto simp: rename_chain_no_loop map_of_bt_insert map_of_bt_remove)
qed

lemma stage_rename_cases:
  assumes "stage_rename raw_old raw_new quota (ws, c) = (quota', (ws', c'), q)"
    and "old = to_ascii_lowercase raw_old" and "new = to_ascii_lowercase raw_new"
    and "ws1 = expect_schema (schema_of new) ws" and "ws2 = expect_view new (expect_table new (expect_table old ws1))"
  obtains "ws' = ws" "c' = c" "\<not> is_ok q" | "ws' = ws1" "c' = c" "\<not> is_ok q"
  | s where "map_of (tw_working_views ws) new = None"
    "c' = catalog_register \<lparr>te_name = new, te_provider = NativeSegmentTable s\<rparr> (hide_persistent old c)" "old \<noteq> new" "map_of (tw_working ws) old = Some s" "q = Inr ()"
    "ws' = ws2\<lparr>tw_writes := rename_writes old new (tw_writes ws2),
           tw_renames := rename_chain old new (map_of (tw_base_tables ws2) old \<noteq> None) (tw_renames ws2),
           tw_drops := removeAll new (tw_drops ws2), tw_working := bt_insert new s (bt_remove old (tw_working ws2))\<rparr>"
proof (cases "old = new \<or> schema_of new \<notin> set (tw_working_schemas ws)")
  case True
  then show ?thesis using assms that(1) by (auto simp: stage_rename_def Let_def split: if_splits)
next
  case False
  have W: "tw_working ws1 = tw_working ws" "tw_working_views ws1 = tw_working_views ws" by (simp_all add: assms(4))
  show ?thesis
  proof (cases "map_of (tw_working ws1) old")
    case None
    then have "ws' = ws1 \<and> c' = c \<and> q = Inl Catalog"
      using assms(1) False unfolding stage_rename_def Let_def prod.case assms(2-5) [symmetric] by simp
    then show ?thesis using that(2) by simp
  next
    case (Some s)
    note run = assms(1) [unfolded stage_rename_def Let_def prod.case assms(2-5) [symmetric], unfolded Some option.case]
    show ?thesis
    proof (cases "map_of (tw_working ws1) new \<noteq> None \<or> map_of (tw_working_views ws1) new \<noteq> None")
      case True
      then have "ws' = ws1 \<and> c' = c \<and> q = Inl Catalog" using run False by (simp split: if_splits)
      then show ?thesis using that(2) by simp
    next
      case no: False
      show ?thesis
        by (rule that(3) [of s]) (use no False Some W run in \<open>simp_all split: if_splits\<close>)
    qed
  qed
qed

lemma stage_rename_ok:
  assumes ok: "ws_ok ws" and run: "stage_rename raw_old raw_new quota (ws, c) = (quota', (ws', c'), q)"
    and faithful: "rename_faithful (to_ascii_lowercase raw_old) (to_ascii_lowercase raw_new) ws"
  shows "ws_ok ws'"
proof -
  define old new where on: "old = to_ascii_lowercase raw_old" "new = to_ascii_lowercase raw_new"
  define ws1 where ws1: "ws1 = expect_schema (schema_of new) ws"
  define ws2 where ws2: "ws2 = expect_view new (expect_table new (expect_table old ws1))"
  have ok2: "ws_ok ws1" "ws_ok ws2" unfolding ws1 ws2 by (intro ws_ok_expect ok)+
  have "rename_faithful old new ws2" using faithful on by (simp add: rename_faithful_def ws1 ws2)
  moreover have "map_of (tw_expected ws2) old \<noteq> None" "map_of (tw_expected ws2) new \<noteq> None"
    unfolding ws1 ws2 by (simp_all add: expected_covers ws_ok_expect ok)
  moreover have "tw_working ws2 = tw_working ws" by (simp add: ws1 ws2)
  ultimately have "ws_ok (ws2\<lparr>tw_writes := rename_writes old new (tw_writes ws2),
           tw_renames := rename_chain old new (map_of (tw_base_tables ws2) old \<noteq> None) (tw_renames ws2),
           tw_drops := removeAll new (tw_drops ws2), tw_working := bt_insert new s (bt_remove old (tw_working ws2))\<rparr>)"
    if "old \<noteq> new" "map_of (tw_working ws) old = Some s" for s
    using ok2(2) that rename_tables_ok [of ws2 old new s] unfolding ws_ok_def other_parts by metis
  note renamed = this
  show ?thesis
    by (rule stage_rename_cases [OF run on ws1 ws2]) (simp_all add: ok ok2(1) renamed del: expect_fields not_None_eq)
qed

section \<open>What a commit of the workspace leaves\<close>

lemma find_map_None: "find_map f xs = None \<longleftrightarrow> (\<forall>x \<in> set xs. f x = None)"
proof (induction xs)
  case Nil
  then show ?case by (simp add: find_map_def List.map_filter_def)
next
  case (Cons x xs)
  then show ?case by (cases "f x") (simp_all add: find_map_def List.map_filter_def split: list.splits)
qed

definition rebase_keeps_name ::
  "(string \<Rightarrow> 's table_snapshot \<Rightarrow> 's table_snapshot \<Rightarrow> 's table_snapshot \<Rightarrow> (db_error, 's published option) result) \<Rightarrow> bool" where
  "rebase_keeps_name rebase \<longleftrightarrow> (\<forall>n b cur s p. rebase n b cur s = Inr (Some p) \<longrightarrow> pub_name p = n)"

definition rebased_write ::
  "(string \<Rightarrow> 's table_snapshot \<Rightarrow> 's table_snapshot \<Rightarrow> 's table_snapshot \<Rightarrow> (db_error, 's published option) result)
   \<Rightarrow> string \<Rightarrow> 's table_snapshot option \<Rightarrow> 's table_snapshot option \<Rightarrow> 's published option \<Rightarrow> 's published \<Rightarrow> bool" where
  "rebased_write rebase n base current final p \<longleftrightarrow> (case (base, current, final) of
       (Some b, Some cur, Some w) \<Rightarrow> rebase n b cur (pub_snapshot w) = Inr (Some p)
     | _ \<Rightarrow> False)"

lemma final_write_eq: "final_write n drops renames writes = (if n \<in> set drops \<or> map_of renames n \<noteq> None then None else last_write writes n)"
  by (simp add: final_write_def last_write_def)

text \<open>When the expectations on tables hold, the last write of a name changes only by its own rebase.\<close>

definition write_checked where
  "write_checked rebase tables drops renames expected writes writes' n \<longleftrightarrow> (case map_of expected n of
      None \<Rightarrow> last_write writes' n = last_write writes n
    | Some base \<Rightarrow> if same_table base (map_of tables n) then last_write writes' n = last_write writes n
        else \<exists>p. last_write writes' n = Some p
          \<and> rebased_write rebase n base (map_of tables n) (final_write n drops renames writes) p)"

lemma write_checked_cong:
  "last_write writes1 n = last_write writes2 n \<Longrightarrow>
    write_checked rebase tables drops renames expected writes1 writes' n = write_checked rebase tables drops renames expected writes2 writes' n"
  by (simp add: write_checked_def final_write_eq split: option.split)

lemma table_conflicts_passed:
  assumes "table_conflicts rebase tables drops renames expected c = (c', None)" and "cf_conflict c' = None"
    and "distinct (map fst expected)" and names: "rebase_keeps_name rebase"
  shows "cf_conflict c = None \<and> (\<forall>n. write_checked rebase tables drops renames expected (cf_writes c) (cf_writes c') n)"
  using assms(1-3)
proof (induction expected arbitrary: c)
  case (Cons e expected)
  obtain name base where e: "e = (name, base)" by (cases e)
  have d: "distinct (map fst expected)" "name \<notin> fst ` set expected" using Cons.prems(3) by (auto simp: e)
  have fresh: "map_of expected name = None" using d(2) by (simp add: map_of_eq_None_iff)
  have other: "write_checked rebase tables drops renames (e # expected) (cf_writes c) (cf_writes c') n"
    if "write_checked rebase tables drops renames expected (cf_writes c) (cf_writes c') n" "n \<noteq> name" for n
    using that by (simp add: write_checked_def e)
  show ?case
  proof (cases "same_table base (map_of tables name)")
    case True
    then have "table_conflicts rebase tables drops renames expected c = (c', None)" using Cons.prems(1) by (simp add: e)
    note IH = Cons.IH [OF this Cons.prems(2) d(1)]
    then have "write_checked rebase tables drops renames expected (cf_writes c) (cf_writes c') name" by blast
    then have "write_checked rebase tables drops renames (e # expected) (cf_writes c) (cf_writes c') name"
      using True fresh by (simp add: write_checked_def e)
    then show ?thesis using IH other by metis
  next
    case False
    then obtain p where p: "rebased_write rebase name base (map_of tables name) (final_write name drops renames (cf_writes c)) p"
      and rest: "table_conflicts rebase tables drops renames expected (c\<lparr>cf_writes := cf_writes c @ [p], cf_rebased := True\<rparr>) = (c', None)"
      using Cons.prems(1,2) by (auto simp: e Let_def rebased_write_def split: sum.splits option.splits)
    have name: "pub_name p = name" using p names by (auto simp: rebased_write_def rebase_keeps_name_def split: option.splits)
    from Cons.IH [OF rest Cons.prems(2) d(1)]
    have IH: "cf_conflict c = None" "write_checked rebase tables drops renames expected (cf_writes c @ [p]) (cf_writes c') n" for n
      by simp_all
    have "write_checked rebase tables drops renames (e # expected) (cf_writes c) (cf_writes c') name"
      using IH(2) [of name] False p fresh name by (simp add: write_checked_def e last_write_snoc)
    moreover have "write_checked rebase tables drops renames expected (cf_writes c) (cf_writes c') n" if "n \<noteq> name" for n
      using IH(2) [of n] write_checked_cong [of "cf_writes c @ [p]" n "cf_writes c"] that name by (simp add: last_write_snoc)
    ultimately show ?thesis using IH(1) other by metis
  qed
qed (auto simp: write_checked_def)

text \<open>The entry of a name after the commit: untouched names keep the entry of the database, a name whose
  table did not change gets the table of the workspace, and another the rebase of its last write.\<close>

definition committed_table ::
  "'s tx_env \<Rightarrow> 's tx_workspace \<Rightarrow> (string \<rightharpoonup> 's table_snapshot) \<Rightarrow> string \<Rightarrow> table_reference option \<Rightarrow> bool" where
  "committed_table X ws current n entry \<longleftrightarrow> (case map_of (tw_expected ws) n of
       None \<Rightarrow> entry = map_option snapshot_reference (current n)
     | Some base \<Rightarrow>
         if same_table base (current n) then entry = map_option snapshot_reference (map_of (tw_working ws) n)
         else (\<exists>p. entry = Some (snapshot_reference (pub_snapshot p)) \<and> pub_name p = n
           \<and> (\<exists>b cur s. base = Some b \<and> current n = Some cur \<and> map_of (tw_working ws) n = Some s
                \<and> tx_rebase X n b cur s = Inr (Some p))))"

lemma same_table_reference: "same_table base current \<Longrightarrow> map_option snapshot_reference current = map_option snapshot_reference base"
  by (auto simp: same_table_def split: option.splits)

lemma workspace_tables_committed:
  assumes ok: "tables_ok ws" and names: "rebase_keeps_name (tx_rebase X)"
    and check: "check_transaction_changes X (workspace_changes ws) st = (writes, Inr ())"
  shows "renames_apply (tw_renames ws) (map_of (nst_tables st))
    \<and> committed_table X ws (map_of (nst_tables st)) n (map_option snapshot_reference
        (committed_entry (tw_drops ws) writes id (renamed_entry (tw_renames ws) (map_of (nst_tables st))) n))"
proof -
  let ?cur = "map_of (nst_tables st)" and ?base = "map_of (tw_base_tables ws)" and ?R = "tw_renames ws"
  note T = ok [unfolded tables_ok_def]
  define c0 :: "'a conflict_state" where "c0 = \<lparr>cf_writes = tw_writes ws, cf_rebased = False,
    cf_conflict = schema_conflict (tw_expected_schemas ws) (cs_schemas (nst_catalog st))\<rparr>"
  have c0w: "cf_writes c0 = tw_writes ws" by (simp add: c0_def)
  obtain c where c: "table_conflicts (tx_rebase X) (nst_tables st) (tw_drops ws) ?R (tw_expected ws) c0 = (c, None)"
    "cf_conflict c = None" "writes = cf_writes c"
    using check unfolding check_transaction_changes_def
    by (auto simp: workspace_changes_def c0_def or_else_def split: prod.splits option.splits if_splits)
  have "distinct (map fst (tw_expected ws))" using T bt_ok_distinct by blast
  note passed = table_conflicts_passed [OF c(1,2) this names]
  have last: "write_checked (tx_rebase X) (nst_tables st) (tw_drops ws) ?R (tw_expected ws) (tw_writes ws) writes k" for k
    using spec [OF conjunct2 [OF passed], of k] unfolding c(3) [symmetric] c0w .
  have source: "same_table (?base old) (?cur old)" if "(old, new) \<in> set ?R" for old new
  proof -
    have "old \<in> touched ws" using that by (force simp: touched_def)
    then obtain b where b: "map_of (tw_expected ws) old = Some b" using T by (metis not_None_eq)
    moreover have "b = ?base old" using b T by blast
    moreover have "map_of ?R old \<noteq> None" using weak_map_of_SomeI [OF that] by auto
    ultimately show ?thesis using last [of old] by (auto simp: write_checked_def rebased_write_def final_write_eq split: option.splits if_splits)
  qed
  have applies: "renames_apply ?R ?cur"
    using T source by (fastforce simp: renames_apply_def same_table_def split: option.splits)
  have moved: "map_option snapshot_reference (renamed_entry ?R ?cur n) = map_option snapshot_reference (renamed_entry ?R ?base n)"
    if "same_table (?base n) (?cur n)"
  proof (cases "n \<in> snd ` set ?R")
    case True
    then obtain old where "(old, n) \<in> set ?R" by auto
    moreover have "distinct (map snd ?R)" using T by (simp add: renames_apply_def)
    ultimately show ?thesis using same_table_reference [OF source] by (simp add: renamed_entry_in)
  next
    case False
    then show ?thesis using same_table_reference [OF that] by (simp add: renamed_entry_out)
  qed
  have working: "map_of (tw_working ws) n = committed_entry (tw_drops ws) (tw_writes ws) id (renamed_entry ?R ?base) n"
    using T by (simp add: staged_entry_def)
  have "committed_table X ws ?cur n (map_option snapshot_reference (committed_entry (tw_drops ws) writes id (renamed_entry ?R ?cur) n))"
  proof (cases "map_of (tw_expected ws) n")
    case None
    then have out: "n \<notin> touched ws" using T by blast
    then have "last_write writes n = None" using last [of n] None by (auto simp: write_checked_def touched_def last_write_def find_None_iff)
    then show ?thesis using None out by (auto simp: committed_table_def committed_entry_def touched_def renamed_entry_out)
  next
    case (Some base)
    then have base: "base = ?base n" using T by blast
    show ?thesis
    proof (cases "same_table base (?cur n)")
      case True
      then show ?thesis using Some last [of n] moved
        by (auto simp: write_checked_def base committed_table_def working committed_entry_def split: option.splits)
    next
      case False
      then obtain p where p: "last_write writes n = Some p"
        "rebased_write (tx_rebase X) n base (?cur n) (final_write n (tw_drops ws) ?R (tw_writes ws)) p"
        using last [of n] Some by (auto simp: write_checked_def)
      then have "pub_name p = n" using names by (auto simp: rebased_write_def rebase_keeps_name_def split: option.splits)
      then show ?thesis using Some False p
        by (auto simp: committed_table_def working committed_entry_def rebased_write_def final_write_eq split: option.splits if_splits)
    qed
  qed
  then show ?thesis using applies by blast
qed

lemma apply_view_updates_entry:
  assumes "bt_ok views" and "distinct (map fst updates)"
  shows "map_of (apply_view_updates updates views) n = overlay (map_of updates) (map_of views) n"
  using assms
proof (induction updates arbitrary: views)
  case (Cons u updates)
  obtain name update where u: "u = (name, update)" by (cases u)
  let ?views = "case update of Some view \<Rightarrow> bt_insert name view views | None \<Rightarrow> bt_remove name views"
  have "bt_ok ?views" using Cons.prems by (simp split: option.split)
  moreover have "map_of ?views = (map_of views)(name := update)"
    using Cons.prems by (auto simp: map_of_bt_insert map_of_bt_remove split: option.split)
  moreover have "map_of updates name = None" using Cons.prems by (simp add: u map_of_eq_None_iff)
  ultimately show ?case using Cons.IH [of ?views] Cons.prems by (auto simp: u apply_view_updates_def overlay_def)
qed (simp add: apply_view_updates_def overlay_def)

lemma planned_schemas_member:
  assumes "distinct (map fst updates)"
  shows "n \<in> set (planned_schemas updates schemas) \<longleftrightarrow> overlay (map_of updates) (\<lambda>n. n \<in> set schemas) n"
  using assms
proof (induction updates arbitrary: schemas)
  case (Cons u updates)
  obtain name create where u: "u = (name, create)" by (cases u)
  have "map_of updates name = None" using Cons.prems by (simp add: u map_of_eq_None_iff)
  then show ?case using Cons.IH Cons.prems by (auto simp: u planned_schemas_def overlay_def split: option.splits)
qed (simp add: planned_schemas_def overlay_def)

text \<open>Views and schemas have no rebase: an expected name is as the workspace shows it, another as in the database.\<close>

lemma workspace_views_committed:
  assumes ok: "views_ok ws" and st: "mirrors st"
    and check: "check_transaction_changes X (workspace_changes ws) st = (writes, Inr ())"
  shows "map_option nv_reference (map_of (apply_view_updates (tw_view_updates ws) (nst_views st)) n) =
    map_option nv_reference (case map_of (tw_expected_views ws) n of
      None \<Rightarrow> map_of (nst_views st) n | Some _ \<Rightarrow> map_of (tw_working_views ws) n)"
proof -
  note V = ok [unfolded views_ok_def]
  have d: "distinct (map fst (tw_view_updates ws))" "bt_ok (nst_views st)"
    using V bt_ok_distinct st by (auto simp: mirrors_def)
  have "view_conflict (tw_expected_views ws) (nst_views st) = None"
    using check unfolding check_transaction_changes_def
    by (auto simp: workspace_changes_def or_else_def split: prod.splits option.splits if_splits)
  then have same: "same_view e (map_of (nst_views st) k)" if "map_of (tw_expected_views ws) k = Some e" for k e
    using map_of_SomeD [OF that] by (fastforce simp: view_conflict_def find_map_None split: if_splits)
  show ?thesis
  proof (cases "map_of (tw_expected_views ws) n")
    case None
    then show ?thesis using V by (simp add: apply_view_updates_entry d overlay_def)
  next
    case (Some e)
    then have "map_option nv_reference (map_of (nst_views st) n) = map_option nv_reference (map_of (tw_base_views ws) n)"
      using same [OF Some] V by (auto simp: same_view_def split: option.splits)
    then show ?thesis using Some V by (auto simp: apply_view_updates_entry d overlay_def split: option.split)
  qed
qed

lemma workspace_schemas_committed:
  assumes ok: "schemas_ok ws" and names: "rebase_keeps_name (tx_rebase X)" and tables: "tables_ok ws"
    and check: "check_transaction_changes X (workspace_changes ws) st = (writes, Inr ())"
  shows "n \<in> set (planned_schemas (tw_schema_updates ws) (cs_schemas (nst_catalog st))) \<longleftrightarrow>
    (case map_of (tw_expected_schemas ws) n of
      None \<Rightarrow> n \<in> set (cs_schemas (nst_catalog st)) | Some _ \<Rightarrow> n \<in> set (tw_working_schemas ws))"
proof -
  note S = ok [unfolded schemas_ok_def]
  have d: "distinct (map fst (tw_schema_updates ws))" "distinct (map fst (tw_expected ws))"
    using S tables bt_ok_distinct by (auto simp: tables_ok_def)
  obtain c c' where "table_conflicts (tx_rebase X) (nst_tables st) (tw_drops ws) (tw_renames ws) (tw_expected ws) c = (c', None)"
    "cf_conflict c' = None" "cf_conflict c = schema_conflict (tw_expected_schemas ws) (cs_schemas (nst_catalog st))"
    using check unfolding check_transaction_changes_def
    by (auto simp: workspace_changes_def or_else_def split: prod.splits option.splits if_splits)
  then have "schema_conflict (tw_expected_schemas ws) (cs_schemas (nst_catalog st)) = None"
    using table_conflicts_passed [OF _ _ d(2) names] by metis
  then have "e \<longleftrightarrow> k \<in> set (cs_schemas (nst_catalog st))" if "map_of (tw_expected_schemas ws) k = Some e" for k e
    using map_of_SomeD [OF that] by (fastforce simp: schema_conflict_def find_map_None split: if_splits)
  then show ?thesis
    using S by (auto simp: planned_schemas_member d overlay_def split: option.split)
qed

end
