(* ===== verification/Workspace_Session.thy ===== *)
theory Workspace_Session
  imports Workspace_Correct
begin

text \<open>
  The statements of a transaction as a step relation over its workspace and its session catalog: the
  invariant holds of every reachable workspace, and the session shows the working tables and views.
\<close>

section \<open>Reachable workspaces\<close>

text \<open>The statements of a transaction, whatever their result.  Writes are staged for a name that was
  planned: normalized and not a view.  With \<open>guarded\<close> set, renames are faithful.\<close>

inductive stages ::
  "bool \<Rightarrow> 's table_env \<Rightarrow> 's tx_workspace \<times> 's provider catalog \<Rightarrow> 's tx_workspace \<times> 's provider catalog \<Rightarrow> bool"
  for guarded T where
  schema_create: "stage_schema_create raw b ws = (ws', q) \<Longrightarrow> stages guarded T (ws, c) (ws', c)"
| schema_drop: "stage_schema_drop raw b ws = (ws', q) \<Longrightarrow> stages guarded T (ws, c) (ws', c)"
| view: "stage_view T raw sql schema \<lparr>te_name = raw, te_provider = ViewTable raw sql\<rparr> replace (ws, c) = ((ws', c'), q)
    \<Longrightarrow> stages guarded T (ws, c) (ws', c')"
| view_drop: "stage_view_drop raw b (ws, c) = ((ws', c'), q) \<Longrightarrow> stages guarded T (ws, c) (ws', c')"
| plan: "workspace_plan_write plan raw ws = (ws', q :: (db_error, unit) result) \<Longrightarrow> stages guarded T (ws, c) (ws', c)"
| publish: "to_ascii_lowercase (pub_name p) = pub_name p \<Longrightarrow> map_of (tw_working_views ws) (pub_name p) = None
    \<Longrightarrow> stage_published p (ws, c) = (ws', c') \<Longrightarrow> stages guarded T (ws, c) (ws', c')"
| drop: "stage_drop raw b (ws, c) = ((ws', c'), q) \<Longrightarrow> stages guarded T (ws, c) (ws', c')"
| rename: "stage_rename raw_old raw_new quota (ws, c) = (quota', (ws', c'), q)
    \<Longrightarrow> guarded \<longrightarrow> rename_faithful (to_ascii_lowercase raw_old) (to_ascii_lowercase raw_new) ws
    \<Longrightarrow> stages guarded T (ws, c) (ws', c')"

lemma stages_ok: "stages True T s s' \<Longrightarrow> ws_ok (fst s) \<Longrightarrow> ws_ok (fst s')"
  by (induction rule: stages.induct)
    (auto dest: stage_schema_create_ok stage_schema_drop_ok stage_view_ok stage_view_drop_ok workspace_plan_write_ok
      stage_published_ok stage_drop_ok stage_rename_ok)

lemma staged_ok: "(stages True T)\<^sup>*\<^sup>* s s' \<Longrightarrow> ws_ok (fst s) \<Longrightarrow> ws_ok (fst s')"
  by (induction rule: rtranclp_induct) (auto dest: stages_ok)

text \<open>What a statement of the transaction finds under a name.\<close>

fun shown :: "'s tx_workspace \<Rightarrow> string \<Rightarrow> 's provider option \<Rightarrow> bool" where
  "shown ws n None \<longleftrightarrow> map_of (tw_working ws) n = None \<and> map_of (tw_working_views ws) n = None"
| "shown ws n (Some (NativeSegmentTable s)) \<longleftrightarrow> map_of (tw_working ws) n = Some s \<and> map_of (tw_working_views ws) n = None"
| "shown ws n (Some (ViewTable _ sql)) \<longleftrightarrow>
     map_of (tw_working ws) n = None \<and> map_option nv_sql (map_of (tw_working_views ws) n) = Some sql"
| "shown ws n _ \<longleftrightarrow> False"

lemma shown_disjoint: "shown ws n e \<Longrightarrow> map_of (tw_working ws) n = None \<or> map_of (tw_working_views ws) n = None"
  by (cases "(ws, n, e)" rule: shown.cases) auto

lemma shown_cong:
  "map_of (tw_working ws') n = map_of (tw_working ws) n \<Longrightarrow> map_of (tw_working_views ws') n = map_of (tw_working_views ws) n
    \<Longrightarrow> shown ws' n e = shown ws n e"
  by (cases "(ws, n, e)" rule: shown.cases) auto

definition session_shows :: "'s provider persistent \<Rightarrow> 's tx_workspace \<times> 's provider catalog \<Rightarrow> bool" where
  "session_shows p s \<longleftrightarrow> (case s of (ws, c) \<Rightarrow> catalog_ok_local c \<and> bt_ok (tw_working ws) \<and> bt_ok (tw_working_views ws)
     \<and> (\<forall>n. to_ascii_lowercase n = n \<longrightarrow> shown ws n (map_option te_provider (catalog_table p n c))))"

text \<open>A step that changes one name and shows it, and one that only changes what is recorded.\<close>

lemma session_shows_same:
  "session_shows p (ws, c) \<Longrightarrow> tw_working ws' = tw_working ws \<Longrightarrow> tw_working_views ws' = tw_working_views ws \<Longrightarrow> session_shows p (ws', c)"
  by (auto simp: session_shows_def intro: iffD2 [OF shown_cong])

lemma session_shows_parts:
  assumes "session_shows p (ws, c)"
  shows "catalog_ok_local c \<and> bt_ok (tw_working ws) \<and> bt_ok (tw_working_views ws)
    \<and> (to_ascii_lowercase n = n \<longrightarrow> map_of (tw_working ws) n = None \<or> map_of (tw_working_views ws) n = None)"
  using assms by (auto simp: session_shows_def dest!: spec [of _ n] dest: shown_disjoint)

lemma session_shows_update:
  assumes "session_shows p (ws, c)" and "catalog_ok_local c'" and "bt_ok (tw_working ws')" and "bt_ok (tw_working_views ws')"
    and "\<And>k. k \<noteq> n \<Longrightarrow> map_of (tw_working ws') k = map_of (tw_working ws) k"
    and "\<And>k. k \<noteq> n \<Longrightarrow> map_of (tw_working_views ws') k = map_of (tw_working_views ws) k"
    and "\<And>k. to_ascii_lowercase k = k \<Longrightarrow> catalog_table p k c' = (if k = n then e else catalog_table p k c)"
    and "shown ws' n (map_option te_provider e)"
  shows "session_shows p (ws', c')"
proof -
  have "shown ws' k (map_option te_provider (catalog_table p k c'))" if k: "to_ascii_lowercase k = k" for k
  proof (cases "k = n")
    case True
    then show ?thesis using assms(7) [OF k] assms(8) by simp
  next
    case False
    then show ?thesis
      using assms(1) assms(7) [OF k] shown_cong [OF assms(5,6) [OF False]] k by (simp add: session_shows_def)
  qed
  then show ?thesis using assms(2-4) by (simp add: session_shows_def)
qed

lemma register_shows:
  assumes "session_shows p (ws, c)" and "to_ascii_lowercase n = n" and "map_of (tw_working_views ws) n = None"
    and "tw_working ws' = bt_insert n s (tw_working ws)" and "tw_working_views ws' = tw_working_views ws"
  shows "session_shows p (ws', catalog_register \<lparr>te_name = n, te_provider = NativeSegmentTable s\<rparr> c)"
  by (rule session_shows_update [OF assms(1), where n = n and e = "Some \<lparr>te_name = n, te_provider = NativeSegmentTable s\<rparr>"])
    (use assms in \<open>auto simp: session_shows_def catalog_ok_register catalog_table_register map_of_bt_insert\<close>)

lemma hide_shows:
  assumes "session_shows p (ws, c)" and "to_ascii_lowercase n = n"
    and "bt_ok (tw_working ws')" and "bt_ok (tw_working_views ws')"
    and "map_of (tw_working ws') = (map_of (tw_working ws))(n := None)"
    and "map_of (tw_working_views ws') = (map_of (tw_working_views ws))(n := None)"
  shows "session_shows p (ws', hide_persistent n c)"
  by (rule session_shows_update [OF assms(1), where n = n and e = None])
    (use assms in \<open>auto simp: session_shows_def catalog_ok_hide catalog_table_hide\<close>)

lemma register_view_Inl: "register_view entry sql replace c = (c', Inl e) \<Longrightarrow> c' = c"
  by (auto simp: register_view_def Let_def split: if_splits)

lemma native_view_new_sql: "native_view_new T version sql schema = Inr view \<Longrightarrow> nv_sql view = sql"
  by (auto simp: native_view_new_def split: if_splits)

lemma stage_view_cases:
  assumes run: "stage_view T raw sql schema entry replace (ws, c) = ((ws', c'), q)"
    and n: "n = to_ascii_lowercase raw" and ws1: "ws1 = expect_schema (schema_of n) ws" and ws2: "ws2 = expect_table n (expect_view n ws1)"
  obtains "ws' = ws" "c' = c" | "ws' = ws1" "c' = c"
    | view where "map_of (tw_working ws) n = None" "nv_sql view = sql" "register_view entry sql True c = (c', Inr ())"
      "ws' = ws2\<lparr>tw_working_views := bt_insert n view (tw_working_views ws2), tw_view_updates := bt_insert n (Some view) (tw_view_updates ws2)\<rparr>"
proof -
  define version where "version = (case map_of (tw_working_views ws) n of
    Some view \<Rightarrow> ok_or (checked_add (nv_version view) 1) ResourceExhausted | None \<Rightarrow> Inr 1)"
  note R = run [unfolded stage_view_def prod.case Let_def n [symmetric] ws1 [symmetric] ws2 [symmetric] version_def [symmetric]]
  show ?thesis
  proof (cases "schema_of n \<notin> set (tw_working_schemas ws)")
    case True
    then show ?thesis using R that(1) by simp
  next
    case schema: False
    show ?thesis
    proof (cases "map_of (tw_working ws) n \<noteq> None \<or> map_of (tw_working_views ws) n \<noteq> None \<and> \<not> replace")
      case True
      then show ?thesis using R that(2) schema by (simp split: if_splits)
    next
      case new: False
      then have R2: "(case version of Inl e \<Rightarrow> ((ws1, c), Inl e)
          | Inr version \<Rightarrow> (case native_view_new T version sql schema of Inl e \<Rightarrow> ((ws1, c), Inl e)
          | Inr view \<Rightarrow> (case register_view entry sql True c of (c', Inl e) \<Rightarrow> ((ws1, c'), Inl e)
          | (c', Inr _) \<Rightarrow> ((ws2\<lparr>tw_working_views := bt_insert n view (tw_working_views ws2),
             tw_view_updates := bt_insert n (Some view) (tw_view_updates ws2)\<rparr>, c'), Inr ())))) = ((ws', c'), q)"
        using R schema by (simp split: if_splits)
      show ?thesis
      proof (cases "\<exists>v view c1. version = Inr v \<and> native_view_new T v sql schema = Inr view \<and> register_view entry sql True c = (c1, Inr ())")
        case True
        then obtain v view c1 where V: "version = Inr v" "native_view_new T v sql schema = Inr view" "register_view entry sql True c = (c1, Inr ())" by blast
        then have "c1 = c'" "ws' = ws2\<lparr>tw_working_views := bt_insert n view (tw_working_views ws2), tw_view_updates := bt_insert n (Some view) (tw_view_updates ws2)\<rparr>"
          using R2 by simp_all
        then show ?thesis by (intro that(3) [of view]) (use V new native_view_new_sql [OF V(2)] in auto)
      next
        case False
        then have "ws' = ws1 \<and> c' = c" using R2 register_view_Inl by (auto split: sum.splits prod.splits)
        then show ?thesis using that(2) by blast
      qed
    qed
  qed
qed

lemma stage_view_shows:
  assumes sh: "session_shows p (ws, c)"
    and run: "stage_view T raw sql schema \<lparr>te_name = raw, te_provider = ViewTable raw sql\<rparr> replace (ws, c) = ((ws', c'), q)"
  shows "session_shows p (ws', c')"
proof -
  let ?e = "\<lparr>te_name = raw, te_provider = ViewTable raw sql\<rparr>"
  define n where n: "n = to_ascii_lowercase raw"
  define ws1 where ws1: "ws1 = expect_schema (schema_of n) ws"
  define ws2 where ws2: "ws2 = expect_table n (expect_view n ws1)"
  have ok: "catalog_ok_local c" "bt_ok (tw_working ws)" "bt_ok (tw_working_views ws)" using session_shows_parts [OF sh] by auto
  show ?thesis
  proof (rule stage_view_cases [OF run n ws1 ws2])
    assume "ws' = ws1" "c' = c"
    moreover have "session_shows p (ws1, c)" by (rule session_shows_same [OF sh]) (simp_all add: ws1)
    ultimately show ?thesis by simp
  next
    fix view
    assume v: "map_of (tw_working ws) n = None" "nv_sql view = sql" "register_view ?e sql True c = (c', Inr ())"
      "ws' = ws2\<lparr>tw_working_views := bt_insert n view (tw_working_views ws2), tw_view_updates := bt_insert n (Some view) (tw_view_updates ws2)\<rparr>"
    have w: "tw_working ws' = tw_working ws" "tw_working_views ws' = bt_insert n view (tw_working_views ws)" by (simp_all add: v ws1 ws2)
    show ?thesis
      by (rule session_shows_update [OF sh, where n = n and e = "Some ?e"])
        (use v(1,2) ok catalog_ok_register_view [OF ok(1) v(3)] catalog_table_register_view [OF ok(1) v(3)]
         in \<open>simp_all add: w map_of_bt_insert n\<close>)
  qed (use sh in simp)
qed

lemma stages_shows:
  assumes "stages guarded T s s'" and "session_shows p s"
  shows "session_shows p s'"
  using assms
proof (induction rule: stages.induct)
  case (schema_create raw b ws ws' q c)
  then show ?case by (auto intro!: session_shows_same [of p ws c] simp: stage_schema_create_def Let_def split: if_splits)
next
  case (schema_drop raw b ws ws' q c)
  then show ?case by (auto intro!: session_shows_same [of p ws c] simp: stage_schema_drop_def Let_def split: if_splits)
next
  case (view raw sql schema replace ws c ws' c' q)
  then show ?case by (metis stage_view_shows)
next
  case (view_drop raw b ws c ws' c' q)
  let ?n = "to_ascii_lowercase raw"
  show ?case
  proof (cases "map_of (tw_working_views ws) ?n")
    case None
    then show ?thesis using view_drop by (auto simp: stage_view_drop_def Let_def split: if_splits)
  next
    case (Some v)
    then have c': "c' = hide_persistent ?n c" and ws': "tw_working ws' = tw_working ws" "tw_working_views ws' = bt_remove ?n (tw_working_views ws)"
      using view_drop(1) by (auto simp: stage_view_drop_def Let_def)
    show ?thesis unfolding c'
      by (rule hide_shows [OF view_drop(2)])
        (use ws' Some session_shows_parts [OF view_drop(2), of ?n] in \<open>auto simp: map_of_bt_remove fun_upd_idem\<close>)
  qed
next
  case (plan plan raw ws ws' q c)
  then show ?case by (auto intro!: session_shows_same [of p ws c] simp: workspace_plan_write_def Let_def split: if_splits)
next
  case (publish pub ws c ws' c')
  then show ?case by (auto simp: stage_published_def Let_def intro!: register_shows [OF publish(4)])
next
  case (drop raw b ws c ws' c' q)
  let ?n = "to_ascii_lowercase raw"
  show ?case
  proof (cases "map_of (tw_working ws) ?n")
    case None
    then show ?thesis using drop by (auto simp: stage_drop_def Let_def split: if_splits)
  next
    case (Some v)
    then have c': "c' = hide_persistent ?n c" and ws': "tw_working ws' = bt_remove ?n (tw_working ws)" "tw_working_views ws' = tw_working_views ws"
      using drop(1) by (auto simp: stage_drop_def Let_def)
    show ?thesis unfolding c'
      by (rule hide_shows [OF drop(2)])
        (use ws' Some session_shows_parts [OF drop(2), of ?n] in \<open>auto simp: map_of_bt_remove fun_upd_idem\<close>)
  qed
next
  case (rename raw_old raw_new quota ws c quota' ws' c' q)
  define old new where on: "old = to_ascii_lowercase raw_old" "new = to_ascii_lowercase raw_new"
  define ws1 where ws1: "ws1 = expect_schema (schema_of new) ws"
  define ws2 where ws2: "ws2 = expect_view new (expect_table new (expect_table old ws1))"
  show ?case
  proof (rule stage_rename_cases [OF rename(1) on ws1 ws2])
    fix s
    assume new: "map_of (tw_working_views ws) new = None" "old \<noteq> new"
      and c': "c' = catalog_register \<lparr>te_name = new, te_provider = NativeSegmentTable s\<rparr> (hide_persistent old c)"
      and old: "map_of (tw_working ws) old = Some s"
      and ws': "ws' = ws2\<lparr>tw_writes := rename_writes old new (tw_writes ws2),
           tw_renames := rename_chain old new (map_of (tw_base_tables ws2) old \<noteq> None) (tw_renames ws2),
           tw_drops := removeAll new (tw_drops ws2), tw_working := bt_insert new s (bt_remove old (tw_working ws2))\<rparr>"
    have "map_of (tw_working_views ws) old = None"
      using session_shows_parts [OF rename(3), of old] old on by simp
    then have "session_shows p (ws2\<lparr>tw_working := bt_remove old (tw_working ws2)\<rparr>, hide_persistent old c)"
      using session_shows_parts [OF rename(3)]
      by (intro hide_shows [OF rename(3)]) (simp_all add: on ws1 ws2 map_of_bt_remove fun_upd_idem)
    then show "session_shows p (ws', c')"
      unfolding c' by (rule register_shows) (use new in \<open>auto simp: on ws' ws1 ws2\<close>)
  next
    assume "ws' = ws1" "c' = c"
    moreover have "session_shows p (ws1, c)" by (rule session_shows_same [OF rename(3)]) (simp_all add: ws1)
    ultimately show "session_shows p (ws', c')" by simp
  qed (use rename(3) in simp)
qed

lemma staged_shows: "(stages guarded T)\<^sup>*\<^sup>* s s' \<Longrightarrow> session_shows p s \<Longrightarrow> session_shows p s'"
  by (induction rule: rtranclp_induct) (auto intro: stages_shows)

end
