(* ===== verification/Snapshot_Lifetime.thy ===== *)
theory Snapshot_Lifetime
  imports Transaction_Correct
begin

text \<open>
  How long the directories of a snapshot live (\<open>storage/native/mod.rs\<close>, \<open>storage/native/commit.rs\<close>):
  commits retire the locations that the new snapshot no longer reaches, and the vacuum removes a retired
  location once no one holds its lease.  Readers hold snapshots; the theorems say when a directory that
  a reader reaches is safe from the vacuum.
\<close>

section \<open>Vacuum\<close>

text \<open>A snapshot directory holds a marker that names its owner.  The disk maps each directory, given by the table
  and the location, to what reading its marker returns; a directory that does not exist is not in the map.\<close>

record snapshot_marker =
  mk_database_id :: string
  mk_table_id :: string
  mk_version :: nat
  mk_snapshot_id :: string

definition marker_of :: "'s table_snapshot \<Rightarrow> snapshot_marker" where
  "marker_of s = \<lparr>mk_database_id = ts_database_id s, mk_table_id = ts_table_id s, mk_version = ts_version s,
     mk_snapshot_id = ts_snapshot_id s\<rparr>"

type_synonym directory = "string \<times> snapshot_location"
type_synonym snapshot_disk = "directory \<rightharpoonup> (db_error, snapshot_marker) result"

datatype snapshot_removal = Removed | RemovedButUnsynced db_error

text \<open>Removing a directory can fail and leave anything of it; the sync of its parent can fail.\<close>

datatype removal_fault = No_Removal_Fault | Remove_Fails "(db_error, snapshot_marker) result option" | Sync_Fails

type_synonym removal_faults = "string \<Rightarrow> snapshot_location \<Rightarrow> removal_fault"

definition remove_snapshot ::
  "removal_fault \<Rightarrow> string \<Rightarrow> string \<Rightarrow> snapshot_location \<Rightarrow> snapshot_disk
   \<Rightarrow> snapshot_disk \<times> (db_error, snapshot_removal) result" where
  "remove_snapshot fault database_id table_id location disk =
     (let directory = (table_id, location) in
      case disk directory of
        None \<Rightarrow> (disk, Inl Io)
      | Some (Inl e) \<Rightarrow> (disk, Inl e)
      | Some (Inr marker) \<Rightarrow>
          if mk_database_id marker \<noteq> database_id \<or> mk_table_id marker \<noteq> table_id
            \<or> mk_version marker \<noteq> fst location \<or> mk_snapshot_id marker \<noteq> snd location
          then (disk, Inl NativeStorage)
          else case fault of
            Remove_Fails left \<Rightarrow> (disk(directory := left), Inl Io)
          | Sync_Fails \<Rightarrow> (disk(directory := None), Inr (RemovedButUnsynced Io))
          | No_Removal_Fault \<Rightarrow> (disk(directory := None), Inr Removed))"

text \<open>\<open>live\<close> tells whether the weak lease of an entry can be upgraded.  A failed removal keeps the entry.\<close>

fun vacuum_loop ::
  "(lease \<Rightarrow> bool) \<Rightarrow> removal_faults \<Rightarrow> string \<Rightarrow> string option \<Rightarrow> retired_snapshot list \<Rightarrow> nat \<Rightarrow> db_error option
   \<Rightarrow> snapshot_disk \<Rightarrow> retired_snapshot list \<times> nat \<times> db_error option \<times> snapshot_disk" where
  "vacuum_loop live faults database_id name [] removed failure disk = ([], removed, failure, disk)"
| "vacuum_loop live faults database_id name (r # rs) removed failure disk =
     (if (case name of Some n \<Rightarrow> rs_name r \<noteq> n | None \<Rightarrow> False) \<or> live (rs_lease r)
      then case vacuum_loop live faults database_id name rs removed failure disk of (kept, out) \<Rightarrow> (r # kept, out)
      else case remove_snapshot (faults (rs_table_id r) (rs_location r)) database_id (rs_table_id r) (rs_location r) disk of
        (disk', Inr Removed) \<Rightarrow> vacuum_loop live faults database_id name rs (saturating_add removed 1) failure disk'
      | (disk', Inr (RemovedButUnsynced e)) \<Rightarrow>
          vacuum_loop live faults database_id name rs (saturating_add removed 1) (Some e) disk'
      | (disk', Inl e) \<Rightarrow>
          (case vacuum_loop live faults database_id name rs removed (Some e) disk' of (kept, out) \<Rightarrow> (r # kept, out)))"

definition vacuum ::
  "(lease \<Rightarrow> bool) \<Rightarrow> removal_faults \<Rightarrow> string \<Rightarrow> string option \<Rightarrow> 's native_state \<times> snapshot_disk
   \<Rightarrow> ('s native_state \<times> snapshot_disk) \<times> (db_error, nat) result" where
  "vacuum live faults database_id table_name = (\<lambda>(st, disk).
     let name = map_option to_ascii_lowercase table_name in
     if (case name of Some n \<Rightarrow> map_of (nst_tables st) n = None \<and> \<not> list_ex (\<lambda>r. rs_name r = n) (nst_retired st) | None \<Rightarrow> False)
     then ((st, disk), Inl Catalog)
     else case vacuum_loop live faults database_id name (nst_retired st) 0 None disk of
       (kept, removed, failure, disk') \<Rightarrow>
         ((st\<lparr>nst_retired := kept\<rparr>, disk'), case failure of Some e \<Rightarrow> Inl e | None \<Rightarrow> Inr removed))"

definition drain_retired ::
  "(lease \<Rightarrow> bool) \<Rightarrow> removal_faults \<Rightarrow> string \<Rightarrow> 's native_state \<times> snapshot_disk
   \<Rightarrow> ('s native_state \<times> snapshot_disk) \<times> (db_error, unit) result" where
  "drain_retired live faults database_id s = (case vacuum live faults database_id None s of (s', r) \<Rightarrow> (s', map_sum id (\<lambda>_. ()) r))"

section \<open>The installation of a single write\<close>

text \<open>The loaded snapshot takes over the leases of the table it replaces; what it no longer reaches is retired.\<close>

definition commit_install ::
  "lease \<Rightarrow> string \<Rightarrow> 's table_snapshot \<Rightarrow> catalog_state \<Rightarrow> 's native_state \<Rightarrow> (db_error, 's native_state \<times> lease) result" where
  "commit_install fresh name loaded committed st =
     (let (loaded', fresh') = (case map_of (nst_tables st) name of
            Some old \<Rightarrow> inherit_location_leases fresh loaded old | None \<Rightarrow> (loaded, fresh)) in
      bindr (install_snapshot name loaded' (st\<lparr>nst_catalog := committed\<rparr>)) (\<lambda>st'. Inr (st', fresh')))"

section \<open>Readers\<close>

record 's lifetime =
  lf_state :: "'s native_state"
  lf_readers :: "'s table_snapshot list"
  lf_database_id :: string
  lf_disk :: snapshot_disk
  lf_fresh :: lease

definition held :: "'s lifetime \<Rightarrow> 's table_snapshot set" where
  "held L = snd ` set (nst_tables (lf_state L)) \<union> set (lf_readers L)"

definition lease_live :: "'s lifetime \<Rightarrow> lease \<Rightarrow> bool" where
  "lease_live L x \<longleftrightarrow> (\<exists>s \<in> held L. x \<in> snd ` set (ts_location_leases s))"

text \<open>The directories a reader can open.\<close>

definition on_disk :: "snapshot_disk \<Rightarrow> directory set" where
  "on_disk disk = {d. \<exists>marker. disk d = Some (Inr marker)}"

definition own_directory :: "'s table_snapshot \<Rightarrow> directory" where
  "own_directory s = (ts_table_id s, own_location s)"

definition directories :: "'s table_snapshot \<Rightarrow> directory set" where
  "directories s = Pair (ts_table_id s) ` reached s"

text \<open>What a writer hands over: a snapshot in a directory that was never used, which otherwise only
  reaches directories of the table it replaces.\<close>

definition new_version :: "'s lifetime \<Rightarrow> string \<Rightarrow> 's table_snapshot \<Rightarrow> bool" where
  "new_version L name s \<longleftrightarrow> lf_disk L (own_directory s) = None
     \<and> (\<forall>r \<in> set (nst_retired (lf_state L)). (rs_table_id r, rs_location r) \<noteq> own_directory s)
     \<and> (case map_of (nst_tables (lf_state L)) name of
          Some old \<Rightarrow> ts_table_id s = ts_table_id old \<and> reached s \<subseteq> insert (own_location s) (reached old)
        | None \<Rightarrow> reached s = {own_location s})"

text \<open>Steps of an open database: reading, releasing, single writes, drops and vacuums; with
  \<open>transactional\<close> set, also the installation of a write by a transaction, which keeps the leases that
  loading the snapshot gave it.\<close>

inductive lifetime_step :: "bool \<Rightarrow> 's lifetime \<Rightarrow> 's lifetime \<Rightarrow> bool" for transactional where
  read: "map_of (nst_tables (lf_state L)) name = Some s \<Longrightarrow>
    lifetime_step transactional L (L\<lparr>lf_readers := s # lf_readers L\<rparr>)"
| release: "lifetime_step transactional L (L\<lparr>lf_readers := remove1 s (lf_readers L)\<rparr>)"
| single: "new_version L name s \<Longrightarrow> initialize_location_leases (lf_fresh L) s = (loaded, fresh) \<Longrightarrow>
    commit_install fresh name loaded committed (lf_state L) = Inr (st, fresh') \<Longrightarrow>
    lifetime_step transactional L (L\<lparr>lf_state := st, lf_fresh := fresh', lf_disk := (lf_disk L)(own_directory s \<mapsto> Inr (marker_of s))\<rparr>)"
| drop: "retire_dropped_snapshot name (lf_state L) = Inr st \<Longrightarrow> lifetime_step transactional L (L\<lparr>lf_state := st\<rparr>)"
| vacuum: "vacuum (lease_live L) faults (lf_database_id L) name (lf_state L, lf_disk L) = ((st, disk), q) \<Longrightarrow>
    lifetime_step transactional L (L\<lparr>lf_state := st, lf_disk := disk\<rparr>)"
| transaction: "transactional \<Longrightarrow> new_version L name s \<Longrightarrow> initialize_location_leases (lf_fresh L) s = (loaded, fresh) \<Longrightarrow>
    install_snapshot name loaded (lf_state L) = Inr st \<Longrightarrow>
    lifetime_step transactional L (L\<lparr>lf_state := st, lf_fresh := fresh, lf_disk := (lf_disk L)(own_directory s \<mapsto> Inr (marker_of s))\<rparr>)"

section \<open>Safety\<close>

text \<open>Snapshots that are held agree on the lease of a directory, and so does its retired entry.\<close>

definition leases_agree ::
  "'s table_snapshot set \<Rightarrow> retired_snapshot set \<Rightarrow> directory set \<Rightarrow> bool" where
  "leases_agree H R D \<longleftrightarrow> (\<forall>s \<in> H. leased s \<and> directories s \<subseteq> D)
     \<and> (\<forall>s \<in> H. \<forall>t \<in> H. \<forall>l \<in> reached s \<inter> reached t.
          ts_table_id s = ts_table_id t \<longrightarrow> location_lease s l = location_lease t l)
     \<and> (\<forall>r \<in> R. \<forall>s \<in> H. rs_table_id r = ts_table_id s \<longrightarrow> rs_location r \<in> reached s \<longrightarrow>
          location_lease s (rs_location r) = Some (rs_lease r))"

definition lifetime_ok :: "'s lifetime \<Rightarrow> bool" where
  "lifetime_ok L \<longleftrightarrow> bt_ok (nst_tables (lf_state L)) \<and> leases_agree (held L) (set (nst_retired (lf_state L))) (on_disk (lf_disk L))"

lemma on_disk_written [simp]: "on_disk (disk(d \<mapsto> Inr m)) = insert d (on_disk disk)"
  by (auto simp: on_disk_def)

lemma agree_mono: "leases_agree H R D \<Longrightarrow> H' \<subseteq> H \<Longrightarrow> R' \<subseteq> R \<Longrightarrow> leases_agree H' R' D"
  unfolding leases_agree_def by (meson subsetD)

lemma agree_same:
  "leases_agree H R D \<Longrightarrow> s \<in> H \<Longrightarrow> t \<in> H \<Longrightarrow> ts_table_id s = ts_table_id t \<Longrightarrow> l \<in> reached s \<Longrightarrow> l \<in> reached t
    \<Longrightarrow> location_lease s l = location_lease t l"
  unfolding leases_agree_def by blast

lemma agree_retired:
  "leases_agree H R D \<Longrightarrow> r \<in> R \<Longrightarrow> s \<in> H \<Longrightarrow> rs_table_id r = ts_table_id s \<Longrightarrow> rs_location r \<in> reached s
    \<Longrightarrow> location_lease s (rs_location r) = Some (rs_lease r)"
  unfolding leases_agree_def by blast

lemma agree_held:
  "leases_agree H R D \<Longrightarrow> s \<in> H \<Longrightarrow> leased s"
  "leases_agree H R D \<Longrightarrow> s \<in> H \<Longrightarrow> l \<in> reached s \<Longrightarrow> (ts_table_id s, l) \<in> D"
  unfolding leases_agree_def directories_def by blast+

lemma leases_agreeI:
  assumes "\<And>s. s \<in> H \<Longrightarrow> leased s" and "\<And>s l. s \<in> H \<Longrightarrow> l \<in> reached s \<Longrightarrow> (ts_table_id s, l) \<in> D"
    and "\<And>s t l. s \<in> H \<Longrightarrow> t \<in> H \<Longrightarrow> ts_table_id s = ts_table_id t \<Longrightarrow> l \<in> reached s \<Longrightarrow> l \<in> reached t
      \<Longrightarrow> location_lease s l = location_lease t l"
    and "\<And>r s. r \<in> R \<Longrightarrow> s \<in> H \<Longrightarrow> rs_table_id r = ts_table_id s \<Longrightarrow> rs_location r \<in> reached s
      \<Longrightarrow> location_lease s (rs_location r) = Some (rs_lease r)"
  shows "leases_agree H R D"
  unfolding leases_agree_def directories_def using assms by blast

lemma agree_disk:
  "leases_agree H R D \<Longrightarrow> (\<And>s l. s \<in> H \<Longrightarrow> l \<in> reached s \<Longrightarrow> (ts_table_id s, l) \<in> D') \<Longrightarrow> leases_agree H R D'"
  unfolding leases_agree_def directories_def by blast

lemma retire_locations_spec:
  "retire_locations name old bytes ls = Inr rs \<Longrightarrow> r \<in> set rs \<Longrightarrow>
    rs_table_id r = ts_table_id old \<and> rs_location r \<in> set ls \<and> location_lease old (rs_location r) = Some (rs_lease r)"
proof (induction ls arbitrary: bytes rs)
  case (Cons l ls)
  obtain x rest where x: "location_lease old l = Some x" "retire_locations name old 0 ls = Inr rest"
    "rs = \<lparr>rs_name = name, rs_lease = x, rs_table_id = ts_table_id old, rs_location = l, rs_source_bytes = bytes\<rparr> # rest"
    using Cons.prems(1) by (auto simp: bindr_eq_Inr split: option.splits)
  then show ?case using Cons.IH [OF x(2)] Cons.prems(2) by auto
qed simp

lemma agree_retire:
  assumes ok: "leases_agree H R D" and "old \<in> H" and "retire_locations name old bytes ls = Inr rs" and "set ls \<subseteq> reached old"
  shows "leases_agree H (R \<union> set rs) D"
proof (rule leases_agreeI)
  fix r s
  assume r: "r \<in> R \<union> set rs" and s: "s \<in> H" "rs_table_id r = ts_table_id s" "rs_location r \<in> reached s"
  show "location_lease s (rs_location r) = Some (rs_lease r)"
  proof (cases "r \<in> R")
    case True
    then show ?thesis by (rule agree_retired [OF ok _ s])
  next
    case False
    then have r: "rs_table_id r = ts_table_id old" "rs_location r \<in> reached old" "location_lease old (rs_location r) = Some (rs_lease r)"
      using retire_locations_spec [OF assms(3), of r] assms(4) r by auto
    have "location_lease old (rs_location r) = location_lease s (rs_location r)"
      by (rule agree_same [OF ok assms(2) s(1)]) (use r s in simp_all)
    then show ?thesis using r by simp
  qed
qed (use ok agree_same agree_held in blast)+

lemma agree_add:
  assumes ok: "leases_agree H R D" and "leased s" and "directories s \<subseteq> D'" and "D \<subseteq> D'"
    and new: "\<And>l. l \<in> reached s \<Longrightarrow> (ts_table_id s, l) \<in> D \<or> (\<exists>r \<in> R. rs_table_id r = ts_table_id s \<and> rs_location r = l) \<Longrightarrow>
      \<exists>t \<in> H. ts_table_id t = ts_table_id s \<and> l \<in> reached t \<and> location_lease s l = location_lease t l"
  shows "leases_agree (insert s H) R D'"
proof -
  have mixed: "location_lease s l = location_lease u l"
    if u: "u \<in> H" "ts_table_id s = ts_table_id u" "l \<in> reached s" "l \<in> reached u" for u l
  proof -
    have "(ts_table_id s, l) \<in> D" using agree_held(2) [OF ok u(1,4)] u(2) by simp
    then obtain t where t: "t \<in> H" "ts_table_id t = ts_table_id s" "l \<in> reached t" "location_lease s l = location_lease t l"
      using new [OF u(3)] by blast
    have "location_lease t l = location_lease u l" by (rule agree_same [OF ok t(1) u(1) _ t(3) u(4)]) (use t u in simp)
    then show ?thesis using t(4) by simp
  qed
  show ?thesis
  proof (rule leases_agreeI)
    fix t l assume "t \<in> insert s H" "l \<in> reached t"
    then show "(ts_table_id t, l) \<in> D'" using agree_held(2) [OF ok, of t l] assms(3,4) by (auto simp: directories_def)
  next
    fix t u l assume t: "t \<in> insert s H" "u \<in> insert s H" "ts_table_id t = ts_table_id u" "l \<in> reached t" "l \<in> reached u"
    consider "t = s" "u = s" | "t = s" "u \<in> H" | "t \<in> H" "u = s" | "t \<in> H" "u \<in> H" using t(1,2) by blast
    then show "location_lease t l = location_lease u l"
    proof cases
      case 2
      then show ?thesis using mixed [of u l] t(3-5) by blast
    next
      case 3
      then show ?thesis using mixed [of t l] t(3-5) by metis
    next
      case 4
      then show ?thesis by (rule agree_same [OF ok _ _ t(3-5)])
    qed simp
  next
    fix r t assume r: "r \<in> R" "t \<in> insert s H" "rs_table_id r = ts_table_id t" "rs_location r \<in> reached t"
    show "location_lease t (rs_location r) = Some (rs_lease r)"
    proof (cases "t = s")
      case False
      then show ?thesis using agree_retired [OF ok r(1) _ r(3,4)] r(2) by simp
    next
      case True
      then obtain u where u: "u \<in> H" "ts_table_id u = ts_table_id s" "rs_location r \<in> reached u" "location_lease s (rs_location r) = location_lease u (rs_location r)"
        using new [of "rs_location r"] r by auto
      have "location_lease u (rs_location r) = Some (rs_lease r)" by (rule agree_retired [OF ok r(1) u(1) _ u(3)]) (use u True r in simp)
      then show ?thesis using True u(4) by simp
    qed
  qed (use assms(2) agree_held(1) [OF ok] in auto)
qed

text \<open>A vacuum touches only the directories of retired entries whose lease cannot be upgraded.\<close>

lemma remove_snapshot_other:
  "remove_snapshot fault db t l disk = (disk', q) \<Longrightarrow> d \<noteq> (t, l) \<Longrightarrow> disk' d = disk d"
  by (auto simp: remove_snapshot_def Let_def split: option.splits sum.splits if_splits removal_fault.splits)

lemma vacuum_loop_disk:
  assumes "vacuum_loop live faults db name rs removed failure disk = (kept, n, e, disk')"
    and "\<And>r. r \<in> set rs \<Longrightarrow> (rs_table_id r, rs_location r) = d \<Longrightarrow> live (rs_lease r)"
  shows "disk' d = disk d"
  using assms
proof (induction rs arbitrary: removed failure disk kept)
  case (Cons r rs)
  show ?case
  proof (cases "(case name of Some n \<Rightarrow> rs_name r \<noteq> n | None \<Rightarrow> False) \<or> live (rs_lease r)")
    case True
    then show ?thesis using Cons by (auto split: prod.splits)
  next
    case False
    obtain disk1 q where rm: "remove_snapshot (faults (rs_table_id r) (rs_location r)) db (rs_table_id r) (rs_location r) disk = (disk1, q)"
      by (metis prod.exhaust)
    have "d \<noteq> (rs_table_id r, rs_location r)" using Cons.prems(2) [of r] False by auto
    then have "disk1 d = disk d" by (rule remove_snapshot_other [OF rm])
    moreover have "disk' d = disk1 d"
      using Cons.IH Cons.prems False rm by (auto split: sum.splits snapshot_removal.splits prod.splits)
    ultimately show ?thesis by simp
  qed
qed simp

lemma vacuum_loop_subset: "vacuum_loop live faults db name rs removed failure disk = (kept, out) \<Longrightarrow> set kept \<subseteq> set rs"
  by (induction live faults db name rs removed failure disk arbitrary: kept out rule: vacuum_loop.induct)
    (auto split: if_splits sum.splits snapshot_removal.splits prod.splits, blast+)

lemma vacuum_state:
  assumes "vacuum live faults db name (st, disk) = ((st', disk'), q)"
  shows "nst_tables st' = nst_tables st \<and> set (nst_retired st') \<subseteq> set (nst_retired st)"
    and "(\<And>r. r \<in> set (nst_retired st) \<Longrightarrow> (rs_table_id r, rs_location r) = d \<Longrightarrow> live (rs_lease r)) \<Longrightarrow> disk' d = disk d"
  using assms vacuum_loop_subset [of live faults db "map_option to_ascii_lowercase name" "nst_retired st" 0 None disk]
    vacuum_loop_disk [of live faults db "map_option to_ascii_lowercase name" "nst_retired st" 0 None disk]
  by (auto simp: vacuum_def Let_def split: if_splits prod.splits)

lemma agree_vacuum:
  assumes ok: "leases_agree (held L) (set (nst_retired (lf_state L))) (on_disk (lf_disk L))"
    and run: "vacuum (lease_live L) faults db name (lf_state L, lf_disk L) = ((st, disk), q)"
  shows "leases_agree (held L) (set (nst_retired (lf_state L))) (on_disk disk)"
proof (rule agree_disk [OF ok])
  fix s l
  assume s: "s \<in> held L" and l: "l \<in> reached s"
  have "lease_live L (rs_lease r)" if r: "r \<in> set (nst_retired (lf_state L))" "(rs_table_id r, rs_location r) = (ts_table_id s, l)" for r
  proof -
    have "location_lease s (rs_location r) = Some (rs_lease r)" using agree_retired [OF ok r(1) s] r(2) l by simp
    then have "(rs_location r, rs_lease r) \<in> set (ts_location_leases s)" by (simp add: location_lease_def map_of_SomeD)
    then show ?thesis using s unfolding lease_live_def by (metis image_eqI snd_conv)
  qed
  from vacuum_state(2) [OF run this] show "(ts_table_id s, l) \<in> on_disk disk"
    using agree_held(2) [OF ok s l] by (simp add: on_disk_def)
qed

text \<open>Installing a snapshot that agrees with the table it replaces.\<close>

lemma install_ok:
  assumes ok: "lifetime_ok L" and new: "new_version L name s" and s: "leased s'" "reached s' = reached s" "ts_table_id s' = ts_table_id s"
    and inherited: "\<And>old l. map_of (nst_tables (lf_state L)) name = Some old \<Longrightarrow> l \<in> reached old \<Longrightarrow> l \<in> reached s \<Longrightarrow> location_lease s' l = location_lease old l"
    and st: "nst_tables st0 = nst_tables (lf_state L)" "nst_retired st0 = nst_retired (lf_state L)"
    and run: "install_snapshot name s' st0 = Inr st"
  shows "lifetime_ok (L\<lparr>lf_state := st, lf_fresh := f, lf_disk := (lf_disk L)(own_directory s \<mapsto> Inr (marker_of s))\<rparr>)"
proof -
  let ?H = "held L" and ?R = "set (nst_retired (lf_state L))" and ?D = "insert (own_directory s) (on_disk (lf_disk L))"
  have A: "leases_agree ?H ?R (on_disk (lf_disk L))" and bt: "bt_ok (nst_tables (lf_state L))" using ok by (simp_all add: lifetime_ok_def)
  have old: "old \<in> ?H" if "map_of (nst_tables (lf_state L)) name = Some old" for old
    using map_of_SomeD [OF that] by (force simp: held_def)
  have only: "l = own_location s \<or> (\<exists>old. map_of (nst_tables (lf_state L)) name = Some old \<and> ts_table_id s = ts_table_id old \<and> l \<in> reached old)"
    if "l \<in> reached s" for l
    using new that by (auto simp: new_version_def split: option.splits)
  have "directories s' \<subseteq> ?D"
  proof
    fix d assume "d \<in> directories s'"
    then obtain l where l: "d = (ts_table_id s, l)" "l \<in> reached s" by (auto simp: directories_def s)
    show "d \<in> ?D"
    proof (cases "l = own_location s")
      case True
      then show ?thesis by (simp add: l own_directory_def)
    next
      case False
      then obtain old where "map_of (nst_tables (lf_state L)) name = Some old" "ts_table_id s = ts_table_id old" "l \<in> reached old"
        using only [OF l(2)] by blast
      then show ?thesis using agree_held(2) [OF A old, of old l] l(1) by simp
    qed
  qed
  moreover have "\<exists>t \<in> ?H. ts_table_id t = ts_table_id s' \<and> l \<in> reached t \<and> location_lease s' l = location_lease t l"
    if l: "l \<in> reached s'" and used: "(ts_table_id s', l) \<in> on_disk (lf_disk L) \<or> (\<exists>r \<in> ?R. rs_table_id r = ts_table_id s' \<and> rs_location r = l)" for l
  proof -
    have "l \<noteq> own_location s" using new used by (auto simp: new_version_def own_directory_def on_disk_def s)
    then obtain old where o: "map_of (nst_tables (lf_state L)) name = Some old" "ts_table_id s = ts_table_id old" "l \<in> reached old"
      using only [of l] l s(2) by metis
    then show ?thesis using inherited [OF o(1,3)] old [OF o(1)] l s by auto
  qed
  ultimately have B: "leases_agree (insert s' ?H) ?R ?D"
    by (intro agree_add [OF A s(1)]) auto
  have C: "leases_agree (insert s' ?H) (set (nst_retired st)) ?D" "nst_tables st = bt_insert name s' (nst_tables (lf_state L))"
  proof -
    show "nst_tables st = bt_insert name s' (nst_tables (lf_state L))"
      using run by (auto simp: install_snapshot_def Let_def st result_simps split: option.splits)
    show "leases_agree (insert s' ?H) (set (nst_retired st)) ?D"
    proof (cases "map_of (nst_tables (lf_state L)) name")
      case None
      then show ?thesis using run B by (auto simp: install_snapshot_def Let_def st)
    next
      case (Some prev)
      then obtain rs where rs: "retire_locations name prev (ts_source_bytes prev)
          (filter (\<lambda>l. l \<notin> set (reachable_locations s')) (reachable_locations prev)) = Inr rs"
        "nst_retired st = nst_retired (lf_state L) @ rs"
        using run by (auto simp: install_snapshot_def Let_def st result_simps)
      have "leases_agree (insert s' ?H) (?R \<union> set rs) ?D"
        by (rule agree_retire [OF B _ rs(1)]) (use old [OF Some] in \<open>auto simp: set_reachable\<close>)
      then show ?thesis by (simp add: rs(2))
    qed
  qed
  have "held (L\<lparr>lf_state := st, lf_fresh := f, lf_disk := disk\<rparr>) \<subseteq> insert s' ?H" for disk
  proof -
    have "(k, v) \<in> set (nst_tables st) \<Longrightarrow> v = s' \<or> (k, v) \<in> set (nst_tables (lf_state L))" for k v
      using bt by (auto simp: C(2) bt_set_map_of map_of_bt_insert split: if_splits)
    then show ?thesis by (fastforce simp: held_def)
  qed
  then show ?thesis using agree_mono [OF C(1)] bt C(2) by (simp add: lifetime_ok_def)
qed

lemma single_ok:
  assumes ok: "lifetime_ok L" and new: "new_version L name s" and init: "initialize_location_leases (lf_fresh L) s = (loaded, fresh)"
    and run: "commit_install fresh name loaded committed (lf_state L) = Inr (st, fresh')"
  shows "lifetime_ok (L\<lparr>lf_state := st, lf_fresh := fresh', lf_disk := (lf_disk L)(own_directory s \<mapsto> Inr (marker_of s))\<rparr>)"
proof -
  have loaded: "leased loaded" "reached loaded = reached s" "ts_table_id loaded = ts_table_id s"
    using initialize_leases [OF init] init by (auto simp: initialize_location_leases_def Let_def)
  obtain s' where s': "(case map_of (nst_tables (lf_state L)) name of
      Some old \<Rightarrow> inherit_location_leases fresh loaded old | None \<Rightarrow> (loaded, fresh)) = (s', fresh')"
    and inst: "install_snapshot name s' ((lf_state L)\<lparr>nst_catalog := committed\<rparr>) = Inr st"
    using run by (auto simp: commit_install_def result_simps split: prod.splits)
  have "leased s' \<and> reached s' = reached s \<and> ts_table_id s' = ts_table_id s"
    using s' loaded inherit_location_leases_spec(1,2)
    by (fastforce simp: inherit_location_leases_def split: option.splits prod.splits)
  moreover have "location_lease s' l = location_lease old l"
    if o: "map_of (nst_tables (lf_state L)) name = Some old" "l \<in> reached old" "l \<in> reached s" for old l
  proof -
    have i: "inherit_location_leases fresh loaded old = (s', fresh')" using s' o by simp
    have "leased old" using ok map_of_SomeD [OF o(1)] agree_held(1) by (force simp: lifetime_ok_def held_def)
    then obtain y where y: "location_lease old l = Some y" using leased_location o(2) by blast
    obtain x where x: "location_lease s' l = Some x"
      using leased_location [OF inherit_location_leases_spec(1) [OF i], of l] inherit_location_leases_spec(2) [OF i] loaded o(3) by auto
    show ?thesis using inherit_location_leases_spec(4) [OF i x] x y by simp
  qed
  ultimately show ?thesis by (intro install_ok [OF ok new _ _ _ _ _ _ inst]) auto
qed

lemma drop_ok:
  assumes ok: "lifetime_ok L" and run: "retire_dropped_snapshot name (lf_state L) = Inr st"
  shows "lifetime_ok (L\<lparr>lf_state := st\<rparr>)"
proof (cases "map_of (nst_tables (lf_state L)) name")
  case None
  then have "st = lf_state L" using run by (simp add: retire_dropped_snapshot_def)
  then show ?thesis using ok by (simp add: lifetime_ok_def held_def)
next
  case (Some old)
  then obtain rs where rs: "retire_locations name old (ts_source_bytes old) (reachable_locations old) = Inr rs"
    "nst_retired st = nst_retired (lf_state L) @ rs" "nst_tables st = bt_remove name (nst_tables (lf_state L))"
    using run by (auto simp: retire_dropped_snapshot_def retire_snapshot_def result_simps)
  have A: "leases_agree (held L) (set (nst_retired (lf_state L))) (on_disk (lf_disk L))" using ok by (simp add: lifetime_ok_def)
  have "old \<in> held L" using map_of_SomeD [OF Some] by (force simp: held_def)
  from agree_retire [OF A this rs(1)]
  have "leases_agree (held L) (set (nst_retired st)) (on_disk (lf_disk L))" by (simp add: rs(2) set_reachable)
  moreover have "held (L\<lparr>lf_state := st\<rparr>) \<subseteq> held L" by (auto simp: held_def rs(3) bt_remove_def)
  ultimately have "leases_agree (held (L\<lparr>lf_state := st\<rparr>)) (set (nst_retired st)) (on_disk (lf_disk L))" by (rule agree_mono) simp
  then show ?thesis using ok by (simp add: lifetime_ok_def rs(3))
qed

lemma lifetime_step_ok:
  assumes "lifetime_step False L L'" and "lifetime_ok L"
  shows "lifetime_ok L'"
  using assms
proof (induction rule: lifetime_step.induct)
  case (read L name s)
  have "s \<in> held L" using map_of_SomeD [OF read(1)] by (force simp: held_def)
  then have "held (L\<lparr>lf_readers := s # lf_readers L\<rparr>) = held L" by (auto simp: held_def)
  then show ?case using read(2) by (simp add: lifetime_ok_def)
next
  case (release L s)
  have "held (L\<lparr>lf_readers := remove1 s (lf_readers L)\<rparr>) \<subseteq> held L" using set_remove1_subset [of s "lf_readers L"] by (auto simp: held_def)
  from agree_mono [OF _ this subset_refl] show ?case using release by (simp add: lifetime_ok_def)
next
  case (vacuum L faults name st disk q)
  have "nst_tables st = nst_tables (lf_state L)" "set (nst_retired st) \<subseteq> set (nst_retired (lf_state L))"
    using vacuum_state(1) [OF vacuum(1)] by auto
  moreover have "held (L\<lparr>lf_state := st, lf_disk := D\<rparr>) = held L" for D using calculation(1) by (simp add: held_def)
  ultimately show ?case
    using vacuum(2) by (auto simp: lifetime_ok_def intro: agree_mono [OF agree_vacuum [OF _ vacuum(1)] subset_refl])
qed (auto intro: single_ok drop_ok)

text \<open>A vacuum without faults removes a directory whose marker names it, when a retired entry for it has a lease
  that no one holds.\<close>

abbreviation directory_marker :: "string \<Rightarrow> directory \<Rightarrow> snapshot_marker" where
  "directory_marker db d \<equiv> \<lparr>mk_database_id = db, mk_table_id = fst d, mk_version = fst (snd d), mk_snapshot_id = snd (snd d)\<rparr>"

lemma remove_snapshot_absent:
  "remove_snapshot No_Removal_Fault db t l disk = (disk', q) \<Longrightarrow> disk d = None \<Longrightarrow> disk' d = None"
  by (auto simp: remove_snapshot_def Let_def split: option.splits sum.splits if_splits)

lemma remove_snapshot_marked:
  "remove_snapshot No_Removal_Fault db (fst d) (snd d) disk = (disk', q) \<Longrightarrow>
     disk d = None \<or> disk d = Some (Inr (directory_marker db d)) \<Longrightarrow> disk' d = None"
  by (cases d) (auto simp: remove_snapshot_def Let_def)

lemma vacuum_loop_gone:
  assumes "vacuum_loop live (\<lambda>_ _. No_Removal_Fault) db None rs removed failure disk = (kept, n, e, disk')"
    and "disk d = None"
  shows "disk' d = None"
  using assms
proof (induction rs arbitrary: removed failure disk kept)
  case (Cons r rs)
  obtain disk1 q where rm: "remove_snapshot No_Removal_Fault db (rs_table_id r) (rs_location r) disk = (disk1, q)"
    by (metis prod.exhaust)
  have "disk1 d = None" by (rule remove_snapshot_absent [where disk = disk, OF rm Cons.prems(2)])
  then show ?case
    using Cons.IH Cons.prems rm by (auto split: if_splits sum.splits snapshot_removal.splits prod.splits)
qed simp

lemma vacuum_loop_removes:
  assumes "vacuum_loop live (\<lambda>_ _. No_Removal_Fault) db None rs removed failure disk = (kept, n, e, disk')"
    and "r \<in> set rs" and "\<not> live (rs_lease r)" and "d = (rs_table_id r, rs_location r)"
    and "disk d = None \<or> disk d = Some (Inr (directory_marker db d))"
  shows "disk' d = None"
  using assms(1,2,5)
proof (induction rs arbitrary: removed failure disk kept)
  case (Cons r' rs)
  obtain disk1 q where rm: "remove_snapshot No_Removal_Fault db (rs_table_id r') (rs_location r') disk = (disk1, q)"
    by (metis prod.exhaust)
  have known: "disk1 d = None \<or> disk1 d = Some (Inr (directory_marker db d))"
    using remove_snapshot_other [OF rm, of d] remove_snapshot_marked [of db d disk disk1 q] rm Cons.prems(3)
    by (cases "d = (rs_table_id r', rs_location r')") auto
  show ?case
  proof (cases "r' = r")
    case True
    then have "disk1 d = None"
      using remove_snapshot_marked [of db d disk disk1 q] rm Cons.prems(3) assms(4) by simp
    then show ?thesis
      using vacuum_loop_gone Cons.prems(1) assms(3) True rm
      by (auto split: if_splits sum.splits snapshot_removal.splits prod.splits)
  next
    case False
    then have "r \<in> set rs" using Cons.prems(2) by simp
    then show ?thesis
      using Cons.IH [of _ _ disk1] Cons.IH [of _ _ disk] known Cons.prems(1,3) rm
      by (auto split: if_splits sum.splits snapshot_removal.splits prod.splits)
  qed
qed simp

lemma vacuum_removes:
  assumes "vacuum live (\<lambda>_ _. No_Removal_Fault) db None (st, disk) = ((st', disk'), q)"
    and "r \<in> set (nst_retired st)" and "\<not> live (rs_lease r)" and "d = (rs_table_id r, rs_location r)"
    and "disk d = None \<or> disk d = Some (Inr (directory_marker db d))"
  shows "disk' d = None"
  using assms vacuum_loop_removes [of live db "nst_retired st" 0 None disk _ _ _ disk' r d]
  by (auto simp: vacuum_def Let_def split: prod.splits)

end
