(* ===== verification/Transaction_Lifecycle.thy ===== *)
theory Transaction_Lifecycle
  imports Workspace_Session Snapshot_Lifetime
begin

text \<open>
  The life of an explicit transaction (\<open>engine/transaction.rs\<close>, the commit and rollback of
  \<open>engine/transaction/workspace.rs\<close> and the installation of a commit in \<open>engine/native_write.rs\<close>): what
  the state of a transaction says about the database after a commit, and that a finished transaction
  stays finished.
\<close>

section \<open>The engine\<close>

text \<open>The part of the engine a commit changes: the stored database with its state in memory, the flag
  that demands a reopen, the persistent entries that sessions read, and the snapshot directories.\<close>

record 's engine_state =
  en_database :: "'s tx_state"
  en_native_poisoned :: bool
  en_persistent :: "'s provider persistent_snapshot"
  en_disk :: snapshot_disk

text \<open>What the operations meet besides: the commit of the storage with a fresh transaction identifier,
  the quota check, the entries of the committed state, the leases that can be upgraded and the faults of the
  removal of retired directories.\<close>

record 's engine_env =
  ee_tx :: "'s tx_env"
  ee_fresh :: string
  ee_quota :: "'s transaction_changes \<Rightarrow> (db_error, unit) result"
  ee_entries :: "'s native_state \<Rightarrow> (db_error, 's provider table_entry list) result"
  ee_live :: "lease \<Rightarrow> bool"
  ee_remove :: removal_faults

definition native_commit_error_requires_reopen :: "db_error \<Rightarrow> bool" where
  "native_commit_error_requires_reopen e \<longleftrightarrow> \<not> (case e of
       Catalog \<Rightarrow> True | InvalidArgument \<Rightarrow> True | Unsupported \<Rightarrow> True | ResourceExhausted \<Rightarrow> True
     | NativeDiskQuotaExceeded _ _ _ _ \<Rightarrow> True | Cancelled \<Rightarrow> True | TransactionConflict \<Rightarrow> True | TransactionClosed \<Rightarrow> True
     | _ \<Rightarrow> False)"

text \<open>A transaction over its quota aborts its writes.\<close>

definition commit_transaction_writes ::
  "'s engine_env \<Rightarrow> 's transaction_changes \<Rightarrow> 's tx_state \<Rightarrow> 's tx_state \<times> (db_error, native_commit) result" where
  "commit_transaction_writes E ch = (\<lambda>(dirs, w, st). case ee_quota E ch of
       Inl e \<Rightarrow> (case abort_published (ee_tx E) (ch_writes ch) w of (w', failure) \<Rightarrow>
         ((dirs, w', st), Inl (case failure of None \<Rightarrow> e | Some _ \<Rightarrow> NativeStorage)))
     | Inr _ \<Rightarrow> transaction_commit (ee_tx E) (ee_fresh E) ch (dirs, w, st))"

definition install_native_commit ::
  "'s engine_env \<Rightarrow> native_commit \<Rightarrow> 's engine_state \<Rightarrow> 's engine_state \<times> (db_error, unit) result" where
  "install_native_commit E commit g = (case en_database g of (dirs, w, st) \<Rightarrow>
     let failed = Inl (NativeCommitPostCommitFailure (nc_generation commit)) in
     case ee_entries E st of
       Inl e \<Rightarrow> (g\<lparr>en_native_poisoned := True\<rparr>, failed)
     | Inr entries \<Rightarrow> (case persistent_publish (nc_previous_generation commit) entries (en_persistent g) of
         (p, Inl e) \<Rightarrow> (g\<lparr>en_persistent := p, en_native_poisoned := True\<rparr>, failed)
       | (p, Inr _) \<Rightarrow> (case drain_retired (ee_live E) (ee_remove E) (w_database_id w) (st, en_disk g) of
           ((st', disk), Inl e) \<Rightarrow>
             (g\<lparr>en_persistent := p, en_database := (dirs, w, st'), en_disk := disk, en_native_poisoned := True\<rparr>, failed)
         | ((st', disk), Inr _) \<Rightarrow>
             (g\<lparr>en_persistent := p, en_database := (dirs, w, st'), en_disk := disk\<rparr>, Inr ()))))"

section \<open>Committing and rolling back a workspace\<close>

definition workspace_rollback ::
  "'s engine_env \<Rightarrow> 's tx_workspace \<times> 's engine_state \<Rightarrow> ('s tx_workspace \<times> 's engine_state) \<times> (db_error, unit) result" where
  "workspace_rollback E = (\<lambda>(ws, g).
     if tw_writes ws = [] then ((workspace_clear ws, g), Inr ())
     else case en_database g of (dirs, w, st) \<Rightarrow>
       (case abort_published (ee_tx E) (tw_writes ws) w of
          (w', None) \<Rightarrow> ((workspace_clear ws, g\<lparr>en_database := (dirs, w', st)\<rparr>), Inr ())
        | (w', Some e) \<Rightarrow> ((workspace_clear ws, g\<lparr>en_database := (dirs, w', st), en_native_poisoned := True\<rparr>), Inl e)))"

definition rollback_after_preflight_error ::
  "'s engine_env \<Rightarrow> db_error \<Rightarrow> 's tx_workspace \<times> 's engine_state \<Rightarrow> ('s tx_workspace \<times> 's engine_state) \<times> (db_error, 'r) result" where
  "rollback_after_preflight_error E e s = (case workspace_rollback E s of
       (s', Inr _) \<Rightarrow> (s', Inl e)
     | (s', Inl _) \<Rightarrow> (s', Inl NativeStorage))"

definition workspace_commit ::
  "'s engine_env \<Rightarrow> 's tx_workspace \<times> 's engine_state \<Rightarrow> ('s tx_workspace \<times> 's engine_state) \<times> (db_error, nat option) result" where
  "workspace_commit E = (\<lambda>(ws, g).
     if \<not> has_changes ws then ((ws, g), Inr None)
     else if en_native_poisoned g then rollback_after_preflight_error E NativeStorage (ws, g)
     else case commit_transaction_writes E (workspace_changes ws) (en_database g) of
       (d, Inl TransactionConflict) \<Rightarrow> ((workspace_clear ws, g\<lparr>en_database := d\<rparr>), Inl TransactionConflict)
     | (d, Inl e) \<Rightarrow>
         ((workspace_clear ws, g\<lparr>en_database := d, en_native_poisoned := native_commit_error_requires_reopen e\<rparr>), Inl e)
     | (d, Inr commit) \<Rightarrow> (case install_native_commit E commit (g\<lparr>en_database := d\<rparr>) of
         (g', Inl e) \<Rightarrow> ((workspace_clear ws, g'), Inl e)
       | (g', Inr _) \<Rightarrow> ((workspace_clear ws, g'), Inr (Some (nc_generation commit)))))"

section \<open>The transaction\<close>

datatype lifecycle = Active | Committed "nat option" | RolledBack | Indeterminate

record tx_handle =
  th_lifecycle :: lifecycle
  th_active_results :: nat
  th_rollback_pending :: bool
  th_finished :: bool

definition transaction_begin :: tx_handle where
  "transaction_begin = \<lparr>th_lifecycle = Active, th_active_results = 0, th_rollback_pending = False, th_finished = False\<rparr>"

definition ensure_lifecycle :: "lifecycle \<Rightarrow> (db_error, unit) result" where
  "ensure_lifecycle l = (if l = Active then Inr () else Inl TransactionClosed)"

definition commit_info :: "tx_handle \<Rightarrow> nat option option" where
  "commit_info h = (case th_lifecycle h of Committed generation \<Rightarrow> Some generation | _ \<Rightarrow> None)"

definition lifecycle_after_error :: "db_error \<Rightarrow> lifecycle" where
  "lifecycle_after_error e = (case e of
       NativeCommitPostCommitFailure generation \<Rightarrow> Committed (Some generation)
     | CommitOutcomeUnknown \<Rightarrow> Indeterminate
     | _ \<Rightarrow> RolledBack)"

type_synonym 's tx_world = "tx_handle \<times> 's tx_workspace \<times> 's engine_state"

definition tx_commit :: "'s engine_env \<Rightarrow> 's tx_world \<Rightarrow> 's tx_world \<times> (db_error, nat option) result" where
  "tx_commit E = (\<lambda>(h, ws, g). case ensure_lifecycle (th_lifecycle h) of
       Inl e \<Rightarrow> ((h, ws, g), Inl e)
     | Inr _ \<Rightarrow>
       if th_active_results h \<noteq> 0 then ((h, ws, g), Inl InvalidArgument)
       else case workspace_commit E (ws, g) of
         ((ws', g'), Inl e) \<Rightarrow> ((h\<lparr>th_lifecycle := lifecycle_after_error e, th_finished := True\<rparr>, ws', g'), Inl e)
       | ((ws', g'), Inr generation) \<Rightarrow>
           ((h\<lparr>th_lifecycle := Committed generation, th_finished := True\<rparr>, ws', g'), Inr generation))"

definition tx_rollback :: "'s engine_env \<Rightarrow> 's tx_world \<Rightarrow> 's tx_world \<times> (db_error, unit) result" where
  "tx_rollback E = (\<lambda>(h, ws, g). case ensure_lifecycle (th_lifecycle h) of
       Inl e \<Rightarrow> ((h, ws, g), Inl e)
     | Inr _ \<Rightarrow>
       if th_active_results h \<noteq> 0 then ((h, ws, g), Inl InvalidArgument)
       else case workspace_rollback E (ws, g) of
         ((ws', g'), Inl e) \<Rightarrow> ((h, ws', g'), Inl e)
       | ((ws', g'), Inr _) \<Rightarrow> ((h\<lparr>th_lifecycle := RolledBack, th_finished := True\<rparr>, ws', g'), Inr ()))"

definition begin_result :: "tx_handle \<Rightarrow> tx_handle \<times> (db_error, unit) result" where
  "begin_result h = (case ensure_lifecycle (th_lifecycle h) of
       Inl e \<Rightarrow> (h, Inl e)
     | Inr _ \<Rightarrow> (case checked_add (th_active_results h) 1 of
         None \<Rightarrow> (h, Inl ResourceExhausted)
       | Some n \<Rightarrow> (h\<lparr>th_active_results := n\<rparr>, Inr ())))"

text \<open>A result stream that ends: an applied mutation whose stream was not consumed rolls the transaction
  back, once the last stream is gone.\<close>

definition finish_result :: "'s engine_env \<Rightarrow> bool \<Rightarrow> 's tx_world \<Rightarrow> 's tx_world" where
  "finish_result E rollback_mutation = (\<lambda>(h, ws, g).
     let h1 = h\<lparr>th_active_results := saturating_sub (th_active_results h) 1\<rparr>;
         h2 = (if rollback_mutation \<and> th_lifecycle h1 = Active
               then h1\<lparr>th_lifecycle := RolledBack, th_rollback_pending := True\<rparr> else h1) in
     if th_active_results h2 = 0 \<and> th_rollback_pending h2
     then (case workspace_rollback E (ws, g) of ((ws', g'), _) \<Rightarrow> (h2\<lparr>th_rollback_pending := False\<rparr>, ws', g'))
     else (h2, ws, g))"

definition tx_drop :: "'s engine_env \<Rightarrow> 's tx_world \<Rightarrow> 's tx_world" where
  "tx_drop E = (\<lambda>(h, ws, g).
     if th_finished h \<or> th_lifecycle h \<noteq> Active then (h, ws, g)
     else
     let h' = h\<lparr>th_lifecycle := RolledBack, th_rollback_pending := (th_active_results h \<noteq> 0)\<rparr> in
     if th_rollback_pending h' then (h', ws, g)
     else case workspace_rollback E (ws, g) of ((ws', g'), _) \<Rightarrow> (h', ws', g'))"

section \<open>The stored outcome\<close>

text \<open>What the state of a transaction says of the stored database: it opens with the old catalog, with the
  new one, or, when the outcome is unknown, with either.\<close>

definition lifecycle_outcome ::
  "catalog_env \<Rightarrow> log_env \<Rightarrow> string \<Rightarrow> catalog_state \<Rightarrow> catalog_state \<Rightarrow> stored \<Rightarrow> lifecycle \<Rightarrow> bool" where
  "lifecycle_outcome E L db old new s l \<longleftrightarrow> (case l of
       Active \<Rightarrow> False
     | Committed None \<Rightarrow> opens_with E L db s old
     | Committed (Some _) \<Rightarrow> opens_with E L db s new
     | RolledBack \<Rightarrow> opens_with E L db s old
     | Indeterminate \<Rightarrow> opens_with E L db s old \<or> opens_with E L db s new \<or> opens_on_retry E L db s new)"

definition stored_database :: "'s engine_state \<Rightarrow> stored" where
  "stored_database g = (case en_database g of (dirs, w, _) \<Rightarrow> \<lparr>st_catalog = dirs, st_wal = w_dir w\<rparr>)"

lemma table_conflicts_writes:
  "table_conflicts rebase tables drops renames expected c = (c', e) \<Longrightarrow> \<exists>rebased. cf_writes c' = cf_writes c @ rebased"
proof (induction rebase tables drops renames expected c arbitrary: c' e rule: table_conflicts.induct)
  case (2 rebase tables drops renames name base expected c)
  then show ?case by (fastforce simp: Let_def split: if_splits sum.splits option.splits)
qed simp

lemma check_keeps_writes: "\<exists>rebased. fst (check_transaction_changes X ch st) = ch_writes ch @ rebased"
proof -
  let ?c = "\<lparr>cf_writes = ch_writes ch, cf_rebased = False, cf_conflict = schema_conflict (ch_expected_schemas ch) (cs_schemas (nst_catalog st))\<rparr>"
  obtain c e where run: "table_conflicts (tx_rebase X) (nst_tables st) (ch_drops ch) (ch_renames ch) (ch_expected ch) ?c = (c, e)"
    by (metis prod.exhaust)
  then show ?thesis using table_conflicts_writes [OF run]
    by (auto simp: check_transaction_changes_def split: option.split)
qed

text \<open>Undoing the writes of a transaction leaves the stored catalog.\<close>

lemma abort_published_opens:
  assumes rest: "at_rest (tx_catalog X) (tx_log X) dirs w old" and db: "w_database_id w = db"
    and X: "tx_log_ok X db txns kinds lo hi" and room: "in_room lo hi (2 * length writes) w"
    and ids: "\<And>p. p \<in> set writes \<Longrightarrow> pub_transaction_id p \<in> txns" and run: "abort_published X writes w = (w', f)"
  shows "opens_with (tx_catalog X) (tx_log X) db \<lparr>st_catalog = dirs, st_wal = w_dir w'\<rparr> old"
proof -
  have "quiet (tx_log X) (2 * length (rev writes)) w w'"
    by (rule quiet_abort_writes [of X w txns kinds lo hi "rev writes" 0 None w' f])
      (use assms in \<open>simp_all add: abort_published_def\<close>)
  then show ?thesis
    using opens_quiet(1) [OF disk_log_refl _ db] open_at_rest [OF rest] rest db by (auto simp: at_rest_def)
qed

definition engine_ready ::
  "'s engine_env \<Rightarrow> 's tx_workspace \<Rightarrow> 's engine_state \<Rightarrow> string set \<Rightarrow> record_kind set \<Rightarrow> nat \<Rightarrow> nat \<Rightarrow> bool" where
  "engine_ready E ws g txns kinds lo hi \<longleftrightarrow> (case en_database g of (dirs, w, st) \<Rightarrow>
     at_rest (tx_catalog (ee_tx E)) (tx_log (ee_tx E)) dirs w (nst_catalog st) \<and> mirrors st
     \<and> tx_ready (ee_tx E) (w_database_id w) (ee_fresh E) (workspace_changes ws) st txns kinds lo hi
     \<and> in_room lo hi (2 * length (fst (check_transaction_changes (ee_tx E) (workspace_changes ws) st)) + 3) w
     \<and> (\<forall>e. ee_quota E (workspace_changes ws) = Inl e \<longrightarrow> definite_error e))"

definition engine_target :: "'s engine_env \<Rightarrow> 's tx_workspace \<Rightarrow> 's engine_state \<Rightarrow> catalog_state" where
  "engine_target E ws g = (case en_database g of (dirs, w, st) \<Rightarrow>
     transaction_target (ee_tx E) (w_database_id w) (ee_fresh E) (workspace_changes ws) st)"

abbreviation engine_outcome :: "'s engine_env \<Rightarrow> 's tx_workspace \<Rightarrow> 's engine_state \<Rightarrow> 's engine_state \<Rightarrow> lifecycle \<Rightarrow> bool" where
  "engine_outcome E ws g g' \<equiv> lifecycle_outcome (tx_catalog (ee_tx E)) (tx_log (ee_tx E))
     (w_database_id (fst (snd (en_database g)))) (nst_catalog (snd (snd (en_database g)))) (engine_target E ws g) (stored_database g')"

lemma lifecycle_of_error:
  "transaction_outcome E L db old new s (Inl e :: (db_error, 'r) result) \<Longrightarrow> lifecycle_outcome E L db old new s (lifecycle_after_error e)"
  by (cases e) (simp_all add: transaction_outcome_def lifecycle_outcome_def lifecycle_after_error_def)

lemma definite_rolls_back: "definite_error e \<Longrightarrow> lifecycle_after_error e = RolledBack"
  by (cases e) (simp_all add: definite_error_def lifecycle_after_error_def)

lemma install_native_commit_stored:
  "install_native_commit E c g = (g', q) \<Longrightarrow> stored_database g' = stored_database g
    \<and> (\<forall>e. q = Inl e \<longrightarrow> e = NativeCommitPostCommitFailure (nc_generation c))"
  by (auto simp: install_native_commit_def Let_def stored_database_def split: prod.splits sum.splits)

lemma workspace_rollback_opens:
  assumes "engine_ready E ws g txns kinds lo hi" and "workspace_rollback E (ws, g) = ((ws', g'), q)"
  shows "engine_outcome E ws g g' RolledBack"
proof -
  obtain dirs w st where g: "en_database g = (dirs, w, st)" by (metis prod.exhaust)
  note R = assms(1) [unfolded engine_ready_def g prod.case]
  have rest: "at_rest (tx_catalog (ee_tx E)) (tx_log (ee_tx E)) dirs w (nst_catalog st)" using R by blast
  obtain w' f where ab: "abort_published (ee_tx E) (tw_writes ws) w = (w', f)" by (metis prod.exhaust)
  obtain rebased where check: "fst (check_transaction_changes (ee_tx E) (workspace_changes ws) st) = tw_writes ws @ rebased"
    using check_keeps_writes [of "ee_tx E" "workspace_changes ws" st] by (auto simp: workspace_changes_def)
  have "opens_with (tx_catalog (ee_tx E)) (tx_log (ee_tx E)) (w_database_id w) \<lparr>st_catalog = dirs, st_wal = w_dir w'\<rparr> (nst_catalog st)"
    by (rule abort_published_opens [OF rest refl _ _ _ ab, of txns kinds lo hi])
      (use R check in \<open>auto simp: tx_ready_def in_room_def\<close>)
  then show ?thesis
    using open_at_rest [OF rest] assms(2) ab g
    by (auto simp: workspace_rollback_def lifecycle_outcome_def stored_database_def split: if_splits option.splits)
qed

lemma commit_transaction_writes_outcome:
  assumes ready: "engine_ready E ws g txns kinds lo hi" and g: "en_database g = (dirs, w, st)"
    and run: "commit_transaction_writes E (workspace_changes ws) (dirs, w, st) = ((dirs', w', st'), r)"
  shows "transaction_outcome (tx_catalog (ee_tx E)) (tx_log (ee_tx E)) (w_database_id w) (nst_catalog st) (engine_target E ws g)
      \<lparr>st_catalog = dirs', st_wal = w_dir w'\<rparr> r"
proof (cases "ee_quota E (workspace_changes ws)")
  case (Inr u)
  then have "transaction_commit (ee_tx E) (ee_fresh E) (workspace_changes ws) (dirs, w, st) = ((dirs', w', st'), r)"
    using run by (simp add: commit_transaction_writes_def)
  from transaction_commit_durable [where txns = txns and kinds = kinds and lo = lo and hi = hi, OF _ refl _ _ _ this] ready show ?thesis
    by (simp add: engine_ready_def engine_target_def g)
next
  case (Inl e)
  let ?ws = "tw_writes ws"
  obtain w1 f where ab: "abort_published (ee_tx E) ?ws w = (w1, f)" by (metis prod.exhaust)
  obtain rebased where check: "fst (check_transaction_changes (ee_tx E) (workspace_changes ws) st) = ?ws @ rebased"
    using check_keeps_writes [of "ee_tx E" "workspace_changes ws" st] by (auto simp: workspace_changes_def)
  have "opens_with (tx_catalog (ee_tx E)) (tx_log (ee_tx E)) (w_database_id w) \<lparr>st_catalog = dirs, st_wal = w_dir w1\<rparr> (nst_catalog st)"
    by (rule abort_published_opens [where txns = txns and kinds = kinds and lo = lo and hi = hi, OF _ refl _ _ _ ab])
      (use ready check g in \<open>auto simp: engine_ready_def tx_ready_def in_room_def\<close>)
  moreover have "definite_error (case f of None \<Rightarrow> e | Some _ \<Rightarrow> NativeStorage)"
    using ready Inl g by (auto simp: engine_ready_def definite_error_def split: option.split)
  moreover have "dirs' = dirs" "w' = w1" "r = Inl (case f of None \<Rightarrow> e | Some _ \<Rightarrow> NativeStorage)"
    using run Inl ab by (auto simp: commit_transaction_writes_def workspace_changes_def)
  ultimately show ?thesis by (auto intro: outcome_old)
qed

definition lifecycle_of :: "(db_error, nat option) result \<Rightarrow> lifecycle" where
  "lifecycle_of r = (case r of Inl e \<Rightarrow> lifecycle_after_error e | Inr generation \<Rightarrow> Committed generation)"

lemma workspace_commit_outcome:
  assumes ready: "engine_ready E ws g txns kinds lo hi" and run: "workspace_commit E (ws, g) = ((ws', g'), r)"
  shows "engine_outcome E ws g g' (lifecycle_of r)"
proof -
  obtain dirs w st where g: "en_database g = (dirs, w, st)" by (metis prod.exhaust)
  have rest: "at_rest (tx_catalog (ee_tx E)) (tx_log (ee_tx E)) dirs w (nst_catalog st)" using ready by (simp add: engine_ready_def g)
  consider (unchanged) "\<not> has_changes ws" | (poisoned) "has_changes ws" "en_native_poisoned g"
    | (commit) "has_changes ws" "\<not> en_native_poisoned g" by blast
  then show ?thesis
  proof cases
    case unchanged
    then have "g' = g" "r = Inr None" using run by (auto simp: workspace_commit_def)
    then show ?thesis using open_at_rest [OF rest] g by (simp add: lifecycle_of_def lifecycle_outcome_def stored_database_def)
  next
    case poisoned
    obtain ws1 g1 q where rb: "workspace_rollback E (ws, g) = ((ws1, g1), q)" by (metis prod.exhaust)
    then have "g' = g1" "\<exists>e. r = Inl e \<and> definite_error e"
      using run poisoned by (auto simp: workspace_commit_def rollback_after_preflight_error_def definite_error_def split: sum.splits)
    then show ?thesis using workspace_rollback_opens [OF ready rb] by (auto simp: lifecycle_of_def definite_rolls_back)
  next
    case commit
    obtain dirs1 w1 st1 q where c: "commit_transaction_writes E (workspace_changes ws) (dirs, w, st) = ((dirs1, w1, st1), q)"
      by (metis prod.exhaust)
    note out = commit_transaction_writes_outcome [OF ready g c]
    have s1: "stored_database (g\<lparr>en_database := (dirs1, w1, st1)\<rparr>) = \<lparr>st_catalog = dirs1, st_wal = w_dir w1\<rparr>"
      by (simp add: stored_database_def)
    show ?thesis
    proof (cases q)
      case (Inl e)
      have "stored_database g' = \<lparr>st_catalog = dirs1, st_wal = w_dir w1\<rparr> \<and> r = Inl e"
        using run commit c Inl g by (cases e) (auto simp: workspace_commit_def stored_database_def)
      then show ?thesis using lifecycle_of_error [OF out [unfolded Inl]] g by (simp add: lifecycle_of_def)
    next
      case (Inr commit_record)
      obtain g1 i where inst: "install_native_commit E commit_record (g\<lparr>en_database := (dirs1, w1, st1)\<rparr>) = (g1, i)" by (metis prod.exhaust)
      have "g' = g1" "\<exists>n. lifecycle_of r = Committed (Some n)"
        using run commit c Inr g inst install_native_commit_stored [OF inst]
        by (auto simp: workspace_commit_def lifecycle_of_def lifecycle_after_error_def split: sum.splits)
      then show ?thesis
        using out Inr g s1 conjunct1 [OF install_native_commit_stored [OF inst]]
        by (auto simp: lifecycle_outcome_def transaction_outcome_def)
    qed
  qed
qed

section \<open>A finished transaction stays finished\<close>

text \<open>The operations on a transaction and its result streams.\<close>

datatype tx_op = OpCommit | OpRollback | OpBeginResult | OpFinishResult bool | OpDrop

definition tx_apply :: "'s engine_env \<Rightarrow> tx_op \<Rightarrow> 's tx_world \<Rightarrow> 's tx_world \<times> db_error option" where
  "tx_apply E op s = (case op of
       OpCommit \<Rightarrow> (case tx_commit E s of (s', r) \<Rightarrow> (s', case r of Inl e \<Rightarrow> Some e | Inr _ \<Rightarrow> None))
     | OpRollback \<Rightarrow> (case tx_rollback E s of (s', r) \<Rightarrow> (s', case r of Inl e \<Rightarrow> Some e | Inr _ \<Rightarrow> None))
     | OpBeginResult \<Rightarrow> (case s of (h, rest) \<Rightarrow> (case begin_result h of (h', r) \<Rightarrow>
         ((h', rest), case r of Inl e \<Rightarrow> Some e | Inr _ \<Rightarrow> None)))
     | OpFinishResult applied \<Rightarrow> (finish_result E applied s, None)
     | OpDrop \<Rightarrow> (tx_drop E s, None))"

abbreviation tx_lifecycle :: "'s tx_world \<Rightarrow> lifecycle" where
  "tx_lifecycle s \<equiv> th_lifecycle (fst s)"

lemma tx_apply_closed:
  assumes "tx_lifecycle s \<noteq> Active" and "tx_apply E op s = (s', e)"
  shows "tx_lifecycle s' = tx_lifecycle s \<and> (op \<in> {OpCommit, OpRollback, OpBeginResult} \<longrightarrow> e = Some TransactionClosed \<and> s' = s)"
  using assms
  by (cases s; cases op)
    (auto simp: tx_apply_def tx_commit_def tx_rollback_def begin_result_def finish_result_def tx_drop_def ensure_lifecycle_def Let_def
      split: prod.splits if_splits)

lemma tx_run_closed:
  assumes "tx_lifecycle s \<noteq> Active"
  shows "tx_lifecycle (fold (\<lambda>op s. fst (tx_apply E op s)) ops s) = tx_lifecycle s"
  using assms
proof (induction ops arbitrary: s)
  case (Cons op ops)
  have "tx_lifecycle (fst (tx_apply E op s)) = tx_lifecycle s"
    using tx_apply_closed [OF Cons.prems, of E op] by (metis prod.collapse)
  then show ?case using Cons by simp
qed simp

end
