(* ===== verification/Transaction_Sample.thy ===== *)
theory Transaction_Sample
  imports Storage_Sample Transaction_Lifecycle
begin

text \<open>
  A small engine for the concrete instances of the transaction properties: a database without tables, a
  transaction that creates a schema, and a log whose records are numbered by sequence number and kind.
\<close>

section \<open>The catalog and the log\<close>

definition schema_state :: "nat \<Rightarrow> catalog_state" where
  "schema_state g = (if g = 0 then initial_state ''db'' else next_state ''db'' g ''t'' [DEFAULT_SCHEMA, ''s''] [] [])"

definition schema_env :: catalog_env where
  "schema_env = \<lparr>cat_json = numbered_json cs_generation schema_state, uuid_ok = (\<lambda>s. s = ''t''), from_flatbuffer = (\<lambda>_. Some ())\<rparr>"

definition kind_number :: "record_kind \<Rightarrow> nat" where
  "kind_number kind = (case kind of Begin _ _ \<Rightarrow> 0 | Catalog_Commit _ _ \<Rightarrow> 1 | _ \<Rightarrow> 2)"

definition numbered_record :: "nat \<Rightarrow> wal_record" where
  "numbered_record n = record_new ''db'' (n div 4) ''t''
     (if n mod 4 = 0 then Begin 0 ReadWrite else if n mod 4 = 1 then Catalog_Commit 0 1 else Abort)"

definition schema_log :: log_env where
  "schema_log = \<lparr>rec_json = numbered_json (\<lambda>r. 4 * wr_lsn r + kind_number (wr_kind r)) numbered_record,
     cp_json = numbered_json cp_next_lsn sample_checkpoint, log_uuid_ok = (\<lambda>s. s = ''t'' \<or> s = ''u'')\<rparr>"

abbreviation schema_kinds :: "record_kind set" where
  "schema_kinds \<equiv> {Begin 0 ReadWrite, Catalog_Commit 0 1, Abort}"

lemma schema_writable: "writable schema_log ''db'' {''t''} schema_kinds 1 60"
proof -
  have "reads_back (rec_json schema_log) (record_new ''db'' lsn ''t'' kind)" if "kind \<in> schema_kinds" "lsn < 60" for kind lsn
  proof -
    have "numbered_record (4 * lsn + kind_number kind) = record_new ''db'' lsn ''t'' kind \<and> 4 * lsn + kind_number kind < 256"
      using that by (auto simp: numbered_record_def kind_number_def)
    then show ?thesis by (auto simp: schema_log_def record_new_def intro!: numbered_reads_back)
  qed
  then show ?thesis by (simp add: writable_def)
qed

lemma schema_unique: "unique_ok schema_log ''u''"
  by (simp add: unique_ok_def schema_log_def)

lemma schema_state_0: "schema_state 0 = sample_state 0"
  by (simp add: schema_state_def sample_state_def)

lemma schema_storable: "g < 256 \<Longrightarrow> storable schema_env (schema_state g)"
  by (auto simp: storable_def schema_env_def schema_state_def next_state_def initial_state_def INITIAL_GENERATION_def
      intro!: numbered_reads_back)

section \<open>The engine\<close>

definition schema_tx_env :: "unit tx_env" where
  "schema_tx_env = \<lparr>tx_catalog = schema_env, tx_log = schema_log, tx_faults = no_commit_faults, tx_begin = no_append_faults,
     tx_abort = (\<lambda>_. no_append_faults), tx_abort_on_drop = (\<lambda>_. no_append_faults), tx_unique = (\<lambda>_. ''u''),
     tx_remove = (\<lambda>_. None), tx_rebase = (\<lambda>_ _ _ _. Inr None), tx_quota = (\<lambda>_. Inr ())\<rparr>"

definition schema_native_state :: "unit native_state" where
  "schema_native_state = \<lparr>nst_catalog = schema_state 0, nst_tables = [], nst_views = [], nst_retired = []\<rparr>"

definition schema_workspace :: "unit tx_workspace" where
  "schema_workspace = fst (stage_schema_create ''s'' False (workspace_new ''t'' 0 [DEFAULT_SCHEMA] [] []))"

definition schema_engine :: "unit engine_state" where
  "schema_engine = \<lparr>en_database = (sample_dirs [0] 0, sample_wal 0, schema_native_state), en_native_poisoned = False,
     en_persistent = persistent_empty, en_disk = Map.empty\<rparr>"

definition schema_engine_env :: "unit engine_env" where
  "schema_engine_env = \<lparr>ee_tx = schema_tx_env, ee_fresh = ''t'', ee_quota = (\<lambda>_. Inr ()), ee_entries = (\<lambda>_. Inr []),
     ee_live = (\<lambda>_. False), ee_remove = (\<lambda>_ _. No_Removal_Fault)\<rparr>"

lemma schema_at_rest: "at_rest schema_env schema_log (sample_dirs [0] 0) (sample_wal 0) (schema_state 0)"
proof -
  have "encode_generation schema_env (schema_state 0) = Inr [of_nat 0, 10]"
    by (simp add: encode_generation_def schema_state_0 sample_budget result_simps schema_env_def numbered_seal)
  from generation_file.read_lookup [OF schema_storable this lookup_sample_generation, of "[0]" 0]
  have "read_generation schema_env (sample_dirs [0] 0) 0 = Inr (schema_state 0)"
    unfolding read_generation_file by simp
  moreover have "read_current (sample_dirs [0] 0) = Inr 0"
    by (rule read_current_written [OF encode_current_Inr]) (simp_all add: sample_dirs_def lookup_file_def)
  moreover have "validate_state schema_env (sample_state 0) = Inr ()"
    by (simp add: validate_state_def validate_catalog_def validate_schemas_def validate_name_def
      validate_tables_def DEFAULT_SCHEMA_def MAX_TABLE_NAME_BYTES_def to_ascii_lowercase_def ascii_lower_def result_simps)
  ultimately have "load schema_env (sample_dirs [0] 0) ''db'' = Inr (schema_state 0)"
    by (simp add: load_def result_simps schema_state_0)
  then show ?thesis
    using wal_empty_ok [of schema_log "''db''"]
    by (simp add: at_rest_def caught_up_def catalog_commits_def sample_wal_empty) (simp add: wal_empty_def)
qed

abbreviation schema_changes :: "unit transaction_changes" where
  "schema_changes \<equiv> workspace_changes schema_workspace"

lemma schema_workspace_fields:
  "tw_schema_updates schema_workspace = [(''s'', True)]" "tw_expected_schemas schema_workspace = [(''s'', False)]"
  "tw_writes schema_workspace = []" "tw_drops schema_workspace = []" "tw_renames schema_workspace = []"
  "tw_expected schema_workspace = []" "tw_expected_views schema_workspace = []" "tw_view_updates schema_workspace = []"
  "tw_snapshot_generation schema_workspace = 0"
  by (simp_all add: schema_workspace_def stage_schema_create_def workspace_new_def DEFAULT_SCHEMA_def to_ascii_lowercase_def ascii_lower_def Let_def)

lemma schema_check: "check_transaction_changes schema_tx_env schema_changes schema_native_state = ([], Inr ())"
  by (simp add: check_transaction_changes_def workspace_changes_def schema_workspace_fields schema_native_state_def schema_conflict_def
      find_map_def List.map_filter_def view_conflict_def dropped_schema_conflict_def or_else_def schema_state_0 DEFAULT_SCHEMA_def)

lemma schema_plan:
  "plan_transaction schema_changes ''t'' [] schema_native_state =
    Inr \<lparr>pl_coordinator = ''t'', pl_standalone = True, pl_writes = [], pl_tables = [], pl_renamed = [], pl_overwritten = []\<rparr>"
  by (simp add: plan_transaction_def workspace_changes_def schema_workspace_fields schema_native_state_def schema_state_0 apply_renames_def
      planned_tables_def final_indices_def)

lemma schema_mirrors: "mirrors schema_native_state"
  by (simp add: mirrors_def schema_native_state_def leased_tables_def schema_state_0 fun_eq_iff)

lemma schema_coordinator: "tx_coordinator ''t'' schema_changes = ''t''"
  by (simp add: tx_coordinator_def workspace_changes_def schema_workspace_fields)

lemma schema_catalog:
  "pl_coordinator pl = ''t'' \<Longrightarrow> pl_tables pl = [] \<Longrightarrow> transaction_catalog ''db'' schema_changes pl schema_native_state = schema_state 1"
  by (simp add: transaction_catalog_def workspace_changes_def schema_workspace_fields schema_native_state_def schema_state_0
      planned_schemas_def planned_views_def set_insert_def)
    (simp add: schema_state_def DEFAULT_SCHEMA_def)

lemma schema_target: "transaction_target schema_tx_env ''db'' ''t'' schema_changes schema_native_state = schema_state 1"
  by (simp add: transaction_target_def schema_coordinator schema_check schema_plan schema_catalog)

lemma schema_ready: "tx_ready schema_tx_env ''db'' ''t'' schema_changes schema_native_state {''t''} schema_kinds 1 60"
proof -
  have "tx_log schema_tx_env = schema_log" "tx_catalog schema_tx_env = schema_env" "tx_unique schema_tx_env ''t'' = ''u''"
    by (simp_all add: schema_tx_env_def)
  moreover have "ch_snapshot_generation schema_changes = 0" "ch_renames schema_changes = []" "cs_generation (nst_catalog schema_native_state) = 0"
    by (simp_all add: workspace_changes_def schema_workspace_fields schema_native_state_def schema_state_0)
  ultimately show ?thesis
    using schema_writable schema_unique schema_storable [of 1]
    by (simp add: tx_ready_def tx_log_ok_def schema_coordinator schema_check schema_plan schema_catalog)
qed

lemma schema_engine_ready: "engine_ready schema_engine_env schema_workspace schema_engine {''t''} schema_kinds 1 60"
  using schema_at_rest schema_mirrors schema_ready
  by (simp add: engine_ready_def schema_engine_def schema_engine_env_def schema_check in_room_def)
    (simp add: schema_tx_env_def schema_native_state_def)

section \<open>Tables\<close>

text \<open>A snapshot without segments, with its version as identifier and the lease of its own directory.\<close>

definition empty_snapshot :: "string \<Rightarrow> nat \<Rightarrow> lease \<Rightarrow> unit table_snapshot" where
  "empty_snapshot table version lease = \<lparr>ts_format_version = SNAPSHOT_FORMAT_VERSION, ts_database_id = ''db'', ts_table_id = table,
     ts_version = version, ts_snapshot_id = ''v'', ts_parent = None, ts_operation = Import, ts_schema = (), ts_schema_fingerprint = [],
     ts_source_bytes = 0, ts_physical_row_count = 0, ts_row_count = 0, ts_deleted_row_count = 0, ts_segment_bytes = 0,
     ts_delete_vector_bytes = 0, ts_storage_bytes = 0, ts_segments = [], ts_verified_segment_fingerprints = [],
     ts_manifest_sha256 = [], ts_location_leases = [((version, ''v''), lease)]\<rparr>"

lemma empty_snapshot_leased: "leased (empty_snapshot table version lease)"
  by (simp add: leased_def reachable_locations_def own_location_def empty_snapshot_def)

definition table_a :: "unit table_snapshot" where
  "table_a = empty_snapshot ''A'' 1 0"

lemma table_a_fields [simp]:
  "ts_table_id table_a = ''A''" "ts_location_leases table_a = [((1, ''v''), 0)]" "ts_source_bytes table_a = 0" "leased table_a"
  "reached table_a = {(1, ''v'')}" "reachable_locations table_a = [(1, ''v'')]" "own_location table_a = (1, ''v'')"
  by (simp_all add: table_a_def empty_snapshot_leased) (simp_all add: empty_snapshot_def reached_def own_location_def reachable_locations_def)

definition table_state :: "unit native_state" where
  "table_state = \<lparr>nst_catalog = next_state ''db'' 1 ''t'' [DEFAULT_SCHEMA] [(''a'', snapshot_reference table_a)] [],
     nst_tables = [(''a'', table_a)], nst_views = [], nst_retired = []\<rparr>"

lemma table_mirrors: "mirrors table_state"
  by (auto simp: mirrors_def table_state_def leased_tables_def next_state_def bt_ok_def fun_eq_iff)

text \<open>A second table.\<close>

definition table_c :: "unit table_snapshot" where
  "table_c = empty_snapshot ''C'' 1 5"

definition two_tables :: "unit native_state" where
  "two_tables = \<lparr>nst_catalog = next_state ''db'' 1 ''t'' [DEFAULT_SCHEMA] [(''a'', snapshot_reference table_a), (''c'', snapshot_reference table_c)] [],
     nst_tables = [(''a'', table_a), (''c'', table_c)], nst_views = [], nst_retired = []\<rparr>"

definition rename_workspace :: "unit tx_workspace" where
  "rename_workspace = fst (fst (snd (stage_rename ''a'' ''b'' [] (workspace_new ''t'' 1 [DEFAULT_SCHEMA] [(''a'', table_a)] [], catalog_new))))"

lemmas stage_simps = stage_rename_def rename_writes_def rename_quota_def rename_chain_def expect_table_def expect_view_def expect_schema_def
  or_insert_def workspace_new_def Let_def to_ascii_lowercase_def ascii_lower_def schema_of_def DEFAULT_SCHEMA_def bt_remove_def
  stage_published_def stage_drop_def set_insert_def rename_to_def

lemmas commit_simps = check_transaction_changes_def workspace_changes_def schema_conflict_def find_map_def List.map_filter_def
  view_conflict_def dropped_schema_conflict_def or_else_def same_table_def same_view_def next_state_def plan_transaction_def
  apply_renames_def take_renamed_def put_renamed_def planned_tables_def final_indices_def

lemma rename_workspace_fields:
  "tw_renames rename_workspace = [(''a'', ''b'')]" "tw_working rename_workspace = [(''b'', table_a)]"
  "tw_expected rename_workspace = [(''a'', Some table_a), (''b'', None)]" "tw_writes rename_workspace = []" "tw_drops rename_workspace = []"
  "tw_expected_schemas rename_workspace = [(''main'', True)]" "tw_expected_views rename_workspace = [(''b'', None)]"
  "tw_schema_updates rename_workspace = []" "tw_view_updates rename_workspace = []"
  by (simp_all add: rename_workspace_def stage_simps)

section \<open>Readers\<close>

text \<open>Table \<open>a\<close>, its directory on disk and a reader; and an appended version that keeps the old segment.\<close>

definition sample_lifetime :: "unit lifetime" where
  "sample_lifetime = \<lparr>lf_state = table_state, lf_readers = [table_a], lf_database_id = ''db'',
     lf_disk = [own_directory table_a \<mapsto> Inr (marker_of table_a)], lf_fresh = 1\<rparr>"

definition appended_a :: "unit table_snapshot" where
  "appended_a = (empty_snapshot ''A'' 2 0)\<lparr>ts_operation := Append, ts_parent := Some (snapshot_reference table_a),
     ts_segments := [\<lparr>ns_segment_id = ''s'', ns_owner_version = 1, ns_owner_snapshot_id = ''v'', ns_format_version = SEGMENT_FORMAT_VERSION,
       ns_schema_fingerprint = [], ns_rows = 0, ns_bytes = 0, ns_sha256 = [], ns_predicate_sidecar = None, ns_delete_vector = None\<rparr>]\<rparr>"

lemma sample_lifetime_ok: "lifetime_ok sample_lifetime"
  by (simp add: lifetime_ok_def leases_agree_def held_def sample_lifetime_def table_state_def bt_ok_def directories_def on_disk_def
      own_directory_def)

lemma table_dropped: "\<exists>st. retire_dropped_snapshot ''a'' table_state = Inr st \<and> nst_tables st = []"
  by (simp add: retire_dropped_snapshot_def retire_snapshot_def table_state_def location_lease_def bt_remove_def)

lemma appended_a_fields [simp]:
  "ts_table_id appended_a = ''A''" "ts_source_bytes appended_a = 0" "own_location appended_a = (2, ''v'')"
  "reached appended_a = {(2, ''v''), (1, ''v'')}" "reachable_locations appended_a = [(1, ''v''), (2, ''v'')]"
  by (simp_all add: appended_a_def empty_snapshot_def reached_def own_location_def owner_locations_def reachable_locations_def less_prod_def)

definition loaded_a :: "unit table_snapshot" where
  "loaded_a = appended_a\<lparr>ts_location_leases := [((1, ''v''), 1), ((2, ''v''), 2)]\<rparr>"

lemma loaded_a_fields [simp]:
  "ts_table_id loaded_a = ''A''" "ts_source_bytes loaded_a = 0" "reachable_locations loaded_a = [(1, ''v''), (2, ''v'')]"
  "ts_location_leases loaded_a = [((1, ''v''), 1), ((2, ''v''), 2)]"
  by (simp_all add: loaded_a_def)

lemma append_leases: "initialize_location_leases 1 appended_a = (loaded_a, 3)"
  by (simp add: initialize_location_leases_def loaded_a_def upt_rec)

lemma appended_new: "new_version sample_lifetime ''a'' appended_a"
  by (simp add: new_version_def sample_lifetime_def table_state_def own_directory_def)

lemma sample_database: "lf_database_id sample_lifetime = ''db''"
  by (simp add: sample_lifetime_def)

lemma sample_directories:
  "((lf_disk sample_lifetime)(own_directory appended_a \<mapsto> m)) (''A'', (1, ''v'')) = Some (Inr (directory_marker ''db'' (''A'', (1, ''v''))))"
  by (simp add: sample_lifetime_def own_directory_def) (simp add: marker_of_def table_a_def empty_snapshot_def)

lemma append_installed:
  "\<exists>st. install_snapshot ''a'' loaded_a table_state = Inr st \<and> nst_tables st = [(''a'', loaded_a)] \<and> nst_retired st = []"
  by (simp add: install_snapshot_def table_state_def)

lemma append_dropped:
  assumes "nst_tables st = [(''a'', loaded_a)]" and "nst_retired st = []"
  shows "\<exists>st'. retire_dropped_snapshot ''a'' st = Inr st' \<and> nst_tables st' = []
    \<and> (\<exists>r \<in> set (nst_retired st'). rs_table_id r = ''A'' \<and> rs_location r = (1, ''v'') \<and> rs_lease r = 1)"
  using assms by (simp add: retire_dropped_snapshot_def retire_snapshot_def location_lease_def bt_remove_def)

end
