(* ===== verification/Transaction_Properties.thy ===== *)
theory Transaction_Properties
  imports Transaction_Sample
begin

text \<open>
  The properties of explicit transactions: what a commit stores and what the database in memory then
  holds, what a transaction shows its own statements, what its state says after a commit, and how long
  readers can use the directories of the snapshots they hold.
\<close>

section \<open>Commit\<close>

text \<open>C3: Committing a transaction of writes, drops, renames, views and schemas, with any fault at any of its
  calls, stores what its result says: the catalog of the transaction after success or a failure after the
  commit, the old catalog after an ordinary error, one of the two when the outcome is unknown.  The state
  in memory is unchanged or mirrors the new catalog; after success it is the next generation.\<close>

theorem transaction_durable:
  assumes "at_rest (tx_catalog X) (tx_log X) dirs w (nst_catalog st)" and "mirrors st"
    and "tx_ready X (w_database_id w) fresh ch st txns kinds lo hi"
    and "in_room lo hi (2 * length (fst (check_transaction_changes X ch st)) + 3) w"
    and "transaction_commit X fresh ch (dirs, w, st) = ((dirs', w', st'), r)"
  shows "transaction_outcome (tx_catalog X) (tx_log X) (w_database_id w) (nst_catalog st)
        (transaction_target X (w_database_id w) fresh ch st) \<lparr>st_catalog = dirs', st_wal = w_dir w'\<rparr> r
    \<and> (st' = st \<and> \<not> is_ok r \<or> mirrors st' \<and> nst_catalog st' = transaction_target X (w_database_id w) fresh ch st)
    \<and> (\<forall>c. r = Inr c \<longrightarrow> nc_generation c = cs_generation (nst_catalog st) + 1)"
  using transaction_commit_durable [OF assms(1) refl assms(3,4,2,5)]
  by (auto simp: committed_state_def transaction_target_def)

theorem transaction_durable_witness:
  "case transaction_commit schema_tx_env ''t'' schema_changes (sample_dirs [0] 0, sample_wal 0, schema_native_state) of
     ((dirs', w', st'), r) \<Rightarrow>
       transaction_outcome schema_env schema_log ''db'' (schema_state 0) (schema_state 1) \<lparr>st_catalog = dirs', st_wal = w_dir w'\<rparr> r
       \<and> (st' = schema_native_state \<and> \<not> is_ok r \<or> mirrors st' \<and> nst_catalog st' = schema_state 1)"
proof -
  obtain dirs' w' st' r where run: "transaction_commit schema_tx_env ''t'' schema_changes
      (sample_dirs [0] 0, sample_wal 0, schema_native_state) = ((dirs', w', st'), r)" by (metis prod.exhaust)
  have X: "tx_catalog schema_tx_env = schema_env" "tx_log schema_tx_env = schema_log" by (simp_all add: schema_tx_env_def)
  have st: "nst_catalog schema_native_state = schema_state 0" by (simp add: schema_native_state_def)
  show ?thesis
    using transaction_durable [OF _ schema_mirrors _ _ run, of "{''t''}" schema_kinds 1 60] schema_at_rest schema_ready
    by (simp add: run X st schema_check in_room_def schema_target)
qed



section \<open>The state of a transaction\<close>

text \<open>C8: After a commit, the state of the transaction tells what is stored, with any faults: a committed
  transaction with a generation opens with its catalog, one without changed nothing, a rolled back one
  opens with the old catalog, and only an indeterminate one may open with either.  It is never left
  active.\<close>

theorem lifecycle_tells_outcome:
  assumes "engine_ready E ws g txns kinds lo hi" and "th_lifecycle h = lifecycle.Active" and "th_active_results h = 0"
    and "tx_commit E (h, ws, g) = ((h', ws', g'), r)"
  shows "engine_outcome E ws g g' (th_lifecycle h')"
proof -
  obtain ws1 g1 r1 where run: "workspace_commit E (ws, g) = ((ws1, g1), r1)" by (metis prod.exhaust)
  then have "g' = g1" "th_lifecycle h' = lifecycle_of r1"
    using assms(2-4) by (auto simp: tx_commit_def ensure_lifecycle_def lifecycle_of_def split: sum.splits)
  then show ?thesis using workspace_commit_outcome [OF assms(1) run] by simp
qed

theorem lifecycle_tells_outcome_witness:
  "case tx_commit schema_engine_env (transaction_begin, schema_workspace, schema_engine) of
     ((h', ws', g'), r) \<Rightarrow> engine_outcome schema_engine_env schema_workspace schema_engine g' (th_lifecycle h')"
proof -
  obtain h' ws' g' r where run: "tx_commit schema_engine_env (transaction_begin, schema_workspace, schema_engine) = ((h', ws', g'), r)"
    by (metis prod.exhaust)
  have "th_lifecycle transaction_begin = lifecycle.Active" "th_active_results transaction_begin = 0" by (simp_all add: transaction_begin_def)
  from lifecycle_tells_outcome [OF schema_engine_ready this run] show ?thesis by (simp add: run)
qed

text \<open>C34: A finished transaction stays as it is: whatever is called on it and its result streams, its state does
  not change, and commits, rollbacks and new statements are refused.\<close>

theorem finished_transactions_stay_finished:
  assumes "tx_lifecycle s \<noteq> lifecycle.Active"
  shows "tx_lifecycle (fold (\<lambda>op s. fst (tx_apply E op s)) ops s) = tx_lifecycle s
    \<and> snd (tx_commit E s) = Inl TransactionClosed \<and> snd (tx_rollback E s) = Inl TransactionClosed
    \<and> snd (begin_result (fst s)) = Inl TransactionClosed"
  using tx_run_closed [OF assms] assms
  by (cases s) (simp add: tx_commit_def tx_rollback_def begin_result_def ensure_lifecycle_def)

theorem finished_transactions_stay_finished_witness:
  "tx_lifecycle (fold (\<lambda>op s. fst (tx_apply schema_engine_env op s)) [OpCommit, OpFinishResult True, OpDrop]
      (transaction_begin\<lparr>th_lifecycle := Indeterminate\<rparr>, schema_workspace, schema_engine)) = Indeterminate"
  using finished_transactions_stay_finished
    [of "(transaction_begin\<lparr>th_lifecycle := Indeterminate\<rparr>, schema_workspace, schema_engine)" schema_engine_env "[OpCommit, OpFinishResult True, OpDrop]"] by simp

section \<open>What a transaction shows\<close>



section \<open>Renames that reuse a name\<close>

text \<open>C35: A rename that reuses the old name of another rename loses a table.  The transaction renames \<open>a\<close> to
  \<open>b\<close>, creates a new \<open>a\<close> and renames it to \<open>c\<close>: its statements see \<open>b\<close> and \<open>c\<close>, but the second rename
  overwrites the record of the first, and the catalog it commits has no \<open>b\<close>.\<close>

theorem rename_loses_a_table:
  "let (q1, s1, r1) = stage_rename ''a'' ''b'' [] (workspace_new ''t'' 1 [DEFAULT_SCHEMA] [(''a'', table_a)] [], catalog_new);
       s2 = stage_published \<lparr>pub_name = ''a'', pub_owner = owner, pub_snapshot = s\<rparr> s1;
       (q3, (ws, c), r3) = stage_rename ''a'' ''c'' q1 s2
   in r1 = Inr () \<and> r3 = Inr ()
      \<and> map_of (tw_working ws) ''b'' = Some table_a \<and> map_of (tw_working ws) ''c'' = Some s
      \<and> check_transaction_changes X (workspace_changes ws) table_state = (tw_writes ws, Inr ())
      \<and> (\<exists>pl. plan_transaction (workspace_changes ws) coordinator (tw_writes ws) table_state = Inr pl
           \<and> map_of (pl_tables pl) ''c'' = Some (snapshot_reference s) \<and> map_of (pl_tables pl) ''b'' = None)"
  by (simp add: stage_simps commit_simps table_state_def result_simps)

text \<open>C36: Renaming a table to a name that the transaction used before commits something else than it shows.
  Renaming \<open>c\<close> to a name whose write was dropped makes the commit plan the dropped write under that name;
  renaming on from a dropped name makes it plan the dropped table again; and renaming to the target of an
  earlier rename that was dropped makes the commit fail with an internal error after its checks passed.\<close>

theorem renames_reuse_names:
  fixes s :: "unit table_snapshot" and owner :: active_wal
  defines "start \<equiv> (workspace_new ''t'' 1 [DEFAULT_SCHEMA] (nst_tables two_tables) [], catalog_new)"
  shows "(let s1 = stage_published \<lparr>pub_name = ''a'', pub_owner = owner, pub_snapshot = s\<rparr> start;
              (s2, r2) = stage_drop ''a'' False s1;
              (q3, (ws, c), r3) = stage_rename ''c'' ''a'' [] s2
          in r2 = Inr True \<and> r3 = Inr () \<and> map_of (tw_working ws) ''a'' = Some table_c
             \<and> check_transaction_changes X (workspace_changes ws) two_tables = (tw_writes ws, Inr ())
             \<and> (\<exists>pl. plan_transaction (workspace_changes ws) coordinator (tw_writes ws) two_tables = Inr pl
                  \<and> map_of (pl_tables pl) ''a'' = Some (snapshot_reference s)))
    \<and> (let (s1, r1) = stage_drop ''a'' False start;
           (q2, s2, r2) = stage_rename ''c'' ''a'' [] s1;
           (q3, (ws, c), r3) = stage_rename ''a'' ''d'' q2 s2
       in r1 = Inr True \<and> r2 = Inr () \<and> r3 = Inr () \<and> map_of (tw_working ws) ''a'' = None
          \<and> check_transaction_changes X (workspace_changes ws) two_tables = (tw_writes ws, Inr ())
          \<and> (\<exists>pl. plan_transaction (workspace_changes ws) coordinator (tw_writes ws) two_tables = Inr pl
               \<and> map_of (pl_tables pl) ''a'' = Some (snapshot_reference table_a)))
    \<and> (let (q1, s1, r1) = stage_rename ''a'' ''b'' [] start;
           (s2, r2) = stage_drop ''b'' False s1;
           (q3, (ws, c), r3) = stage_rename ''c'' ''b'' q1 s2
       in r1 = Inr () \<and> r2 = Inr True \<and> r3 = Inr () \<and> map_of (tw_working ws) ''b'' = Some table_c
          \<and> check_transaction_changes X (workspace_changes ws) two_tables = (tw_writes ws, Inr ())
          \<and> plan_transaction (workspace_changes ws) coordinator (tw_writes ws) two_tables = Inl Internal)"
proof (intro conjI)
  show "let s1 = stage_published \<lparr>pub_name = ''a'', pub_owner = owner, pub_snapshot = s\<rparr> start;
            (s2, r2) = stage_drop ''a'' False s1;
            (q3, (ws, c), r3) = stage_rename ''c'' ''a'' [] s2
        in r2 = Inr True \<and> r3 = Inr () \<and> map_of (tw_working ws) ''a'' = Some table_c
           \<and> check_transaction_changes X (workspace_changes ws) two_tables = (tw_writes ws, Inr ())
           \<and> (\<exists>pl. plan_transaction (workspace_changes ws) coordinator (tw_writes ws) two_tables = Inr pl
                \<and> map_of (pl_tables pl) ''a'' = Some (snapshot_reference s))"
    by (simp add: start_def stage_simps commit_simps two_tables_def result_simps)
  show "let (s1, r1) = stage_drop ''a'' False start;
            (q2, s2, r2) = stage_rename ''c'' ''a'' [] s1;
            (q3, (ws, c), r3) = stage_rename ''a'' ''d'' q2 s2
        in r1 = Inr True \<and> r2 = Inr () \<and> r3 = Inr () \<and> map_of (tw_working ws) ''a'' = None
           \<and> check_transaction_changes X (workspace_changes ws) two_tables = (tw_writes ws, Inr ())
           \<and> (\<exists>pl. plan_transaction (workspace_changes ws) coordinator (tw_writes ws) two_tables = Inr pl
                \<and> map_of (pl_tables pl) ''a'' = Some (snapshot_reference table_a))"
    by (simp add: start_def stage_simps commit_simps two_tables_def result_simps)
  show "let (q1, s1, r1) = stage_rename ''a'' ''b'' [] start;
            (s2, r2) = stage_drop ''b'' False s1;
            (q3, (ws, c), r3) = stage_rename ''c'' ''b'' q1 s2
        in r1 = Inr () \<and> r2 = Inr True \<and> r3 = Inr () \<and> map_of (tw_working ws) ''b'' = Some table_c
           \<and> check_transaction_changes X (workspace_changes ws) two_tables = (tw_writes ws, Inr ())
           \<and> plan_transaction (workspace_changes ws) coordinator (tw_writes ws) two_tables = Inl Internal"
    by (simp add: start_def stage_simps commit_simps two_tables_def result_simps)
qed

section \<open>Readers and the vacuum\<close>

text \<open>C9: With reads, releases, single writes, drops and vacuums in any order, whatever removals fail, no reader
  loses a directory: every directory that a held snapshot reaches stays on disk with its marker, because
  snapshots that share a directory share its lease and the vacuum removes no directory whose lease is held.
  (Writes installed by transactions are not among the steps.)\<close>

theorem readers_keep_their_directories:
  assumes "(lifetime_step False)\<^sup>*\<^sup>* L L'" and "lifetime_ok L" and "s \<in> set (lf_readers L')" and "l \<in> reached s"
  shows "\<exists>marker. lf_disk L' (ts_table_id s, l) = Some (Inr marker)"
proof -
  have "lifetime_ok L'" using assms(1,2) by (induction rule: rtranclp_induct) (auto intro: lifetime_step_ok)
  moreover have "s \<in> held L'" using assms(3) by (simp add: held_def)
  ultimately have "(ts_table_id s, l) \<in> on_disk (lf_disk L')" using agree_held(2) assms(4) unfolding lifetime_ok_def by blast
  then show ?thesis by (simp add: on_disk_def)
qed

theorem readers_keep_their_directories_witness:
  "\<exists>L'. (lifetime_step False)\<^sup>*\<^sup>* sample_lifetime L' \<and> nst_tables (lf_state L') = []
     \<and> (\<exists>marker. lf_disk L' (''A'', (1, ''v'')) = Some (Inr marker))"
proof -
  obtain st where drop: "retire_dropped_snapshot ''a'' table_state = Inr st" "nst_tables st = []"
    using table_dropped by blast
  let ?L1 = "sample_lifetime\<lparr>lf_state := st\<rparr>"
  obtain st' disk q where v: "vacuum (lease_live ?L1) (\<lambda>_ _. No_Removal_Fault) ''db'' None (st, lf_disk sample_lifetime) = ((st', disk), q)"
    by (metis prod.exhaust)
  let ?L2 = "?L1\<lparr>lf_state := st', lf_disk := disk\<rparr>"
  have "lifetime_step False sample_lifetime ?L1"
    by (rule lifetime_step.drop) (use drop in \<open>simp add: sample_lifetime_def\<close>)
  moreover have "lifetime_step False ?L1 ?L2"
    by (rule lifetime_step.vacuum [of _ "\<lambda>_ _. No_Removal_Fault" None _ _ q]) (use v in \<open>simp add: sample_database\<close>)
  ultimately have steps: "(lifetime_step False)\<^sup>*\<^sup>* sample_lifetime ?L2" by (blast intro: rtranclp.rtrancl_into_rtrancl)
  have "\<exists>marker. lf_disk ?L2 (ts_table_id table_a, (1, ''v'')) = Some (Inr marker)"
    by (rule readers_keep_their_directories [OF steps sample_lifetime_ok]) (simp_all add: sample_lifetime_def)
  then show ?thesis using steps drop vacuum_state(1) [OF v] by (intro exI [of _ ?L2]) simp
qed

text \<open>C37: With writes that transactions install, a reader can lose a directory.  A reader holds version 1 of
  \<open>a\<close>; a transaction appends version 2, which still reaches the directory of version 1 but has leases of its
  own; after a drop the vacuum finds no holder of those leases and removes the directory that the reader
  uses.\<close>

theorem vacuum_removes_a_directory_in_use:
  "\<exists>L'. (lifetime_step True)\<^sup>*\<^sup>* sample_lifetime L' \<and> lifetime_ok sample_lifetime
     \<and> table_a \<in> set (lf_readers L') \<and> (1, ''v'') \<in> reached table_a \<and> lf_disk L' (ts_table_id table_a, (1, ''v'')) = None"
proof -
  obtain st where inst: "install_snapshot ''a'' loaded_a table_state = Inr st" "nst_tables st = [(''a'', loaded_a)]" "nst_retired st = []"
    using append_installed by blast
  let ?disk = "(lf_disk sample_lifetime)(own_directory appended_a \<mapsto> Inr (marker_of appended_a))"
  let ?L1 = "sample_lifetime\<lparr>lf_state := st, lf_fresh := 3, lf_disk := ?disk\<rparr>"
  have 1: "lifetime_step True sample_lifetime ?L1"
    by (rule lifetime_step.transaction [where name = "''a''" and loaded = loaded_a])
      (use inst append_leases appended_new in \<open>simp_all add: sample_lifetime_def\<close>)
  obtain st2 r where drop: "retire_dropped_snapshot ''a'' st = Inr st2" "nst_tables st2 = []"
    and r: "r \<in> set (nst_retired st2)" "rs_table_id r = ''A''" "rs_location r = (1, ''v'')" "rs_lease r = 1"
    using append_dropped [OF inst(2,3)] by blast
  let ?L2 = "?L1\<lparr>lf_state := st2\<rparr>"
  have 2: "lifetime_step True ?L1 ?L2" by (rule lifetime_step.drop) (use drop in simp)
  obtain st3 disk3 q where v: "vacuum (lease_live ?L2) (\<lambda>_ _. No_Removal_Fault) ''db'' None (st2, ?disk) = ((st3, disk3), q)"
    by (metis prod.exhaust)
  let ?L3 = "?L2\<lparr>lf_state := st3, lf_disk := disk3\<rparr>"
  have 3: "lifetime_step True ?L2 ?L3"
    by (rule lifetime_step.vacuum [of _ "\<lambda>_ _. No_Removal_Fault" None _ _ q]) (use v in \<open>simp add: sample_database\<close>)
  have "\<not> lease_live ?L2 (rs_lease r)" by (simp add: lease_live_def held_def drop(2) sample_lifetime_def r)
  then have "disk3 (''A'', (1, ''v'')) = None"
    using vacuum_removes [OF v r(1)] r sample_directories [of "Inr (marker_of appended_a)"] by simp
  moreover have "(lifetime_step True)\<^sup>*\<^sup>* sample_lifetime ?L3" using 1 2 3 by (blast intro: rtranclp.rtrancl_into_rtrancl)
  ultimately show ?thesis
    using sample_lifetime_ok by (intro exI [of _ ?L3]) (simp add: sample_lifetime_def)
qed

end
