(* ===== verification/Like_Match.thy ===== *)
theory Like_Match
  imports Native_Error "HOL-Library.Sublist"
begin

text \<open>
  The \<open>LIKE\<close> operator (\<open>src/execution/expr/like.rs\<close>): a pattern is cut into tokens, the tokens are
  compiled into one of six matchers, and a value is matched either by the string operations of the
  standard library, by a greedy search over literal segments that works on byte positions, or by a
  two-row table over all prefixes of the pattern.  A string is the list of its Unicode scalar
  values; the byte positions of the source are computed from their UTF-8 lengths.
\<close>

section \<open>Strings\<close>

type_synonym rchar = nat
type_synonym rstr = "rchar list"

definition len_utf8 :: "rchar \<Rightarrow> nat" where
  "len_utf8 c = (if c < 128 then 1 else if c < 2048 then 2 else if c < 65536 then 3 else 4)"

definition str_len :: "rstr \<Rightarrow> nat" where
  "str_len s = sum_list (map len_utf8 s)"

text \<open>\<open>value.get(position..)\<close>: nothing past the end or inside the encoding of a character.\<close>

fun str_from :: "rstr \<Rightarrow> nat \<Rightarrow> rstr option" where
  "str_from s 0 = Some s"
| "str_from [] (Suc n) = None"
| "str_from (c # s) (Suc n) = (if len_utf8 c \<le> Suc n then str_from s (Suc n - len_utf8 c) else None)"

text \<open>\<open>str::find\<close>: the byte position of the first occurrence.\<close>

fun str_find :: "rstr \<Rightarrow> rstr \<Rightarrow> nat option" where
  "str_find s part =
     (if prefix part s then Some 0
      else case s of [] \<Rightarrow> None | c # rest \<Rightarrow> map_option (\<lambda>k. len_utf8 c + k) (str_find rest part))"

declare str_find.simps [simp del]

section \<open>Tokens\<close>

datatype like_token = Any | One | Literal rchar

definition push_token :: "like_token list \<Rightarrow> like_token \<Rightarrow> like_token list" where
  "push_token tokens token =
     (if token \<noteq> Any \<or> tokens = [] \<or> last tokens \<noteq> Any then tokens @ [token] else tokens)"

definition plain_token :: "rchar \<Rightarrow> like_token" where
  "plain_token c = (if c = of_char (CHR ''%'') then Any
                    else if c = of_char (CHR ''_'') then One else Literal c)"

fun like_tokens_loop ::
  "rchar option \<Rightarrow> rstr \<Rightarrow> like_token list \<Rightarrow> (db_error, like_token list) result" where
  "like_tokens_loop escape [] tokens = Inr tokens"
| "like_tokens_loop escape (c # characters) tokens =
     (if escape = Some c then
        (case characters of
           [] \<Rightarrow> Inl InvalidArgument
         | d # characters' \<Rightarrow> like_tokens_loop escape characters' (push_token tokens (Literal d)))
      else like_tokens_loop escape characters (push_token tokens (plain_token c)))"

definition like_tokens :: "rstr \<Rightarrow> rchar option \<Rightarrow> (db_error, like_token list) result" where
  "like_tokens pattern escape = like_tokens_loop escape pattern []"

section \<open>Compilation\<close>

datatype compiled_like =
    Exact rstr
  | Prefix rstr
  | Suffix rstr
  | Contains rstr
  | Segments (seg_parts: "rstr list") (seg_leading: bool) (seg_trailing: bool)
  | Wildcard "like_token list"

fun segment_step ::
  "rstr list \<times> rstr \<Rightarrow> like_token \<Rightarrow> (db_error, rstr list \<times> rstr) result" where
  "segment_step (parts, current) (Literal c) = Inr (parts, current @ [c])"
| "segment_step (parts, current) Any =
     Inr (if current \<noteq> [] then (parts @ [current], []) else (parts, current))"
| "segment_step (parts, current) One = Inl Panic"

definition from_literal_segments :: "like_token list \<Rightarrow> (db_error, compiled_like) result" where
  "from_literal_segments tokens =
     (if tokens = [] then Inr (Exact [])
      else
        let leading_any = (hd tokens = Any); trailing_any = (last tokens = Any) in
        bindr (try_fold segment_step ([], []) tokens) (\<lambda>(parts, current).
        let parts = (if current \<noteq> [] then parts @ [current] else parts) in
        Inr (if parts = [] then Contains []
             else if length parts = 1 then
               (let value = last parts in
                case (leading_any, trailing_any) of
                  (False, False) \<Rightarrow> Exact value
                | (False, True) \<Rightarrow> Prefix value
                | (True, False) \<Rightarrow> Suffix value
                | (True, True) \<Rightarrow> Contains value)
             else Segments parts leading_any trailing_any)))"

definition compiled_new :: "rstr \<Rightarrow> rchar option \<Rightarrow> (db_error, compiled_like) result" where
  "compiled_new pattern escape =
     bindr (like_tokens pattern escape) (\<lambda>tokens.
       if One \<in> set tokens then Inr (Wildcard tokens) else from_literal_segments tokens)"

fun wildcard_tokens :: "compiled_like \<Rightarrow> nat" where
  "wildcard_tokens (Wildcard tokens) = length tokens"
| "wildcard_tokens _ = 0"

section \<open>Matching\<close>

text \<open>The loop over the middle segments; \<open>None\<close> is the early \<open>return false\<close>.\<close>

fun segments_loop :: "rstr \<Rightarrow> rstr list \<Rightarrow> nat \<Rightarrow> nat option" where
  "segments_loop value [] position = Some position"
| "segments_loop value (part # parts) position =
     (case Option.bind (str_from value position) (\<lambda>rest. str_find rest part) of
        None \<Rightarrow> None
      | Some found \<Rightarrow>
          segments_loop value parts (saturating_add (saturating_add position found) (str_len part)))"

definition segments_match :: "rstr \<Rightarrow> rstr list \<Rightarrow> bool \<Rightarrow> bool \<Rightarrow> (db_error, bool) result" where
  "segments_match value parts leading_any trailing_any =
     bindr (ensure (parts \<noteq> []) Panic) (\<lambda>_.
       let first = hd parts in
       if \<not> leading_any \<and> \<not> prefix first value then Inr False
       else
         let position = (if leading_any then 0 else str_len first);
             first_middle = (if leading_any then 0 else 1);
             middle_end = length parts - (if trailing_any then 0 else 1) in
         bindr (ensure (first_middle \<le> middle_end) Panic) (\<lambda>_.
           case segments_loop value (drop first_middle (take middle_end parts)) position of
             None \<Rightarrow> Inr False
           | Some position \<Rightarrow>
               if trailing_any then Inr True
               else let last_part = parts ! (length parts - 1) in
                 Inr (case checked_sub (str_len value) (str_len last_part) of
                        None \<Rightarrow> False
                      | Some start \<Rightarrow> position \<le> start \<and> suffix last_part value)))"

record match_workspace =
  mw_previous :: "byte list"
  mw_current :: "byte list"

definition match_workspace_new :: "nat \<Rightarrow> match_workspace" where
  "match_workspace_new tokens =
     \<lparr>mw_previous = replicate (saturating_add tokens 1) 0,
      mw_current = replicate (saturating_add tokens 1) 0\<rparr>"

text \<open>Indexing a \<open>Vec\<close> panics out of range.\<close>

definition at :: "byte list \<Rightarrow> nat \<Rightarrow> (db_error, byte) result" where
  "at xs i = (if i < length xs then Inr (xs ! i) else Inl Panic)"

definition put :: "byte list \<Rightarrow> nat \<Rightarrow> byte \<Rightarrow> (db_error, byte list) result" where
  "put xs i b = (if i < length xs then Inr (xs[i := b]) else Inl Panic)"

definition first_row_step ::
  "byte list \<Rightarrow> nat \<times> like_token \<Rightarrow> (db_error, byte list) result" where
  "first_row_step previous = (\<lambda>(index, token).
     bindr (if token = Any then bindr (at previous index) (\<lambda>b. Inr (b \<noteq> 0)) else Inr False) (\<lambda>b.
     put previous (index + 1) (of_bool b)))"

definition row_step ::
  "rchar \<Rightarrow> byte list \<Rightarrow> byte list \<Rightarrow> nat \<times> like_token \<Rightarrow> (db_error, byte list) result" where
  "row_step c previous current = (\<lambda>(index, token).
     bindr (case token of
              Any \<Rightarrow> bindr (at previous (index + 1)) (\<lambda>p.
                       if p \<noteq> 0 then Inr True
                       else bindr (at current index) (\<lambda>q. Inr (q \<noteq> 0)))
            | One \<Rightarrow> bindr (at previous index) (\<lambda>p. Inr (p \<noteq> 0))
            | Literal expected \<Rightarrow> bindr (at previous index) (\<lambda>p. Inr (p \<noteq> 0 \<and> c = expected))) (\<lambda>b.
     put current (index + 1) (of_bool b)))"

definition char_step ::
  "like_token list \<Rightarrow> match_workspace \<Rightarrow> rchar \<Rightarrow> (db_error, match_workspace) result" where
  "char_step tokens ws c =
     bindr (try_fold (row_step c (mw_previous ws)) (replicate (length (mw_current ws)) 0)
              (enumerate 0 tokens)) (\<lambda>current.
     Inr \<lparr>mw_previous = current, mw_current = mw_previous ws\<rparr>)"

definition workspace_matches ::
  "match_workspace \<Rightarrow> rstr \<Rightarrow> like_token list \<Rightarrow> (db_error, bool \<times> match_workspace) result" where
  "workspace_matches ws value tokens =
     bindr (put (replicate (length (mw_previous ws)) 0) 0 1) (\<lambda>previous.
     bindr (try_fold first_row_step previous (enumerate 0 tokens)) (\<lambda>previous.
     bindr (try_fold (char_step tokens) (ws\<lparr>mw_previous := previous\<rparr>) value) (\<lambda>ws.
     bindr (at (mw_previous ws) (length tokens)) (\<lambda>b. Inr (b \<noteq> 0, ws)))))"

fun is_match ::
  "compiled_like \<Rightarrow> rstr \<Rightarrow> match_workspace \<Rightarrow> (db_error, bool \<times> match_workspace) result" where
  "is_match (Exact expected) value ws = Inr (value = expected, ws)"
| "is_match (Prefix expected) value ws = Inr (prefix expected value, ws)"
| "is_match (Suffix expected) value ws = Inr (suffix expected value, ws)"
| "is_match (Contains expected) value ws = Inr (str_find value expected \<noteq> None, ws)"
| "is_match (Segments parts leading_any trailing_any) value ws =
     bindr (segments_match value parts leading_any trailing_any) (\<lambda>b. Inr (b, ws))"
| "is_match (Wildcard tokens) value ws = workspace_matches ws value tokens"

definition like_matches :: "rstr \<Rightarrow> rstr \<Rightarrow> rchar option \<Rightarrow> (db_error, bool) result" where
  "like_matches value pattern escape =
     bindr (compiled_new pattern escape) (\<lambda>compiled.
     bindr (is_match compiled value (match_workspace_new (wildcard_tokens compiled))) (\<lambda>(b, _). Inr b))"

section \<open>Arrays\<close>

text \<open>An Arrow array is either a string array, given by its cells, or an array of another type.\<close>

datatype array_ref = StringArray "rstr option list" | OtherArray

fun strings :: "array_ref \<Rightarrow> (db_error, rstr option list) result" where
  "strings (StringArray cells) = Inr cells"
| "strings OtherArray = Inl Internal"

definition like_row ::
  "rstr option list \<Rightarrow> bool \<Rightarrow> rchar option \<Rightarrow> nat \<times> rstr option \<Rightarrow> (db_error, bool option) result" where
  "like_row patterns negated escape = (\<lambda>(row, value).
     case value of
       None \<Rightarrow> Inr None
     | Some value \<Rightarrow>
         bindr (ok_or (if row < length patterns then Some (patterns ! row) else None) Panic) (\<lambda>pattern.
         case pattern of
           None \<Rightarrow> Inr None
         | Some pattern \<Rightarrow>
             bindr (like_matches value pattern escape) (\<lambda>b. Inr (Some (b \<noteq> negated)))))"

definition like_evaluate ::
  "array_ref \<Rightarrow> array_ref \<Rightarrow> bool \<Rightarrow> rchar option \<Rightarrow> (db_error, bool option list) result" where
  "like_evaluate values patterns negated escape =
     bindr (strings values) (\<lambda>values.
     bindr (strings patterns) (\<lambda>patterns.
     collect_results (map (like_row patterns negated escape) (enumerate 0 values))))"

definition literal_step ::
  "compiled_like \<Rightarrow> bool \<Rightarrow> bool option list \<times> match_workspace \<Rightarrow> rstr option \<Rightarrow>
   (db_error, bool option list \<times> match_workspace) result" where
  "literal_step compiled negated = (\<lambda>(out, ws) value.
     case value of
       None \<Rightarrow> Inr (out @ [None], ws)
     | Some value \<Rightarrow>
         bindr (is_match compiled value ws) (\<lambda>(b, ws). Inr (out @ [Some (b \<noteq> negated)], ws)))"

definition like_evaluate_literal ::
  "array_ref \<Rightarrow> rstr \<Rightarrow> bool \<Rightarrow> rchar option \<Rightarrow> (db_error, bool option list) result" where
  "like_evaluate_literal values pattern negated escape =
     bindr (strings values) (\<lambda>values.
     if length (filter (\<lambda>v. v = None) values) = length values
     then Inr (replicate (length values) None)
     else
       bindr (compiled_new pattern escape) (\<lambda>compiled.
       bindr (try_fold (literal_step compiled negated)
                ([], match_workspace_new (wildcard_tokens compiled)) values) (\<lambda>(out, _). Inr out)))"

section \<open>What a pattern means\<close>

text \<open>Strings are at most \<open>isize::MAX\<close> bytes long.\<close>

definition str_ok :: "rstr \<Rightarrow> bool" where
  "str_ok s \<longleftrightarrow> str_len s < 2 ^ 63"

text \<open>The SQL meaning of a pattern, rule by rule, with no tokens and no compilation.\<close>

inductive like_spec :: "rchar option \<Rightarrow> rstr \<Rightarrow> rstr \<Rightarrow> bool" for escape where
  empty: "like_spec escape [] []"
| escaped: "escape = Some c \<Longrightarrow> like_spec escape p s \<Longrightarrow> like_spec escape (c # d # p) (d # s)"
| any: "c = of_char (CHR ''%'') \<Longrightarrow> escape \<noteq> Some c \<Longrightarrow> like_spec escape p s \<Longrightarrow>
    like_spec escape (c # p) (u @ s)"
| one: "c = of_char (CHR ''_'') \<Longrightarrow> escape \<noteq> Some c \<Longrightarrow> like_spec escape p s \<Longrightarrow>
    like_spec escape (c # p) (d # s)"
| literal: "c \<noteq> of_char (CHR ''%'') \<Longrightarrow> c \<noteq> of_char (CHR ''_'') \<Longrightarrow> escape \<noteq> Some c \<Longrightarrow>
    like_spec escape p s \<Longrightarrow> like_spec escape (c # p) (c # s)"

text \<open>A pattern is complete when no escape character stands alone at its end.\<close>

fun pattern_complete :: "rchar option \<Rightarrow> rstr \<Rightarrow> bool" where
  "pattern_complete escape [] = True"
| "pattern_complete escape (c # p) =
     (if escape = Some c then (case p of [] \<Rightarrow> False | d # p' \<Rightarrow> pattern_complete escape p')
      else pattern_complete escape p)"

inductive_simps like_spec_Nil [simp]: "like_spec escape [] s"
inductive_simps like_spec_Cons: "like_spec escape (c # p) s"

text \<open>The same for token lists: each token covers a stretch of the value.\<close>

fun token_covers :: "like_token \<Rightarrow> rstr \<Rightarrow> bool" where
  "token_covers Any u = True"
| "token_covers One u = (length u = 1)"
| "token_covers (Literal c) u = (u = [c])"

fun token_match :: "like_token list \<Rightarrow> rstr \<Rightarrow> bool" where
  "token_match [] s = (s = [])"
| "token_match (t # ts) s = (\<exists>u v. s = u @ v \<and> token_covers t u \<and> token_match ts v)"

lemma token_match_append:
  "token_match (ts @ ts') s \<longleftrightarrow> (\<exists>u v. s = u @ v \<and> token_match ts u \<and> token_match ts' v)"
proof (induction ts arbitrary: s)
  case (Cons t ts)
  have "token_match ((t # ts) @ ts') s \<longleftrightarrow>
      (\<exists>a b c. s = a @ b @ c \<and> token_covers t a \<and> token_match ts b \<and> token_match ts' c)"
    using Cons by auto
  also have "\<dots> \<longleftrightarrow> (\<exists>u v. s = u @ v \<and> token_match (t # ts) u \<and> token_match ts' v)"
    by (auto; metis append.assoc)
  finally show ?case .
qed simp

lemma token_match_single [simp]: "token_match [t] s \<longleftrightarrow> token_covers t s"
  by auto

lemma token_match_snoc:
  "token_match (ts @ [t]) s \<longleftrightarrow> (\<exists>u v. s = u @ v \<and> token_match ts u \<and> token_covers t v)"
  by (simp add: token_match_append del: token_match.simps)

section \<open>Tokens mean what the pattern means\<close>

lemma token_match_any_any: "token_match (ts @ [Any, Any]) s \<longleftrightarrow> token_match (ts @ [Any]) s"
proof -
  have "token_match [Any, Any] v" for v
    by (auto intro: exI [of _ "[]"])
  then show ?thesis by (simp add: token_match_append del: token_match.simps)
qed

lemma push_token_match: "token_match (push_token ts t) s \<longleftrightarrow> token_match (ts @ [t]) s"
proof (cases "t \<noteq> Any \<or> ts = [] \<or> last ts \<noteq> Any")
  case False
  then obtain ts' where "ts = ts' @ [Any]" and "t = Any" by (cases ts rule: rev_cases) auto
  then show ?thesis using token_match_any_any [of ts' s] by (simp add: push_token_def)
qed (simp add: push_token_def)

lemma like_spec_plain:
  assumes "escape \<noteq> Some c"
  shows "like_spec escape (c # p) s \<longleftrightarrow>
    (\<exists>u v. s = u @ v \<and> token_covers (plain_token c) u \<and> like_spec escape p v)"
proof (cases "plain_token c")
  case Any
  then have "c = of_char (CHR ''%'')" by (simp add: plain_token_def split: if_splits)
  then show ?thesis using assms Any by (auto simp: like_spec_Cons)
next
  case One
  then have "c = of_char (CHR ''_'')" by (simp add: plain_token_def split: if_splits)
  then have "like_spec escape (c # p) s \<longleftrightarrow> (\<exists>d v. s = [d] @ v \<and> like_spec escape p v)"
    using assms by (auto simp: like_spec_Cons)
  then show ?thesis using One by (auto simp: length_Suc_conv; blast)
next
  case (Literal d)
  then have "c \<noteq> of_char (CHR ''%'')" and "c \<noteq> of_char (CHR ''_'')" and "d = c"
    by (simp_all add: plain_token_def split: if_splits)
  then show ?thesis using assms Literal by (auto simp: like_spec_Cons)
qed

lemma like_spec_escaped:
  "like_spec (Some c) (c # p) s \<longleftrightarrow> (\<exists>d p' s'. p = d # p' \<and> s = d # s' \<and> like_spec (Some c) p' s')"
  by (auto simp: like_spec_Cons)

lemma like_tokens_loop_match:
  "like_tokens_loop escape p ts = Inr out \<Longrightarrow>
   token_match out s \<longleftrightarrow> (\<exists>u v. s = u @ v \<and> token_match ts u \<and> like_spec escape p v)"
proof (induction escape p ts arbitrary: out s rule: like_tokens_loop.induct)
  case (2 escape c p ts)
  show ?case
  proof (cases "escape = Some c")
    case True
    then obtain d p' where p: "p = d # p'"
      and out: "like_tokens_loop escape p' (push_token ts (Literal d)) = Inr out"
      using 2(3) by (auto split: list.splits)
    have "token_match out s \<longleftrightarrow>
        (\<exists>u w. s = u @ [d] @ w \<and> token_match ts u \<and> like_spec escape p' w)"
      unfolding 2(1) [OF True p out, of s] push_token_match token_match_snoc
      by (auto; metis append.assoc append_Cons append_Nil)
    then show ?thesis using True p by (simp add: like_spec_escaped) blast
  next
    case False
    then have out: "like_tokens_loop escape p (push_token ts (plain_token c)) = Inr out"
      using 2(3) by simp
    have "token_match out s \<longleftrightarrow> (\<exists>u v w. s = u @ v @ w \<and> token_match ts u \<and>
        token_covers (plain_token c) v \<and> like_spec escape p w)"
      unfolding 2(2) [OF False out, of s] push_token_match token_match_snoc
      by (auto; metis append.assoc)
    then show ?thesis unfolding like_spec_plain [OF False] by blast
  qed
qed simp

lemma like_tokens_match:
  "like_tokens p escape = Inr ts \<Longrightarrow> token_match ts s \<longleftrightarrow> like_spec escape p s"
  by (simp add: like_tokens_def like_tokens_loop_match)

lemma like_tokens_loop_incomplete:
  "\<not> pattern_complete escape p \<Longrightarrow> like_tokens_loop escape p ts = Inl InvalidArgument"
proof (induction escape p ts rule: like_tokens_loop.induct)
  case (2 escape c p ts)
  then show ?case by (cases "escape = Some c"; cases p) simp_all
qed simp

lemma like_tokens_loop_complete:
  "pattern_complete escape p \<Longrightarrow> \<exists>out. like_tokens_loop escape p ts = Inr out"
proof (induction escape p ts rule: like_tokens_loop.induct)
  case (2 escape c p ts)
  then show ?case by (cases "escape = Some c"; cases p) simp_all
qed simp

lemma like_tokens_cases:
  obtains (incomplete) "\<not> pattern_complete escape p" and "like_tokens p escape = Inl InvalidArgument"
  | (complete) ts where "pattern_complete escape p" and "like_tokens p escape = Inr ts"
proof (cases "pattern_complete escape p")
  case True
  then show ?thesis using complete like_tokens_loop_complete [OF True, of "[]"]
    by (auto simp: like_tokens_def)
next
  case False
  then show ?thesis using incomplete like_tokens_loop_incomplete [OF False, of "[]"]
    by (simp add: like_tokens_def)
qed

text \<open>Adjacent \<open>%\<close> tokens are collapsed, and there are no more tokens than bytes.\<close>

definition collapsed :: "like_token list \<Rightarrow> bool" where
  "collapsed ts \<longleftrightarrow> successively (\<lambda>a b. a \<noteq> Any \<or> b \<noteq> Any) ts"

lemma push_token_collapsed: "collapsed ts \<Longrightarrow> collapsed (push_token ts t)"
  by (auto simp: collapsed_def push_token_def successively_append_iff)

lemma len_utf8_pos [simp]: "0 < len_utf8 c"
  by (simp add: len_utf8_def)

lemma len_utf8_nonzero [simp]: "len_utf8 c \<noteq> 0"
  by (simp add: len_utf8_def)

lemma length_push_token: "length (push_token ts t) \<le> Suc (length ts)"
  by (simp add: push_token_def)

lemma like_tokens_loop_shape:
  "like_tokens_loop escape p ts = Inr out \<Longrightarrow> collapsed ts \<Longrightarrow>
   collapsed out \<and> length out \<le> length ts + length p"
proof (induction escape p ts arbitrary: out rule: like_tokens_loop.induct)
  case (2 escape c p ts)
  note pushed = push_token_collapsed [OF 2(4)] length_push_token [of ts]
  show ?case
  proof (cases "escape = Some c")
    case True
    then obtain d p' where p: "p = d # p'"
      and out: "like_tokens_loop escape p' (push_token ts (Literal d)) = Inr out"
      using 2(3) by (auto split: list.splits)
    show ?thesis using 2(1) [OF True p out pushed(1)] pushed(2) [of "Literal d"] p by simp
  next
    case False
    then have out: "like_tokens_loop escape p (push_token ts (plain_token c)) = Inr out"
      using 2(3) by simp
    show ?thesis using 2(2) [OF False out pushed(1)] pushed(2) [of "plain_token c"] by simp
  qed
qed simp

lemma str_len_Nil [simp]: "str_len [] = 0" and str_len_Cons [simp]: "str_len (c # s) = len_utf8 c + str_len s"
  and str_len_append [simp]: "str_len (s @ s') = str_len s + str_len s'"
  by (simp_all add: str_len_def)

lemma length_le_str_len: "length s \<le> str_len s"
proof (induction s)
  case (Cons c s)
  then show ?case using len_utf8_pos [of c] by (simp del: len_utf8_pos)
qed simp

section \<open>The two-row table\<close>

lemma try_fold_enumerate:
  assumes "P 0 s"
    and step: "\<And>j s. j < length xs \<Longrightarrow> P j s \<Longrightarrow> \<exists>s'. body s (j, xs ! j) = Inr s' \<and> P (Suc j) s'"
  shows "\<exists>s'. try_fold body s (enumerate 0 xs) = Inr s' \<and> P (length xs) s'"
proof -
  have "\<exists>s'. try_fold body s (enumerate 0 (take j xs)) = Inr s' \<and> P j s'" if "j \<le> length xs" for j
    using that
  proof (induction j)
    case (Suc j)
    then obtain s1 where "try_fold body s (enumerate 0 (take j xs)) = Inr s1" and "P j s1" by auto
    moreover obtain s2 where "body s1 (j, xs ! j) = Inr s2" and "P (Suc j) s2"
      using step [of j s1] Suc.prems \<open>P j s1\<close> by auto
    ultimately show ?case
      using Suc.prems by (simp add: take_Suc_conv_app_nth enumerate_append_eq)
  qed (use \<open>P 0 s\<close> in simp)
  from this [of "length xs"] show ?thesis by simp
qed

text \<open>Cell \<open>i\<close> of a row says whether the first \<open>i\<close> tokens match the characters read so far.\<close>

definition row_ok :: "like_token list \<Rightarrow> rstr \<Rightarrow> nat \<Rightarrow> byte list \<Rightarrow> bool" where
  "row_ok tokens s j row \<longleftrightarrow> length row = Suc (length tokens) \<and>
     (\<forall>i \<le> j. row ! i \<noteq> 0 \<longleftrightarrow> token_match (take i tokens) s)"

lemma row_ok_put:
  assumes "row_ok tokens s j row" and "j < length tokens"
    and "b \<longleftrightarrow> token_match (take (Suc j) tokens) s"
  shows "\<exists>row'. put row (j + 1) (of_bool b) = Inr row' \<and> row_ok tokens s (Suc j) row'"
  using assms by (auto simp: row_ok_def put_def nth_list_update le_Suc_eq)

lemma token_match_take_Suc:
  assumes "j < length tokens"
  shows "token_match (take (Suc j) tokens) s \<longleftrightarrow>
    (\<exists>u v. s = u @ v \<and> token_match (take j tokens) u \<and> token_covers (tokens ! j) v)"
  using assms by (simp add: take_Suc_conv_app_nth token_match_snoc)

lemma token_match_empty_Suc:
  assumes "j < length tokens"
  shows "token_match (take (Suc j) tokens) [] \<longleftrightarrow> tokens ! j = Any \<and> token_match (take j tokens) []"
  unfolding token_match_take_Suc [OF assms] by (cases "tokens ! j") auto

lemma token_match_snoc_Suc:
  assumes "j < length tokens"
  shows "token_match (take (Suc j) tokens) (s @ [c]) \<longleftrightarrow>
    (case tokens ! j of
       Any \<Rightarrow> token_match (take (Suc j) tokens) s \<or> token_match (take j tokens) (s @ [c])
     | One \<Rightarrow> token_match (take j tokens) s
     | Literal d \<Rightarrow> token_match (take j tokens) s \<and> c = d)"
proof (cases "tokens ! j")
  case Any
  have "(\<exists>u v. s @ [c] = u @ v \<and> token_match (take j tokens) u) \<longleftrightarrow>
      (\<exists>u v. s = u @ v \<and> token_match (take j tokens) u) \<or> token_match (take j tokens) (s @ [c])"
    by (metis append.assoc append.right_neutral append_butlast_last_id butlast_append butlast_snoc)
  then show ?thesis using Any assms by (simp add: token_match_take_Suc)
next
  case One
  have "(\<exists>u v. s @ [c] = u @ v \<and> token_match (take j tokens) u \<and> length v = 1) \<longleftrightarrow>
      token_match (take j tokens) s"
    by (auto simp: length_Suc_conv)
  then show ?thesis using One assms by (simp add: token_match_take_Suc)
qed (use assms in \<open>auto simp: token_match_take_Suc\<close>)

lemma first_row:
  assumes "length row = Suc (length tokens)" and "row ! 0 \<noteq> 0"
  shows "\<exists>row'. try_fold first_row_step row (enumerate 0 tokens) = Inr row' \<and>
    row_ok tokens [] (length tokens) row'"
proof (rule try_fold_enumerate [where P = "row_ok tokens []"])
  show "row_ok tokens [] 0 row" using assms by (simp add: row_ok_def)
  fix j row
  assume j: "j < length tokens" and row: "row_ok tokens [] j row"
  then have "at row j = Inr (row ! j)" and "row ! j \<noteq> 0 \<longleftrightarrow> token_match (take j tokens) []"
    by (simp_all add: row_ok_def at_def)
  then show "\<exists>row'. first_row_step row (j, tokens ! j) = Inr row' \<and> row_ok tokens [] (Suc j) row'"
    using row_ok_put [OF row j refl] token_match_empty_Suc [OF j]
    by (cases "tokens ! j = Any") (simp_all add: first_row_step_def)
qed

lemma next_row:
  assumes previous: "row_ok tokens s (length tokens) previous"
    and "length row = Suc (length tokens)" and "row ! 0 = 0"
  shows "\<exists>row'. try_fold (row_step c previous) row (enumerate 0 tokens) = Inr row' \<and>
    row_ok tokens (s @ [c]) (length tokens) row'"
proof (rule try_fold_enumerate [where P = "row_ok tokens (s @ [c])"])
  show "row_ok tokens (s @ [c]) 0 row" using assms by (simp add: row_ok_def)
  fix j row
  assume j: "j < length tokens" and row: "row_ok tokens (s @ [c]) j row"
  have cells: "at previous j = Inr (previous ! j)" "at previous (j + 1) = Inr (previous ! (j + 1))"
      "at row j = Inr (row ! j)"
    using j row previous by (simp_all add: row_ok_def at_def)
  have marks: "previous ! j \<noteq> 0 \<longleftrightarrow> token_match (take j tokens) s"
      "previous ! (j + 1) \<noteq> 0 \<longleftrightarrow> token_match (take (Suc j) tokens) s"
      "row ! j \<noteq> 0 \<longleftrightarrow> token_match (take j tokens) (s @ [c])"
    using j row previous by (simp_all add: row_ok_def)
  define b where "b \<longleftrightarrow> token_match (take (Suc j) tokens) (s @ [c])"
  have "row_step c previous row (j, tokens ! j) = put row (j + 1) (of_bool b)"
    using token_match_snoc_Suc [OF j, of s c] cells
    unfolding b_def row_step_def marks [symmetric] by (simp split: like_token.split)
  then show "\<exists>row'. row_step c previous row (j, tokens ! j) = Inr row' \<and>
      row_ok tokens (s @ [c]) (Suc j) row'"
    using row_ok_put [OF row j b_def] by simp
qed

definition workspace_fits :: "like_token list \<Rightarrow> match_workspace \<Rightarrow> bool" where
  "workspace_fits tokens ws \<longleftrightarrow>
     length (mw_previous ws) = Suc (length tokens) \<and> length (mw_current ws) = Suc (length tokens)"

lemma char_steps:
  assumes "row_ok tokens s (length tokens) (mw_previous ws)" and "workspace_fits tokens ws"
  shows "\<exists>ws'. try_fold (char_step tokens) ws value = Inr ws' \<and> workspace_fits tokens ws' \<and>
    row_ok tokens (s @ value) (length tokens) (mw_previous ws')"
  using assms
proof (induction "value" arbitrary: s ws)
  case (Cons c "value")
  obtain row where row: "try_fold (row_step c (mw_previous ws)) (replicate (length (mw_current ws)) 0)
      (enumerate 0 tokens) = Inr row" and ok: "row_ok tokens (s @ [c]) (length tokens) row"
    using next_row [OF Cons.prems(1), of "replicate (length (mw_current ws)) 0" c] Cons.prems(2)
    by (auto simp: workspace_fits_def)
  define ws1 where "ws1 = \<lparr>mw_previous = row, mw_current = mw_previous ws\<rparr>"
  have "char_step tokens ws c = Inr ws1" using row by (simp add: char_step_def ws1_def)
  moreover have "workspace_fits tokens ws1" "row_ok tokens (s @ [c]) (length tokens) (mw_previous ws1)"
    using ok Cons.prems(2) by (simp_all add: ws1_def workspace_fits_def row_ok_def)
  ultimately show ?case using Cons.IH [of "s @ [c]" ws1] by simp
qed simp

lemma workspace_matches_correct:
  assumes "workspace_fits tokens ws"
  shows "\<exists>ws'. workspace_matches ws value tokens = Inr (token_match tokens value, ws') \<and>
    workspace_fits tokens ws'"
proof -
  define zero where "zero = (replicate (length (mw_previous ws)) 0)[0 := 1 :: byte]"
  have put: "put (replicate (length (mw_previous ws)) 0) 0 1 = Inr zero"
    using assms by (simp add: put_def zero_def workspace_fits_def)
  obtain row where row: "try_fold first_row_step zero (enumerate 0 tokens) = Inr row"
    "row_ok tokens [] (length tokens) row"
    using first_row [of zero tokens] assms by (auto simp: zero_def workspace_fits_def)
  obtain ws' where ws': "try_fold (char_step tokens) (ws\<lparr>mw_previous := row\<rparr>) value = Inr ws'"
    "workspace_fits tokens ws'" "row_ok tokens ([] @ value) (length tokens) (mw_previous ws')"
    using char_steps [of tokens "[]" "ws\<lparr>mw_previous := row\<rparr>" "value"] row(2) assms
    by (auto simp: workspace_fits_def row_ok_def)
  then have "at (mw_previous ws') (length tokens) = Inr (mw_previous ws' ! length tokens)"
    "mw_previous ws' ! length tokens \<noteq> 0 \<longleftrightarrow> token_match tokens value"
    by (simp_all add: at_def workspace_fits_def row_ok_def)
  then show ?thesis using put row(1) ws'(1,2) by (simp add: workspace_matches_def)
qed

lemma match_workspace_new_fits: "length tokens < u64_max \<Longrightarrow> workspace_fits tokens (match_workspace_new (length tokens))"
  by (simp add: workspace_fits_def match_workspace_new_def saturating_add_def)

end
