(* ===== verification/Like_Correct.thy ===== *)
theory Like_Correct
  imports Like_Match
begin

text \<open>
  The compiled matchers decide the meaning of the pattern: the greedy search over literal segments
  finds a match whenever one exists, compilation keeps the token list's meaning, and the path for
  literal patterns, which compiles once and reuses its workspace, gives the rows of the general path.
\<close>

section \<open>Positions in a string\<close>

lemma str_from_append [simp]: "str_from (u @ v) (str_len u) = Some v"
proof (induction u)
  case (Cons c u)
  obtain n where n: "str_len (c # u) = Suc n"
    by (cases "str_len (c # u)") auto
  then have "Suc n - len_utf8 c = str_len u" and "len_utf8 c \<le> Suc n" by simp_all
  then show ?case using Cons n str_from.simps(3) [of c "u @ v" n] by simp
qed simp

lemma str_from_SomeD: "str_from s n = Some v \<Longrightarrow> \<exists>u. s = u @ v \<and> str_len u = n"
proof (induction s n rule: str_from.induct)
  case (3 c s n)
  then obtain u where "s = u @ v" and "str_len u = Suc n - len_utf8 c" and "len_utf8 c \<le> Suc n"
    by (auto split: if_splits)
  then show ?case by (intro exI [of _ "c # u"]) simp
qed auto

lemma str_from_Some: "str_from s n = Some v \<longleftrightarrow> (\<exists>u. s = u @ v \<and> str_len u = n)"
  using str_from_SomeD by fastforce

lemma str_find_Nil [simp]: "str_find [] p = (if p = [] then Some 0 else None)"
  by (subst str_find.simps) simp

lemma str_find_Cons [simp]:
  "str_find (c # s) p =
   (if prefix p (c # s) then Some 0 else map_option (\<lambda>k. len_utf8 c + k) (str_find s p))"
  by (subst str_find.simps) simp

lemma str_find_None: "str_find s p = None \<longleftrightarrow> \<not> sublist p s"
  by (induction s) (auto simp: sublist_Cons_right)

lemma str_find_Some:
  assumes "str_find s p = Some k"
  obtains u v where "s = u @ p @ v" and "str_len u = k"
    and "\<And>u' v'. s = u' @ p @ v' \<Longrightarrow> length u \<le> length u'"
  using assms
proof (induction s arbitrary: k thesis)
  case Nil
  then show ?case by (simp split: if_splits)
next
  case (Cons c s)
  show ?case
  proof (cases "prefix p (c # s)")
    case True
    then obtain v where "c # s = [] @ p @ v" by (auto simp: prefix_def)
    moreover have "k = 0" using True Cons.prems(2) by simp
    ultimately show ?thesis using Cons.prems(1) [of "[]" v] by simp
  next
    case False
    then obtain k' where k': "str_find s p = Some k'" "k = len_utf8 c + k'"
      using Cons.prems(2) by auto
    obtain u v where found: "s = u @ p @ v" "str_len u = k'"
      and least: "\<And>u' v'. s = u' @ p @ v' \<Longrightarrow> length u \<le> length u'"
      using Cons.IH [OF _ k'(1)] by metis
    have "length (c # u) \<le> length u'" if "c # s = u' @ p @ v'" for u' v'
      using that False least by (cases u') (auto simp: prefix_def)
    then show ?thesis using Cons.prems(1) [of "c # u" v] found k'(2) by simp
  qed
qed

section \<open>Literal segments\<close>

abbreviation lits :: "rstr \<Rightarrow> like_token list" where
  "lits p \<equiv> map Literal p"

definition seg :: "rstr \<Rightarrow> like_token list" where
  "seg p = lits p @ [Any]"

lemma token_match_lits [simp]: "token_match (lits p) s \<longleftrightarrow> s = p"
  by (induction p arbitrary: s) auto

lemma token_match_lits_append [simp]:
  "token_match (lits p @ ts) s \<longleftrightarrow> (\<exists>v. s = p @ v \<and> token_match ts v)"
  by (simp add: token_match_append)

lemma token_match_Any: "token_match (Any # ts) s \<longleftrightarrow> (\<exists>v. suffix v s \<and> token_match ts v)"
  by (auto simp: suffix_def)

lemma token_match_Any_suffix: "suffix v s \<Longrightarrow> token_match (Any # ts) v \<Longrightarrow> token_match (Any # ts) s"
  unfolding token_match_Any by (metis suffix_order.trans)

declare token_match.simps(2) [simp del]

text \<open>After \<open>%\<close>, taking the first occurrence of a segment that is followed by \<open>%\<close> loses nothing.\<close>

lemma first_occurrence_suffices:
  assumes s: "s = u @ p @ v" and least: "\<And>u' v'. s = u' @ p @ v' \<Longrightarrow> length u \<le> length u'"
  shows "token_match (Any # lits p @ Any # ts) s \<longleftrightarrow> token_match (Any # ts) v"
proof
  assume "token_match (Any # lits p @ Any # ts) s"
  then obtain u' w where w: "s = u' @ p @ w" "token_match (Any # ts) w"
    by (auto simp: token_match_Any [of "lits p @ Any # ts"] suffix_def)
  have "suffix v s" using s by (simp add: suffix_append)
  moreover have "suffix w s" using w(1) by (simp add: suffix_append)
  moreover have "length w \<le> length v"
    using least [OF w(1)] arg_cong [OF w(1), of length] s by simp
  ultimately have "suffix w v" by (metis suffix_length_suffix)
  then show "token_match (Any # ts) v" using w(2) token_match_Any_suffix by blast
next
  assume "token_match (Any # ts) v"
  then show "token_match (Any # lits p @ Any # ts) s"
    using s by (auto simp: token_match_Any [of "lits p @ Any # ts"] suffix_def)
qed

lemma segment_absent: "\<not> sublist p s \<Longrightarrow> \<not> token_match (Any # lits p @ ts) s"
  by (auto simp: token_match_Any suffix_def)

lemma segments_loop_correct:
  assumes "str_from value position = Some rest" and "str_ok value"
  shows "case segments_loop value ps position of
      None \<Rightarrow> \<not> token_match (Any # concat (map seg ps) @ ts) rest
    | Some position' \<Rightarrow> \<exists>v. str_from value position' = Some v \<and>
        (token_match (Any # concat (map seg ps) @ ts) rest \<longleftrightarrow> token_match (Any # ts) v)"
  using assms(1)
proof (induction ps arbitrary: position rest)
  case (Cons p ps)
  have tokens: "Any # concat (map seg (p # ps)) @ ts = Any # lits p @ Any # concat (map seg ps) @ ts"
    by (simp add: seg_def)
  show ?case
  proof (cases "str_find rest p")
    case None
    then have "segments_loop value (p # ps) position = None" using Cons.prems by simp
    then show ?thesis unfolding tokens using segment_absent None by (simp add: str_find_None)
  next
    case (Some k)
    obtain u v where found: "rest = u @ p @ v" "str_len u = k"
      and least: "\<And>u' v'. rest = u' @ p @ v' \<Longrightarrow> length u \<le> length u'"
      using str_find_Some [OF Some] by metis
    obtain w where w: "value = w @ rest" "str_len w = position"
      using str_from_SomeD [OF Cons.prems] by auto
    have "position + k + str_len p < 2 ^ 63"
      using \<open>str_ok value\<close> w found unfolding str_ok_def by simp
    then have exact: "saturating_add (saturating_add position k) (str_len p) = str_len (w @ u @ p)"
      using w found by (simp add: saturating_add_exact)
    have "str_from value (str_len (w @ u @ p)) = Some v"
      using w found str_from_append [of "w @ u @ p" v] by (simp del: str_from_append)
    note rest = Cons.IH [OF this]
    have "token_match (Any # concat (map seg (p # ps)) @ ts) rest \<longleftrightarrow>
        token_match (Any # concat (map seg ps) @ ts) v"
      unfolding tokens by (rule first_occurrence_suffices [OF found(1)], rule least)
    moreover have "segments_loop value (p # ps) position =
        segments_loop value ps (str_len (w @ u @ p))"
      using Some Cons.prems exact by simp
    ultimately show ?thesis using rest by (simp only:)
  qed
qed simp

text \<open>The token list that a list of segments stands for.\<close>

definition render :: "bool \<Rightarrow> rstr list \<Rightarrow> bool \<Rightarrow> like_token list" where
  "render leading parts trailing =
     (if leading then [Any] else []) @
     (if trailing then concat (map seg parts)
      else concat (map seg (butlast parts)) @ lits (last parts))"

lemma ends_with_after:
  assumes "value = w @ v" and "str_len w = position"
  shows "(case checked_sub (str_len value) (str_len l) of None \<Rightarrow> False
          | Some start \<Rightarrow> position \<le> start \<and> suffix l value) \<longleftrightarrow> suffix l v"
proof
  assume "suffix l v"
  then obtain u where "v = u @ l" by (auto simp: suffix_def)
  then show "case checked_sub (str_len value) (str_len l) of None \<Rightarrow> False
      | Some start \<Rightarrow> position \<le> start \<and> suffix l value"
    using assms by (simp add: checked_sub_def suffix_append)
next
  assume "case checked_sub (str_len value) (str_len l) of None \<Rightarrow> False
      | Some start \<Rightarrow> position \<le> start \<and> suffix l value"
  then have "suffix l value" and short: "str_len l \<le> str_len v"
    using assms by (auto simp: checked_sub_def split: if_splits)
  moreover have "suffix v value" using assms by (auto simp: suffix_def)
  ultimately consider "suffix l v" | "suffix v l" by (metis suffix_same_cases)
  then show "suffix l v"
  proof cases
    case 2
    then obtain x where "l = x @ v" by (auto simp: suffix_def)
    then have "x = []" using short by (cases x) (auto simp: not_le)
    then show ?thesis using \<open>l = x @ v\<close> by simp
  qed
qed

lemma render_first:
  assumes "2 \<le> length parts"
  defines "middle l t \<equiv> drop (if l then 0 else 1) (take (length parts - (if t then 0 else 1)) parts)"
  shows "render l parts t =
    (if l then [] else lits (hd parts)) @ Any # concat (map seg (middle l t)) @
    (if t then [] else lits (last parts))"
proof -
  obtain first second rest where parts: "parts = first # second # rest"
    using assms(1) by (cases parts; cases "tl parts") auto
  have "take (length parts - 1) parts = butlast parts" by (simp add: butlast_conv_take)
  then show ?thesis by (cases l; cases t) (simp_all add: render_def middle_def parts seg_def)
qed

lemma token_match_last_part:
  assumes "str_from value position = Some v"
  shows "token_match (Any # lits l) v \<longleftrightarrow>
    (case checked_sub (str_len value) (str_len l) of None \<Rightarrow> False
     | Some start \<Rightarrow> position \<le> start \<and> suffix l value)"
proof -
  obtain w where "value = w @ v" and "str_len w = position" using str_from_SomeD [OF assms] by auto
  then show ?thesis using ends_with_after [of "value" w v position l] by (simp add: token_match_Any)
qed

lemma segments_match_correct:
  assumes "2 \<le> length parts" and "str_ok value"
  shows "segments_match value parts l t = Inr (token_match (render l parts t) value)"
proof -
  define middle where "middle = drop (if l then 0 else 1) (take (length parts - (if t then 0 else 1)) parts)"
  define ts where "ts = (if t then [] else lits (last parts))"
  define position where "position = (if l then 0 else str_len (hd parts))"
  have parts: "parts \<noteq> []" using assms(1) by auto
  then have last: "parts ! (length parts - 1) = last parts" by (simp add: last_conv_nth)
  have rendered: "render l parts t =
      (if l then [] else lits (hd parts)) @ Any # concat (map seg middle) @ ts"
    unfolding middle_def ts_def by (rule render_first [OF assms(1)])
  show ?thesis
  proof (cases "\<not> l \<and> \<not> prefix (hd parts) value")
    case True
    then show ?thesis using parts unfolding rendered by (auto simp: segments_match_def prefix_def)
  next
    case False
    then obtain rest where rest: "str_from value position = Some rest"
      and render: "token_match (render l parts t) value \<longleftrightarrow>
        token_match (Any # concat (map seg middle) @ ts) rest"
      unfolding rendered by (cases l) (auto simp: position_def prefix_def)
    have "segments_match value parts l t =
        (case segments_loop value middle position of None \<Rightarrow> Inr False
         | Some position \<Rightarrow> if t then Inr True
             else Inr (case checked_sub (str_len value) (str_len (last parts)) of None \<Rightarrow> False
                  | Some start \<Rightarrow> position \<le> start \<and> suffix (last parts) value))"
      using False assms(1) parts unfolding last [symmetric]
      by (auto simp: segments_match_def middle_def position_def Let_def cong: if_cong option.case_cong)
    then show ?thesis
      using segments_loop_correct [OF rest assms(2), of middle ts] render
      by (auto simp: ts_def token_match_last_part token_match_Any [of "[]"] split: option.splits)
  qed
qed

section \<open>Compilation keeps the meaning\<close>

lemma segment_steps:
  assumes "collapsed ts" and "One \<notin> set ts"
  shows "\<exists>parts current. try_fold segment_step ([], []) ts = Inr (parts, current) \<and>
    ts = (if ts \<noteq> [] \<and> hd ts = Any then [Any] else []) @ concat (map seg parts) @ lits current"
  using assms
proof (induction ts rule: rev_induct)
  case (snoc t ts)
  have "collapsed ts" and adjacent: "ts = [] \<or> last ts \<noteq> Any \<or> t \<noteq> Any"
    using snoc.prems by (auto simp: collapsed_def successively_append_iff)
  then obtain parts current where run: "try_fold segment_step ([], []) ts = Inr (parts, current)"
    and ts: "ts = (if ts \<noteq> [] \<and> hd ts = Any then [Any] else []) @ concat (map seg parts) @ lits current"
    using snoc by auto
  show ?case
  proof (cases t)
    case Any
    show ?thesis
    proof (cases "current = []")
      case True
      have "parts = []"
        using True ts adjacent Any by (cases parts rule: rev_cases) (auto simp: seg_def split: if_splits)
      with True ts adjacent Any have "ts = []" by (auto split: if_splits)
      then show ?thesis using run Any by simp
    next
      case False
      then have "ts \<noteq> []" using ts by (auto split: if_splits)
      then have hd: "hd (ts @ [Any]) = hd ts" by simp
      have "ts @ [Any] = (if hd ts = Any then [Any] else []) @
          concat (map seg (parts @ [current])) @ lits []"
        using arg_cong [OF ts, of "\<lambda>xs. xs @ [Any]"] \<open>ts \<noteq> []\<close> by (simp add: seg_def)
      moreover have "try_fold segment_step ([], []) (ts @ [Any]) = Inr (parts @ [current], [])"
        using run False by simp
      ultimately show ?thesis unfolding Any hd
        by (intro exI [of _ "parts @ [current]"] exI [of _ "[]"]) simp
    qed
  next
    case One
    then show ?thesis using snoc.prems by simp
  next
    case (Literal c)
    show ?thesis
      using run ts Literal by (intro exI [of _ parts] exI [of _ "current @ [c]"]) (cases "ts = []"; simp)
  qed
qed simp

definition compiled_means :: "compiled_like \<Rightarrow> like_token list \<Rightarrow> bool" where
  "compiled_means compiled ts \<longleftrightarrow>
     (case compiled of
        Exact p \<Rightarrow> ts = lits p
      | Prefix p \<Rightarrow> ts = seg p
      | Suffix p \<Rightarrow> ts = Any # lits p
      | Contains p \<Rightarrow> (\<forall>s. token_match ts s \<longleftrightarrow> token_match (Any # seg p) s)
      | Segments parts l t \<Rightarrow> 2 \<le> length parts \<and> ts = render l parts t
      | Wildcard us \<Rightarrow> ts = us)"

lemma from_literal_segments_means:
  assumes "collapsed ts" and "One \<notin> set ts"
  shows "\<exists>compiled. from_literal_segments ts = Inr compiled \<and> compiled_means compiled ts"
proof (cases "ts = []")
  case False
  obtain parts current where run: "try_fold segment_step ([], []) ts = Inr (parts, current)"
    and ts: "ts = (if hd ts = Any then [Any] else []) @ concat (map seg parts) @ lits current"
    using segment_steps [OF assms] False by auto
  define all_parts where "all_parts = (if current \<noteq> [] then parts @ [current] else parts)"
  define pre where "pre = (if hd ts = Any then [Any] else [])"
  have shape: "ts = pre @ concat (map seg parts) @ lits current" "set pre \<subseteq> {Any}"
    unfolding pre_def by (rule ts) auto
  have last: "last ts = Any \<longleftrightarrow> current = []"
  proof (cases current rule: rev_cases)
    case Nil
    show ?thesis
    proof (cases parts rule: rev_cases)
      case Nil
      then have "set ts \<subseteq> {Any}" using \<open>current = []\<close> shape by simp
      then show ?thesis using \<open>current = []\<close> last_in_set [OF False] by blast
    qed (use \<open>current = []\<close> shape in \<open>simp add: seg_def\<close>)
  qed (use shape in simp)
  have rendered: "ts = render (hd ts = Any) all_parts (last ts = Any)" if "all_parts \<noteq> []"
    by (subst ts) (use last in \<open>simp add: render_def all_parts_def\<close>)
  show ?thesis
  proof (cases "all_parts = []")
    case True
    then have "token_match ts s \<longleftrightarrow> token_match (Any # seg []) s" for s
      using ts last False by (cases "hd ts = Any") (auto simp: all_parts_def seg_def token_match_Any)
    then show ?thesis using True False run
      by (simp add: from_literal_segments_def compiled_means_def all_parts_def split: if_splits)
  next
    case parts: False
    define compiled where "compiled =
      (if length all_parts = 1 then
         (case (hd ts = Any, last ts = Any) of
            (False, False) \<Rightarrow> Exact (last all_parts) | (False, True) \<Rightarrow> Prefix (last all_parts)
          | (True, False) \<Rightarrow> Suffix (last all_parts) | (True, True) \<Rightarrow> Contains (last all_parts))
       else Segments all_parts (hd ts = Any) (last ts = Any))"
    have "from_literal_segments ts = Inr compiled"
      using run False parts unfolding from_literal_segments_def compiled_def all_parts_def Let_def
      by auto
    moreover have "compiled_means compiled ts"
    proof (cases "length all_parts = 1")
      case True
      then obtain p where "all_parts = [p]" by (auto simp: length_Suc_conv)
      then show ?thesis using rendered [OF parts]
        by (cases "hd ts = Any"; cases "last ts = Any")
          (simp_all add: compiled_def compiled_means_def render_def)
    next
      case False
      then have "2 \<le> length all_parts" using parts by (cases all_parts; cases "tl all_parts") auto
      then show ?thesis using False rendered [OF parts] by (simp add: compiled_def compiled_means_def)
    qed
    ultimately show ?thesis by blast
  qed
qed (simp add: from_literal_segments_def compiled_means_def)

section \<open>Matching decides the pattern\<close>

fun workspace_ready :: "compiled_like \<Rightarrow> match_workspace \<Rightarrow> bool" where
  "workspace_ready (Wildcard tokens) ws = workspace_fits tokens ws"
| "workspace_ready _ ws = True"

lemma is_match_correct:
  assumes "compiled_means compiled ts" and "str_ok value" and "workspace_ready compiled ws"
  shows "\<exists>ws'. is_match compiled value ws = Inr (token_match ts value, ws') \<and>
    workspace_ready compiled ws'"
proof (cases compiled)
  case (Contains p)
  have "token_match (Any # seg p) value \<longleftrightarrow> sublist p value"
    by (auto simp: seg_def token_match_Any suffix_def sublist_def)
  then show ?thesis using assms Contains
    by (simp add: compiled_means_def str_find_None del: not_None_eq)
next
  case (Prefix p)
  then show ?thesis using assms by (auto simp: compiled_means_def seg_def prefix_def)
next
  case (Suffix p)
  then show ?thesis using assms by (simp add: compiled_means_def token_match_Any)
qed (use assms in \<open>auto simp: compiled_means_def segments_match_correct
       dest: workspace_matches_correct [of _ ws "value"]\<close>)

lemma compiled_new_cases:
  assumes "str_ok pattern"
  obtains (rejected) "\<not> pattern_complete escape pattern"
      "compiled_new pattern escape = Inl InvalidArgument"
  | (accepted) compiled ts where "pattern_complete escape pattern"
      "compiled_new pattern escape = Inr compiled" "compiled_means compiled ts"
      "\<And>s. token_match ts s \<longleftrightarrow> like_spec escape pattern s"
      "workspace_ready compiled (match_workspace_new (wildcard_tokens compiled))"
proof (cases rule: like_tokens_cases [of escape pattern])
  case incomplete
  then show ?thesis using rejected by (simp add: compiled_new_def)
next
  case (complete ts)
  have shape: "collapsed ts" "length ts \<le> length pattern"
    using like_tokens_loop_shape [of escape pattern "[]" ts] complete(2)
    by (simp_all add: like_tokens_def collapsed_def)
  then have short: "length ts < u64_max"
    using assms length_le_str_len [of pattern] by (simp add: str_ok_def)
  note means = like_tokens_match [OF complete(2)]
  show ?thesis
  proof (cases "One \<in> set ts")
    case True
    then have "compiled_new pattern escape = Inr (Wildcard ts)"
      using complete(2) by (simp add: compiled_new_def)
    then show ?thesis
      using accepted [OF complete(1) _ _ means] match_workspace_new_fits [OF short] by (simp add: compiled_means_def)
  next
    case False
    then obtain compiled where "from_literal_segments ts = Inr compiled" "compiled_means compiled ts"
      using from_literal_segments_means [OF shape(1)] by blast
    moreover have "workspace_ready compiled (match_workspace_new (wildcard_tokens compiled))"
      using \<open>compiled_means compiled ts\<close> match_workspace_new_fits [OF short]
      by (cases compiled) (simp_all add: compiled_means_def)
    moreover have "compiled_new pattern escape = from_literal_segments ts"
      using complete(2) False by (simp add: compiled_new_def)
    ultimately show ?thesis using accepted [OF complete(1) _ _ means] by simp
  qed
qed

lemma like_matches_spec:
  assumes "str_ok value" and "str_ok pattern"
  shows "like_matches value pattern escape =
    (if pattern_complete escape pattern then Inr (like_spec escape pattern value)
     else Inl InvalidArgument)"
proof (cases rule: compiled_new_cases [OF assms(2), of escape])
  case (2 compiled ts)
  then show ?thesis
    using is_match_correct [OF 2(3) assms(1) 2(5)] by (auto simp: like_matches_def)
qed (simp add: like_matches_def)

section \<open>The path for literal patterns\<close>

lemma literal_steps:
  assumes "compiled_means compiled ts" and "\<And>s. token_match ts s \<longleftrightarrow> like_spec escape pattern s"
    and "workspace_ready compiled ws" and "\<And>v. Some v \<in> set values \<Longrightarrow> str_ok v"
  shows "\<exists>ws'. try_fold (literal_step compiled negated) (out, ws) values =
    Inr (out @ map (map_option (\<lambda>v. like_spec escape pattern v \<noteq> negated)) values, ws')"
  using assms(3,4)
proof (induction "values" arbitrary: out ws)
  case (Cons cell "values")
  show ?case
  proof (cases cell)
    case None
    then show ?thesis
      using Cons.IH [of ws "out @ [None]"] Cons.prems by (simp add: literal_step_def)
  next
    case (Some v)
    obtain ws1 where "is_match compiled v ws = Inr (like_spec escape pattern v, ws1)"
      and "workspace_ready compiled ws1"
      using is_match_correct [OF assms(1) _ Cons.prems(1), of v] Cons.prems(2) [of v] Some assms(2)
      by auto
    then show ?thesis
      using Cons.IH [of ws1 "out @ [Some (like_spec escape pattern v \<noteq> negated)]"] Cons.prems(2) Some
      by (simp add: literal_step_def)
  qed
qed simp

lemma like_rows:
  assumes "str_ok pattern" and "\<And>v. Some v \<in> set values \<Longrightarrow> str_ok v"
    and "k + length values \<le> n"
  shows "collect_results (map (like_row (replicate n (Some pattern)) negated escape) (enumerate k values)) =
    (if pattern_complete escape pattern \<or> set values \<subseteq> {None}
     then Inr (map (map_option (\<lambda>v. like_spec escape pattern v \<noteq> negated)) values)
     else Inl InvalidArgument)"
  using assms(2,3)
proof (induction "values" arbitrary: k)
  case (Cons cell "values")
  show ?case
  proof (cases cell)
    case None
    then show ?thesis using Cons.IH [of "Suc k"] Cons.prems by (simp add: like_row_def)
  next
    case (Some v)
    have row: "like_row (replicate n (Some pattern)) negated escape (k, cell) =
        (if pattern_complete escape pattern
         then Inr (Some (like_spec escape pattern v \<noteq> negated)) else Inl InvalidArgument)"
      using Some Cons.prems like_matches_spec [OF _ assms(1), of v escape]
      by (simp add: like_row_def)
    then show ?thesis using Cons.IH [of "Suc k"] Cons.prems Some by simp
  qed
qed simp

lemma like_evaluate_literal_spec:
  assumes "str_ok pattern" and "\<And>v. Some v \<in> set values \<Longrightarrow> str_ok v"
  shows "like_evaluate_literal (StringArray values) pattern negated escape =
    (if pattern_complete escape pattern \<or> set values \<subseteq> {None}
     then Inr (map (map_option (\<lambda>v. like_spec escape pattern v \<noteq> negated)) values)
     else Inl InvalidArgument)"
proof (cases "set values \<subseteq> {None}")
  case True
  then have "filter (\<lambda>v. v = None) values = values" by (auto simp: filter_id_conv)
  moreover have "map (map_option (\<lambda>v. like_spec escape pattern v \<noteq> negated)) values =
      replicate (length values) None"
    using True by (induction "values") auto
  ultimately show ?thesis using True by (simp add: like_evaluate_literal_def)
next
  case False
  then have "length (filter (\<lambda>v. v = None) values) \<noteq> length values"
    by (auto simp: filter_id_conv length_filter_less dest: length_filter_less)
  then have run: "like_evaluate_literal (StringArray values) pattern negated escape =
      bindr (compiled_new pattern escape) (\<lambda>compiled.
      bindr (try_fold (literal_step compiled negated)
        ([], match_workspace_new (wildcard_tokens compiled)) values) (\<lambda>(out, _). Inr out))"
    by (simp add: like_evaluate_literal_def)
  show ?thesis
  proof (cases rule: compiled_new_cases [OF assms(1), of escape])
    case (2 compiled ts)
    obtain ws' where "try_fold (literal_step compiled negated)
        ([], match_workspace_new (wildcard_tokens compiled)) values =
        Inr (map (map_option (\<lambda>v. like_spec escape pattern v \<noteq> negated)) values, ws')"
      using literal_steps [OF 2(3-5), of "values" negated "[]"] assms(2) by auto
    then show ?thesis using 2(1,2) run by simp
  qed (use False run in simp)
qed

end
