(* ===== verification/Exact_Decimal.thy ===== *)
theory Exact_Decimal
  imports Decimal Catalog_Name "HOL-Library.Signed_Division"
begin

text \<open>
  Exact decimals: how \<open>DECIMAL\<close> literals are read and printed (\<open>src/sql/literal.rs\<close>,
  \<open>src/sql/expr.rs\<close>), the types the binder gives to comparisons and arithmetic
  (\<open>src/sql/coercion.rs\<close>), the optimizer's constant folding on decimals
  (\<open>src/optimizer/constant.rs\<close>), and the comparison the executor uses when two scales differ
  (\<open>src/execution/expr.rs\<close>).  A decimal is an \<open>i128\<close> and a scale; \<open>i128\<close>, \<open>i64\<close> and \<open>i8\<close> are
  integers with the range checks of the source, \<open>u8\<close> precisions are natural numbers.
\<close>

section \<open>Machine integers\<close>

definition in_signed :: "nat \<Rightarrow> int \<Rightarrow> bool" where
  "in_signed w v \<longleftrightarrow> - (2 ^ (w - 1)) \<le> v \<and> v < 2 ^ (w - 1)"

definition checked_signed :: "nat \<Rightarrow> int \<Rightarrow> int option" where
  "checked_signed w v = (if in_signed w v then Some v else None)"

definition checked_sdiv :: "nat \<Rightarrow> int \<Rightarrow> int \<Rightarrow> int option" where
  "checked_sdiv w a b = (if b = 0 then None else checked_signed w (a sdiv b))"

text \<open>\<open>checked_rem\<close> fails where the division would.\<close>

definition checked_srem :: "nat \<Rightarrow> int \<Rightarrow> int \<Rightarrow> int option" where
  "checked_srem w a b = (if b = 0 \<or> \<not> in_signed w (a sdiv b) then None else Some (a smod b))"

definition as_u8 :: "int \<Rightarrow> nat" where
  "as_u8 v = nat (v mod 256)"

definition sat_i8 :: "int \<Rightarrow> int" where
  "sat_i8 v = max (- 128) (min 127 v)"

definition sat_u8 :: "nat \<Rightarrow> nat" where
  "sat_u8 n = min 255 n"

section \<open>Types and values\<close>

text \<open>The Arrow types that the operations below tell apart.\<close>

datatype expr_type =
    TInt8 | TInt16 | TInt32 | TInt64 | TUInt8 | TUInt16 | TUInt32 | TUInt64
  | TDecimal128 nat int
  | TOther

datatype binary_op =
    Eq | NotEq | Lt | LtEq | Gt | GtEq | And | Or | Add | Subtract | Multiply | Divide | Modulo

datatype ordering = Less | Equal | Greater

definition reverse :: "ordering \<Rightarrow> ordering" where
  "reverse c = (case c of Less \<Rightarrow> Greater | Equal \<Rightarrow> Equal | Greater \<Rightarrow> Less)"

definition cmp :: "'a::linorder \<Rightarrow> 'a \<Rightarrow> ordering" where
  "cmp a b = (if a < b then Less else if a = b then Equal else Greater)"

text \<open>A decimal scalar (\<open>ScalarValue::Decimal128\<close>).\<close>

record decimal128 =
  d_value :: int
  d_precision :: nat
  d_scale :: int

section \<open>Literals\<close>

definition parse_i128 :: "string \<Rightarrow> int option" where
  "parse_i128 digits =
     (if digits \<noteq> [] \<and> list_all is_ascii_digit digits
      then checked_signed 128 (int (dec_value digits)) else None)"

definition parse_decimal :: "string \<Rightarrow> (db_error, decimal128) result" where
  "parse_decimal value =
     bindr (ok_or (split_once (CHR ''.'') value) Internal) (\<lambda>(integer, fraction).
     bindr (ensure (\<not> ((integer \<noteq> [] \<and> \<not> list_all is_ascii_digit integer) \<or>
              \<not> list_all is_ascii_digit fraction)) InvalidArgument) (\<lambda>_.
     bindr (ensure (length fraction \<le> 127) InvalidArgument) (\<lambda>_.
     let scale = int (length fraction);
         integer_digits = length (dropWhile (\<lambda>c. c = CHR ''0'') integer);
         precision = max (saturating_add integer_digits (length fraction)) 1 in
     bindr (ensure (precision \<le> 255) InvalidArgument) (\<lambda>_.
     bindr (ensure (\<not> (precision > 38 \<or> scale > 38)) InvalidArgument) (\<lambda>_.
     let digits = integer @ fraction in
     bindr (if digits = [] then Inr 0 else ok_or (parse_i128 digits) InvalidArgument) (\<lambda>raw.
     Inr \<lparr>d_value = raw, d_precision = precision, d_scale = scale\<rparr>))))))"

definition show_int :: "int \<Rightarrow> string" where
  "show_int v = (if v < 0 then CHR ''-'' # show_nat (nat (- v)) else show_nat (nat v))"

definition format_decimal :: "int \<Rightarrow> int \<Rightarrow> string" where
  "format_decimal value scale =
     (if scale \<le> 0 then show_int value
      else
        let digits = show_nat (nat \<bar>value\<bar>);
            scale = nat scale;
            digits = (if length digits \<le> scale
                      then replicate (scale + 1 - length digits) (CHR ''0'') @ digits else digits);
            split = length digits - scale;
            digits = take split digits @ CHR ''.'' # drop split digits in
        if value < 0 then CHR ''-'' # digits else digits)"

section \<open>Types of expressions\<close>

text \<open>The SQL type \<open>DECIMAL\<close>, \<open>DECIMAL(p)\<close> or \<open>DECIMAL(p, s)\<close>.\<close>

datatype exact_number_info = NoInfo | Precision nat | PrecisionAndScale nat int

definition decimal_type :: "exact_number_info \<Rightarrow> (db_error, expr_type) result" where
  "decimal_type info =
     (let (precision, scale) = (case info of
            NoInfo \<Rightarrow> (18, 3)
          | Precision p \<Rightarrow> (p, 0)
          | PrecisionAndScale p s \<Rightarrow> (p, s)) in
      if \<not> (1 \<le> precision \<and> precision \<le> 38) \<or> scale < 0 \<or> scale > int precision
      then Inl InvalidArgument
      else Inr (TDecimal128 precision scale))"

fun decimal_parts :: "expr_type \<Rightarrow> (db_error, nat \<times> int) result" where
  "decimal_parts (TDecimal128 precision scale) = Inr (precision, scale)"
| "decimal_parts _ = Inl Internal"

fun decimal_digits_loop :: "nat \<Rightarrow> nat \<Rightarrow> nat" where
  "decimal_digits_loop value digits =
     (if value \<ge> 10 then decimal_digits_loop (value div 10) (digits + 1) else digits)"

declare decimal_digits_loop.simps [simp del]

definition decimal_digits :: "nat \<Rightarrow> nat" where
  "decimal_digits value = decimal_digits_loop value 1"

definition lossless_common_decimal ::
  "expr_type \<Rightarrow> expr_type \<Rightarrow> (db_error, expr_type option) result" where
  "lossless_common_decimal left right =
     bindr (decimal_parts left) (\<lambda>(left_precision, left_scale).
     bindr (decimal_parts right) (\<lambda>(right_precision, right_scale).
     let scale = max left_scale right_scale;
         integer = max (int left_precision - left_scale) (int right_precision - right_scale);
         precision = scale + integer in
     Inr (if precision > 38 then None else Some (TDecimal128 (as_u8 (max precision 1)) scale))))"

definition common_decimal :: "expr_type \<Rightarrow> expr_type \<Rightarrow> (db_error, expr_type) result" where
  "common_decimal left right =
     bindr (lossless_common_decimal left right) (\<lambda>t. ok_or t InvalidArgument)"

fun integer_decimal_type :: "expr_type \<Rightarrow> (db_error, expr_type) result" where
  "integer_decimal_type TInt8 = Inr (TDecimal128 3 0)"
| "integer_decimal_type TInt16 = Inr (TDecimal128 5 0)"
| "integer_decimal_type TInt32 = Inr (TDecimal128 10 0)"
| "integer_decimal_type TInt64 = Inr (TDecimal128 19 0)"
| "integer_decimal_type TUInt8 = Inr (TDecimal128 3 0)"
| "integer_decimal_type TUInt16 = Inr (TDecimal128 5 0)"
| "integer_decimal_type TUInt32 = Inr (TDecimal128 10 0)"
| "integer_decimal_type TUInt64 = Inr (TDecimal128 20 0)"
| "integer_decimal_type _ = Inl Internal"

text \<open>The scale of a quotient is computed in \<open>i8\<close>; leaving its range is an overflow.\<close>

definition decimal_arithmetic_type ::
  "expr_type \<Rightarrow> expr_type \<Rightarrow> binary_op \<Rightarrow> (db_error, expr_type) result" where
  "decimal_arithmetic_type left right op =
     bindr (decimal_parts left) (\<lambda>(left_precision, left_scale).
     bindr (decimal_parts right) (\<lambda>(right_precision, right_scale).
     bindr (case op of
         Add \<Rightarrow> (let scale = max left_scale right_scale;
                      integer = max (int left_precision - left_scale) (int right_precision - right_scale) in
                  Inr (as_u8 (min (scale + integer + 1) 38), scale))
       | Subtract \<Rightarrow> (let scale = max left_scale right_scale;
                      integer = max (int left_precision - left_scale) (int right_precision - right_scale) in
                  Inr (as_u8 (min (scale + integer + 1) 38), scale))
       | Multiply \<Rightarrow> (let scale = sat_i8 (left_scale + right_scale) in
                  if scale > 38 then Inl InvalidArgument
                  else Inr (min (sat_u8 (left_precision + sat_u8 (right_precision + 1))) 38, scale))
       | Divide \<Rightarrow> (let scale = min (sat_i8 (left_scale + 4)) 38;
                       multiplier = scale - left_scale + right_scale in
                  bindr (ensure (in_signed 8 (scale - left_scale) \<and> in_signed 8 multiplier) Panic) (\<lambda>_.
                  Inr (as_u8 (min (int (as_u8 multiplier) + int left_precision) 38), scale)))
       | Modulo \<Rightarrow> (let scale = max left_scale right_scale;
                      integer = min (int left_precision - left_scale) (int right_precision - right_scale) in
                  Inr (as_u8 (min (scale + integer) 38), scale))
       | _ \<Rightarrow> Inl Internal) (\<lambda>(precision, scale).
     Inr (TDecimal128 precision scale))))"

section \<open>Constant folding\<close>

text \<open>\<open>(0..exponent).try_fold(1, |value, _| value.checked_mul(10))\<close>.\<close>

fun power_of_ten :: "nat \<Rightarrow> int option" where
  "power_of_ten 0 = Some 1"
| "power_of_ten (Suc n) = Option.bind (power_of_ten n) (\<lambda>v. checked_signed 128 (v * 10))"

definition scale_by_power :: "int \<Rightarrow> int \<Rightarrow> int option" where
  "scale_by_power value exponent =
     Option.bind (power_of_ten (nat \<bar>exponent\<bar>)) (\<lambda>factor.
       if exponent \<ge> 0 then checked_signed 128 (value * factor)
       else checked_sdiv 128 value factor)"

definition rescale :: "int \<Rightarrow> int \<Rightarrow> int \<Rightarrow> int option" where
  "rescale value source target = scale_by_power value (target - source)"

fun fits_precision_loop :: "nat \<Rightarrow> nat \<Rightarrow> nat" where
  "fits_precision_loop value digits =
     (if value \<ge> 10 then fits_precision_loop (value div 10) (sat_u8 (digits + 1)) else digits)"

declare fits_precision_loop.simps [simp del]

definition fits_precision :: "int \<Rightarrow> nat \<Rightarrow> bool" where
  "fits_precision value precision \<longleftrightarrow> fits_precision_loop (nat \<bar>value\<bar>) 1 \<le> precision"

definition decimal_value :: "int \<Rightarrow> int \<Rightarrow> nat \<Rightarrow> int \<Rightarrow> decimal128 option" where
  "decimal_value value source_scale precision scale =
     Option.bind (rescale value source_scale scale) (\<lambda>value.
       if fits_precision value precision
       then Some \<lparr>d_value = value, d_precision = precision, d_scale = scale\<rparr> else None)"

definition decimal_arithmetic ::
  "int \<Rightarrow> int \<Rightarrow> binary_op \<Rightarrow> int \<Rightarrow> int \<Rightarrow> expr_type \<Rightarrow> decimal128 option" where
  "decimal_arithmetic left left_scale op right right_scale output_type =
     (case output_type of
        TDecimal128 precision output_scale \<Rightarrow>
          Option.bind (case op of
              Add \<Rightarrow> Option.bind (rescale left left_scale output_scale) (\<lambda>a.
                      Option.bind (rescale right right_scale output_scale) (\<lambda>b.
                        checked_signed 128 (a + b)))
            | Subtract \<Rightarrow> Option.bind (rescale left left_scale output_scale) (\<lambda>a.
                      Option.bind (rescale right right_scale output_scale) (\<lambda>b.
                        checked_signed 128 (a - b)))
            | Multiply \<Rightarrow> Option.bind (checked_signed 128 (left * right)) (\<lambda>v.
                      Option.bind (checked_signed 8 (left_scale + right_scale)) (\<lambda>s.
                        rescale v s output_scale))
            | Divide \<Rightarrow> (if right = 0 then None
                      else Option.bind (scale_by_power left (output_scale + right_scale - left_scale))
                             (\<lambda>a. checked_sdiv 128 a right))
            | Modulo \<Rightarrow> (if right = 0 then None
                      else Option.bind (rescale left left_scale output_scale) (\<lambda>a.
                           Option.bind (rescale right right_scale output_scale) (\<lambda>b.
                             checked_srem 128 a b)))
            | _ \<Rightarrow> None) (\<lambda>value.
          if fits_precision value precision
          then Some \<lparr>d_value = value, d_precision = precision, d_scale = output_scale\<rparr> else None)
      | _ \<Rightarrow> None)"

text \<open>The decimal cases of the folder's \<open>equal\<close> and \<open>compare\<close>: the raw values, whatever the scales.\<close>

definition fold_equal :: "decimal128 \<Rightarrow> decimal128 \<Rightarrow> bool" where
  "fold_equal left right \<longleftrightarrow> d_value left = d_value right"

definition fold_compare :: "decimal128 \<Rightarrow> decimal128 \<Rightarrow> ordering" where
  "fold_compare left right = cmp (d_value left) (d_value right)"

section \<open>Execution\<close>

definition compare_digits :: "string \<Rightarrow> string \<Rightarrow> ordering" where
  "compare_digits left right =
     (let width = max (length left) (length right);
          pairs = take width (zip (left @ replicate width (CHR ''0''))
                                  (right @ replicate width (CHR ''0''))) in
      case find (\<lambda>(a, b). a \<noteq> b) pairs of
        None \<Rightarrow> Equal
      | Some (a, b) \<Rightarrow> cmp a b)"

definition compare_decimal_magnitudes :: "nat \<Rightarrow> int \<Rightarrow> nat \<Rightarrow> int \<Rightarrow> ordering" where
  "compare_decimal_magnitudes left left_scale right right_scale =
     (if left = 0 \<or> right = 0 then cmp left right
      else
        let left_digits = show_nat left; right_digits = show_nat right;
            left_exponent = int (length left_digits) - left_scale;
            right_exponent = int (length right_digits) - right_scale in
        case cmp left_exponent right_exponent of
          Equal \<Rightarrow> compare_digits left_digits right_digits
        | c \<Rightarrow> c)"

definition compare_decimal_values :: "int \<Rightarrow> int \<Rightarrow> int \<Rightarrow> int \<Rightarrow> ordering" where
  "compare_decimal_values left left_scale right right_scale =
     (case (left < 0, right < 0) of
        (True, False) \<Rightarrow> Less
      | (False, True) \<Rightarrow> Greater
      | (False, False) \<Rightarrow>
          compare_decimal_magnitudes (nat \<bar>left\<bar>) left_scale (nat \<bar>right\<bar>) right_scale
      | (True, True) \<Rightarrow>
          reverse (compare_decimal_magnitudes (nat \<bar>left\<bar>) left_scale (nat \<bar>right\<bar>) right_scale))"

text \<open>One row of the comparison of two columns; a missing operand gives a missing result.\<close>

definition compare_row :: "binary_op \<Rightarrow> int option \<Rightarrow> int \<Rightarrow> int option \<Rightarrow> int \<Rightarrow> (db_error, bool option) result" where
  "compare_row op left left_scale right right_scale =
     (case (left, right) of
        (Some a, Some b) \<Rightarrow>
          (let c = compare_decimal_values a left_scale b right_scale in
           case op of
             Eq \<Rightarrow> Inr (Some (c = Equal))
           | NotEq \<Rightarrow> Inr (Some (c \<noteq> Equal))
           | Lt \<Rightarrow> Inr (Some (c = Less))
           | LtEq \<Rightarrow> Inr (Some (c \<noteq> Greater))
           | Gt \<Rightarrow> Inr (Some (c = Greater))
           | GtEq \<Rightarrow> Inr (Some (c \<noteq> Less))
           | _ \<Rightarrow> Inl Panic)
      | _ \<Rightarrow> Inr None)"

text \<open>A decimal column: its scale and its cells.\<close>

datatype decimal_array = DecimalArray int "int option list" | NotDecimal

definition compare_decimals ::
  "binary_op \<Rightarrow> decimal_array \<Rightarrow> decimal_array \<Rightarrow> (db_error, bool option list) result" where
  "compare_decimals op left right =
     (case (left, right) of
        (DecimalArray left_scale xs, DecimalArray right_scale ys) \<Rightarrow>
          bindr (ensure (length xs = length ys) Internal) (\<lambda>_.
          collect_results (map (\<lambda>(a, b). compare_row op a left_scale b right_scale) (zip xs ys)))
      | _ \<Rightarrow> Inl Internal)"

end
