(* ===== verification/Decimal_Correct.thy ===== *)
theory Decimal_Correct
  imports Complex_Main Exact_Decimal
begin

text \<open>
  Exact decimals against the rational numbers they stand for: the executor's comparison is the
  comparison of the numbers, the types the binder computes stay within 38 digits, and the common
  type of two operands holds both without loss.
\<close>

section \<open>The number a decimal stands for\<close>

definition dec :: "int \<Rightarrow> int \<Rightarrow> rat" where
  "dec v s = of_int v * 10 powi (- s)"

lemma power10_pos [simp]: "0 < (10 :: rat) powi e"
  by (simp add: zero_less_power_int)

lemma power10_add: "(10 :: rat) powi (a + b) = 10 powi a * 10 powi b"
  by (simp add: power_int_add)

lemma dec_scale: "dec (v * 10 ^ k) (s + int k) = dec v s"
proof -
  have "(10 :: rat) ^ k * 10 powi (- (s + int k)) = 10 powi (int k + - (s + int k))"
    unfolding power10_add by simp
  also have "int k + - (s + int k) = - s" by simp
  finally show ?thesis by (simp add: dec_def mult.assoc)
qed

lemma dec_up: "s \<le> t \<Longrightarrow> dec (v * 10 ^ nat (t - s)) t = dec v s"
  using dec_scale [of v "nat (t - s)" s] by simp

lemma dec_add: "dec (a + b) s = dec a s + dec b s" and dec_diff: "dec (a - b) s = dec a s - dec b s"
  and dec_mult: "dec (a * b) (s + t) = dec a s * dec b t"
  and dec_scaled: "dec (k * a) s = of_int k * dec a s" and dec_0 [simp]: "dec 0 s = 0"
proof -
  show "dec (a * b) (s + t) = dec a s * dec b t"
    using power10_add [of "- s" "- t"] by (simp add: dec_def algebra_simps)
qed (simp_all add: dec_def algebra_simps)

lemma dec_less_iff [simp]: "dec a s < dec b s \<longleftrightarrow> a < b" and dec_eq_iff [simp]: "dec a s = dec b s \<longleftrightarrow> a = b"
  by (simp_all add: dec_def)

lemma dec_sign [simp]: "dec a s < 0 \<longleftrightarrow> a < 0" "0 < dec a s \<longleftrightarrow> 0 < a" "dec a s = 0 \<longleftrightarrow> a = 0"
  using dec_less_iff [of a s 0] dec_less_iff [of 0 s a] dec_eq_iff [of a s 0] by simp_all

lemma dec_abs: "\<bar>dec a s\<bar> = dec \<bar>a\<bar> s"
  by (simp add: dec_def abs_mult)

section \<open>Digits\<close>

lemma show_nat_upper: "n < 10 ^ length (show_nat n)"
  using dec_value_bound [OF show_nat_digits, of n] by (simp add: dec_value_show)

lemma show_nat_lower: "0 < n \<Longrightarrow> 10 ^ (length (show_nat n) - 1) \<le> n"
proof (rule ccontr)
  assume "0 < n" and small: "\<not> 10 ^ (length (show_nat n) - 1) \<le> n"
  then obtain k where k: "length (show_nat n) - 1 = Suc k"
    by (cases "length (show_nat n) - 1") auto
  then have "length (show_nat n) \<le> Suc k" using length_show_nat [of n k] small by simp
  with k show False by simp
qed

lemma length_show_nat_iff: "1 \<le> p \<Longrightarrow> length (show_nat n) \<le> p \<longleftrightarrow> n < 10 ^ p"
proof
  assume "length (show_nat n) \<le> p"
  then show "n < 10 ^ p"
    using less_le_trans [OF show_nat_upper [of n] power_increasing [of "length (show_nat n)" p "10 :: nat"]]
    by simp
next
  assume "1 \<le> p" and "n < 10 ^ p"
  then show "length (show_nat n) \<le> p" using length_show_nat [of n "p - 1"] by simp
qed

lemma show_nat_pos [simp]: "1 \<le> length (show_nat n)"
  using show_nat_nonempty [of n] by (cases "show_nat n") auto

lemma show_nat_length:
  obtains k where "length (show_nat n) = Suc k"
  using show_nat_nonempty [of n] by (cases "show_nat n") auto

lemma length_show_nat_rec:
  "length (show_nat n) = (if n \<ge> 10 then Suc (length (show_nat (n div 10))) else 1)"
  by (subst show_nat.simps) simp

lemma decimal_digits_show: "decimal_digits n = length (show_nat n)"
proof -
  have "decimal_digits_loop n d = d + (length (show_nat n) - 1)" for d
  proof (induction n d rule: decimal_digits_loop.induct)
    case (1 n d)
    obtain k where "length (show_nat (n div 10)) = Suc k" by (rule show_nat_length)
    with 1 show ?case
      by (subst decimal_digits_loop.simps) (simp add: length_show_nat_rec [of n])
  qed
  moreover obtain k where "length (show_nat n) = Suc k" by (rule show_nat_length)
  ultimately show ?thesis by (simp add: decimal_digits_def)
qed

lemma fits_precision_loop_show:
  "d \<le> 255 \<Longrightarrow> fits_precision_loop n d = sat_u8 (d + (length (show_nat n) - 1))"
proof (induction n d rule: fits_precision_loop.induct)
  case (1 n d)
  show ?case
  proof (cases "10 \<le> n")
    case True
    obtain k where k: "length (show_nat (n div 10)) = Suc k" by (rule show_nat_length)
    have "fits_precision_loop n d = fits_precision_loop (n div 10) (sat_u8 (d + 1))"
      using True by (subst fits_precision_loop.simps) simp
    also have "\<dots> = sat_u8 (sat_u8 (d + 1) + (length (show_nat (n div 10)) - 1))"
      using 1(1) [OF True] by (simp add: sat_u8_def)
    also have "\<dots> = sat_u8 (d + (length (show_nat n) - 1))"
      using True k by (simp add: sat_u8_def length_show_nat_rec [of n])
    finally show ?thesis .
  next
    case False
    then show ?thesis using 1(2)
      by (subst fits_precision_loop.simps) (simp add: sat_u8_def length_show_nat_rec [of n])
  qed
qed

lemma fits_precision_iff:
  assumes "1 \<le> p" and "p < 255"
  shows "fits_precision v p \<longleftrightarrow> \<bar>v\<bar> < 10 ^ p"
proof -
  obtain k where "length (show_nat (nat \<bar>v\<bar>)) = Suc k" by (rule show_nat_length)
  then have "fits_precision v p \<longleftrightarrow> length (show_nat (nat \<bar>v\<bar>)) \<le> p"
    using assms by (auto simp: fits_precision_def fits_precision_loop_show sat_u8_def)
  also have "\<dots> \<longleftrightarrow> nat \<bar>v\<bar> < 10 ^ p" by (rule length_show_nat_iff [OF assms(1)])
  finally show ?thesis by (simp add: nat_less_iff)
qed

section \<open>Comparison in the executor\<close>

lemma cmp_scale: "0 < k \<Longrightarrow> cmp (a * k) (b * k) = cmp a (b :: rat)"
  by (simp add: cmp_def)

lemma cmp_dec [simp]: "cmp (dec a s) (dec b s) = cmp a b"
  by (simp add: cmp_def)

lemma cmp_of_nat: "cmp (of_nat a :: rat) (of_nat b) = cmp a b"
  by (simp add: cmp_def)

lemma cmp_uminus: "reverse (cmp a b) = cmp (- a) (- b)" for a b :: rat
  by (auto simp: cmp_def reverse_def)

lemma cmp_find_diff:
  assumes "length xs = length ys"
  shows "(case find (\<lambda>(a, b). a \<noteq> b) (zip xs ys) of None \<Rightarrow> Equal | Some (a, b) \<Rightarrow> cmp a b) = cmp xs ys"
  using assms by (induction xs ys rule: list_induct2) (auto simp: cmp_def)

lemma zero_char: "CHR ''0'' = digit_char 0"
  by (simp add: digit_char_def char_of_def bit_0)

lemma dec_value_trailing_zeros: "dec_value (s @ replicate k (digit_char 0)) = dec_value s * 10 ^ k"
  by (induction k) (simp_all add: replicate_append_same [symmetric] flip: append_assoc)

lemma compare_digits_value:
  fixes m n :: nat
  defines "w \<equiv> max (length (show_nat m)) (length (show_nat n))"
  shows "compare_digits (show_nat m) (show_nat n) =
    cmp (m * 10 ^ (w - length (show_nat m))) (n * 10 ^ (w - length (show_nat n)))"
proof -
  define pad where "pad k = show_nat k @ replicate (w - length (show_nat k)) (digit_char 0)" for k
  have take: "take w (show_nat k @ replicate w (digit_char 0)) = pad k"
    if "length (show_nat k) \<le> w" for k using that by (simp add: pad_def)
  have pads: "length (pad m) = w" "length (pad n) = w" by (simp_all add: pad_def w_def)
  have digits: "list_all is_ascii_digit (pad k)" for k
    using show_nat_digits [of k] by (auto simp: pad_def list_all_iff)
  have "compare_digits (show_nat m) (show_nat n) = cmp (pad m) (pad n)"
    using take [of m] take [of n] pads cmp_find_diff [of "pad m" "pad n"]
    by (simp add: compare_digits_def zero_char take_zip flip: w_def) (simp add: w_def)
  also have "\<dots> = cmp (dec_value (pad m)) (dec_value (pad n))"
    using digit_strings_order [of "pad m" "pad n"] digit_strings_order [of "pad n" "pad m"]
      pads digits by (auto simp: cmp_def)
  finally show ?thesis by (simp add: pad_def dec_value_trailing_zeros dec_value_show)
qed

lemma magnitude_bounds:
  assumes "0 < n"
  shows "(10 :: rat) powi (int (length (show_nat n)) - 1 - s) \<le> dec (int n) s"
    and "dec (int n) s < (10 :: rat) powi (int (length (show_nat n)) - s)"
proof -
  define L where "L = length (show_nat n)"
  have "1 \<le> L" unfolding L_def by (rule show_nat_pos)
  have "(10 :: rat) ^ (L - 1) \<le> of_nat n" "of_nat n < (10 :: rat) ^ L"
    using show_nat_lower [OF assms] show_nat_upper [of n] unfolding L_def
    by (metis of_nat_le_iff of_nat_numeral of_nat_power, metis of_nat_less_iff of_nat_numeral of_nat_power)
  then have "(10 :: rat) powi (int (L - 1)) * 10 powi (- s) \<le> dec (int n) s"
    "dec (int n) s < (10 :: rat) powi int L * 10 powi (- s)"
    by (simp_all add: dec_def)
  then have "(10 :: rat) powi (int (L - 1) + - s) \<le> dec (int n) s"
    "dec (int n) s < (10 :: rat) powi (int L + - s)"
    unfolding power10_add by auto
  then show "(10 :: rat) powi (int (length (show_nat n)) - 1 - s) \<le> dec (int n) s"
    "dec (int n) s < (10 :: rat) powi (int (length (show_nat n)) - s)"
    using \<open>1 \<le> L\<close> by (simp_all add: L_def of_nat_diff)
qed

lemma smaller_exponent:
  assumes "0 < m" and "0 < n"
    and "int (length (show_nat m)) - s < int (length (show_nat n)) - t"
  shows "dec (int m) s < dec (int n) t"
proof -
  have "dec (int m) s < 10 powi (int (length (show_nat m)) - s)" by (rule magnitude_bounds [OF assms(1)])
  also have "\<dots> \<le> 10 powi (int (length (show_nat n)) - 1 - t)"
    using assms(3) by (intro power_int_increasing) simp_all
  also have "\<dots> \<le> dec (int n) t" by (rule magnitude_bounds [OF assms(2)])
  finally show ?thesis .
qed

lemma compare_magnitudes_exact:
  "compare_decimal_magnitudes m s n t = cmp (dec (int m) s) (dec (int n) t)"
proof (cases "m = 0 \<or> n = 0")
  case True
  then show ?thesis by (auto simp: compare_decimal_magnitudes_def cmp_def)
next
  case False
  then have pos: "0 < m" "0 < n" by simp_all
  define L M where "L = length (show_nat m)" and "M = length (show_nat n)"
  define w where "w = max L M"
  consider "int L - s < int M - t" | "int M - t < int L - s" | "int L - s = int M - t" by linarith
  then show ?thesis
  proof cases
    case 1
    then show ?thesis using smaller_exponent [OF pos, of s t] False
      by (simp add: compare_decimal_magnitudes_def cmp_def L_def M_def)
  next
    case 2
    then show ?thesis using smaller_exponent [OF pos(2,1), of t s] False
      by (simp add: compare_decimal_magnitudes_def cmp_def L_def M_def)
  next
    case 3
    have "dec (int m) s = dec (int (m * 10 ^ (w - L))) (s + int (w - L))"
      and "dec (int n) t = dec (int (n * 10 ^ (w - M))) (t + int (w - M))"
      by (simp_all add: dec_scale)
    moreover have "s + int (w - L) = t + int (w - M)" using 3 by (simp add: w_def of_nat_diff)
    moreover have "cmp (int a) (int b) = cmp a b" for a b by (simp add: cmp_def)
    ultimately have "cmp (dec (int m) s) (dec (int n) t) = cmp (m * 10 ^ (w - L)) (n * 10 ^ (w - M))"
      by (simp only: cmp_dec)
    also have "\<dots> = compare_digits (show_nat m) (show_nat n)"
      unfolding compare_digits_value w_def L_def M_def ..
    finally show ?thesis using 3 False
      by (simp add: compare_decimal_magnitudes_def cmp_def [of "int _ - s"] L_def M_def)
  qed
qed

lemma compare_decimal_values_dec:
  "compare_decimal_values a s b t = cmp (dec a s) (dec b t)"
proof -
  have neg: "dec (- a) s = - dec a s" for a s by (simp add: dec_def)
  consider "a < 0" "0 \<le> b" | "0 \<le> a" "b < 0" | "0 \<le> a" "0 \<le> b" | "a < 0" "b < 0" by linarith
  then show ?thesis
  proof cases
    case 4
    then show ?thesis
      by (simp add: compare_decimal_values_def compare_magnitudes_exact cmp_uminus neg)
  next
    case 1
    then have "dec a s < dec b t" using dec_sign [of a s] dec_sign [of b t] by linarith
    then show ?thesis using 1 by (simp add: compare_decimal_values_def cmp_def)
  next
    case 2
    then have "dec b t < dec a s" using dec_sign [of a s] dec_sign [of b t] by linarith
    then show ?thesis using 2 by (simp add: compare_decimal_values_def cmp_def)
  qed (simp add: compare_decimal_values_def compare_magnitudes_exact)
qed

section \<open>Types\<close>

definition decimal_bounds :: "nat \<Rightarrow> int \<Rightarrow> bool" where
  "decimal_bounds p s \<longleftrightarrow> 1 \<le> p \<and> p \<le> 38 \<and> 0 \<le> s \<and> s \<le> int p"

lemma as_u8_small: "0 \<le> v \<Longrightarrow> v < 256 \<Longrightarrow> as_u8 v = nat v"
  by (simp add: as_u8_def)

lemma sat_i8_small: "0 \<le> v \<Longrightarrow> v \<le> 127 \<Longrightarrow> sat_i8 v = v"
  by (simp add: sat_i8_def)

lemmas decimal_type_simps = as_u8_small sat_i8_small sat_u8_def in_signed_def

lemma decimal_arithmetic_type_cases:
  assumes "decimal_bounds p1 s1" and "decimal_bounds p2 s2"
    and "decimal_arithmetic_type (TDecimal128 p1 s1) (TDecimal128 p2 s2) op = Inr t"
  obtains (sum) "op = Add \<or> op = Subtract"
      "t = TDecimal128 (nat (min (max s1 s2 + max (int p1 - s1) (int p2 - s2) + 1) 38)) (max s1 s2)"
  | (product) "op = Multiply" "s1 + s2 \<le> 38" "t = TDecimal128 (min (p1 + p2 + 1) 38) (s1 + s2)"
  | (quotient) "op = Divide"
      "t = TDecimal128 (nat (min (min (s1 + 4) 38 - s1 + s2 + int p1) 38)) (min (s1 + 4) 38)"
  | (remainder) "op = Modulo"
      "t = TDecimal128 (nat (min (max s1 s2 + min (int p1 - s1) (int p2 - s2)) 38)) (max s1 s2)"
proof -
  note b = assms(1,2) [unfolded decimal_bounds_def]
  note run = assms(3) [unfolded decimal_arithmetic_type_def decimal_parts.simps bindr_Inr prod.case]
  show ?thesis
  proof (cases op)
    case Add
    then show ?thesis using run b by (intro sum) (auto simp: Let_def as_u8_small)
  next
    case Subtract
    then show ?thesis using run b by (intro sum) (auto simp: Let_def as_u8_small)
  next
    case Multiply
    then have "\<not> 38 < sat_i8 (s1 + s2)" using run b by (auto simp: Let_def split: if_splits)
    moreover have "sat_i8 (s1 + s2) = s1 + s2" using b by (simp add: sat_i8_small)
    ultimately show ?thesis using run b Multiply
      by (intro product) (auto simp: Let_def sat_u8_def min_def split: if_splits)
  next
    case Divide
    then show ?thesis using run b
      by (intro quotient) (auto simp: Let_def as_u8_small sat_i8_small result_simps)
  next
    case Modulo
    then show ?thesis using run b by (intro remainder) (auto simp: Let_def as_u8_small)
  qed (use run in simp_all)
qed

lemma decimal_arithmetic_type_bounds:
  assumes "decimal_bounds p1 s1" and "decimal_bounds p2 s2"
    and "decimal_arithmetic_type (TDecimal128 p1 s1) (TDecimal128 p2 s2) op = Inr t"
  shows "\<exists>p s. t = TDecimal128 p s \<and> decimal_bounds p s"
proof -
  note b = assms(1,2) [unfolded decimal_bounds_def]
  from assms show ?thesis
    by (cases rule: decimal_arithmetic_type_cases) (use b in \<open>auto simp: decimal_bounds_def\<close>)
qed

section \<open>Rescaling\<close>

lemma in_i128: "- (10 ^ 38) \<le> x \<Longrightarrow> x \<le> 10 ^ 38 \<Longrightarrow> in_signed 128 x"
  by (simp add: in_signed_def)

lemma power_of_ten_eq: "power_of_ten n = (if n \<le> 38 then Some (10 ^ n) else None)"
proof (induction n)
  case (Suc n)
  show ?case
  proof (cases "Suc n \<le> 38")
    case True
    have "(10 :: int) ^ Suc n \<le> 10 ^ 38" using True by (intro power_increasing) simp_all
    moreover have "- (10 ^ 38) \<le> (0 :: int)" and "0 \<le> (10 :: int) ^ Suc n" by simp_all
    ultimately have "in_signed 128 (10 ^ Suc n)" by (intro in_i128) (rule order_trans)
    then show ?thesis using True Suc by (simp add: checked_signed_def mult.commute)
  next
    case False
    have "\<not> in_signed 128 (10 ^ 38 * 10)" by (simp add: in_signed_def)
    moreover have "n = 38 \<or> power_of_ten n = None" using False Suc by auto
    ultimately show ?thesis
      using False Suc unfolding power_of_ten.simps by (auto simp: checked_signed_def)
  qed
qed simp

lemma rescale_up:
  "s \<le> t \<Longrightarrow> rescale v s t =
   (if t - s \<le> 38 then checked_signed 128 (v * 10 ^ nat (t - s)) else None)"
  by (auto simp: rescale_def scale_by_power_def power_of_ten_eq)

lemma rescale_Some:
  assumes "s \<le> t" and "rescale v s t = Some v'"
  shows "v' = v * 10 ^ nat (t - s)" and "dec v' t = dec v s"
proof -
  show "v' = v * 10 ^ nat (t - s)"
    using assms by (simp add: rescale_up checked_signed_def split: if_splits)
  then show "dec v' t = dec v s" using dec_up [OF assms(1)] by simp
qed

lemma small_in_i128: "\<bar>v\<bar> < 10 ^ p \<Longrightarrow> p \<le> 38 \<Longrightarrow> in_signed 128 v"
proof -
  assume "\<bar>v\<bar> < 10 ^ p" and "p \<le> 38"
  moreover have "(10 :: int) ^ p \<le> 10 ^ 38" using \<open>p \<le> 38\<close> by (intro power_increasing) simp_all
  ultimately show ?thesis by (simp add: in_signed_def abs_less_iff)
qed

lemma rescale_fits:
  assumes "s \<le> t" and "t - s \<le> 38" and "\<bar>v\<bar> < 10 ^ p" and "int p + (t - s) \<le> int q" and "q \<le> 38"
  shows "rescale v s t = Some (v * 10 ^ nat (t - s))" and "\<bar>v * 10 ^ nat (t - s)\<bar> < 10 ^ q"
proof -
  have "\<bar>v * 10 ^ nat (t - s)\<bar> < 10 ^ p * 10 ^ nat (t - s)"
    using assms(3) by (simp add: abs_mult)
  also have "\<dots> = 10 ^ (p + nat (t - s))" by (simp add: power_add)
  also have "\<dots> \<le> (10 :: int) ^ q" using assms(1,4) by (intro power_increasing) auto
  finally show fits: "\<bar>v * 10 ^ nat (t - s)\<bar> < 10 ^ q" .
  show "rescale v s t = Some (v * 10 ^ nat (t - s))"
    using assms small_in_i128 [OF fits assms(5)] by (simp add: rescale_up checked_signed_def)
qed

section \<open>The common type of a comparison\<close>

lemma lossless_common_Some:
  assumes "decimal_bounds p1 s1" and "decimal_bounds p2 s2"
    and "lossless_common_decimal (TDecimal128 p1 s1) (TDecimal128 p2 s2) = Inr (Some t)"
  obtains p where "t = TDecimal128 p (max s1 s2)" and "decimal_bounds p (max s1 s2)"
    and "int p = max s1 s2 + max (int p1 - s1) (int p2 - s2)"
proof -
  note b = assms(1,2) [unfolded decimal_bounds_def]
  define q where "q = max s1 s2 + max (int p1 - s1) (int p2 - s2)"
  have q: "q \<le> 38" and t: "t = TDecimal128 (as_u8 (max q 1)) (max s1 s2)"
    using assms(3) by (auto simp: lossless_common_decimal_def Let_def q_def split: if_splits)
  have "1 \<le> q" and "max s1 s2 \<le> q" using b by (auto simp: q_def)
  then have "as_u8 (max q 1) = nat q" using q by (simp add: as_u8_small)
  moreover have "decimal_bounds (nat q) (max s1 s2)"
    using q \<open>1 \<le> q\<close> \<open>max s1 s2 \<le> q\<close> b by (auto simp: decimal_bounds_def)
  ultimately show thesis using that [of "nat q"] t \<open>1 \<le> q\<close> by (simp add: q_def)
qed

lemma common_type_holds:
  assumes "decimal_bounds p1 s1" and "\<bar>v\<bar> < 10 ^ p1" and "decimal_bounds p s"
    and "s1 \<le> s" and "int p1 + (s - s1) \<le> int p"
  obtains d where "decimal_value v s1 p s = Some d" and "dec (d_value d) s = dec v s1"
proof -
  note b = assms(1,3) [unfolded decimal_bounds_def]
  have "s - s1 \<le> 38" and "p \<le> 38" using b by auto
  note fits = rescale_fits [OF assms(4) this(1) assms(2) assms(5) this(2)]
  show thesis
  proof (rule that)
    show "decimal_value v s1 p s =
        Some \<lparr>d_value = v * 10 ^ nat (s - s1), d_precision = p, d_scale = s\<rparr>"
      using fits b by (simp add: decimal_value_def fits_precision_iff)
    show "dec (d_value \<lparr>d_value = v * 10 ^ nat (s - s1), d_precision = p, d_scale = s\<rparr>) s = dec v s1"
      using dec_up [OF assms(4)] by simp
  qed
qed

lemma coerced_comparison:
  assumes "decimal_bounds p1 s1" and "decimal_bounds p2 s2" and "\<bar>v1\<bar> < 10 ^ p1" and "\<bar>v2\<bar> < 10 ^ p2"
    and "lossless_common_decimal (TDecimal128 p1 s1) (TDecimal128 p2 s2) = Inr (Some (TDecimal128 p s))"
  shows "\<exists>d1 d2. decimal_value v1 s1 p s = Some d1 \<and> decimal_value v2 s2 p s = Some d2 \<and>
    fold_compare d1 d2 = cmp (dec v1 s1) (dec v2 s2)"
proof -
  have p: "s = max s1 s2" "decimal_bounds p s" "int p = max s1 s2 + max (int p1 - s1) (int p2 - s2)"
    using lossless_common_Some [OF assms(1,2,5)] by auto
  obtain d1 where "decimal_value v1 s1 p s = Some d1" "dec (d_value d1) s = dec v1 s1"
    using common_type_holds [OF assms(1,3) p(2)] p(1,3) by auto
  moreover obtain d2 where "decimal_value v2 s2 p s = Some d2" "dec (d_value d2) s = dec v2 s2"
    using common_type_holds [OF assms(2,4) p(2)] p(1,3) by auto
  moreover have "fold_compare d1 d2 = cmp (dec (d_value d1) s) (dec (d_value d2) s)"
    by (simp add: fold_compare_def)
  ultimately show ?thesis by simp
qed

end
