(* ===== verification/Decimal_Folding.thy ===== *)
theory Decimal_Folding
  imports Decimal_Correct
begin

text \<open>
  Folded decimal arithmetic against exact arithmetic on rational numbers, and decimal literals: what
  the parser accepts fits its type, and printing then reading gives the value back.
\<close>

section \<open>Exact results\<close>

text \<open>Rounding towards zero, as integer division does.\<close>

definition trunc :: "rat \<Rightarrow> int" where
  "trunc q = (if 0 \<le> q then \<lfloor>q\<rfloor> else - \<lfloor>- q\<rfloor>)"

lemma trunc_neg: "0 \<le> q \<Longrightarrow> trunc (- q) = - \<lfloor>q\<rfloor>"
  by (auto simp: trunc_def)

lemma trunc_divide: "trunc (of_int a / of_int b) = a sdiv b"
proof -
  define q :: rat where "q = of_int \<bar>a\<bar> / of_int \<bar>b\<bar>"
  have q: "0 \<le> q" "\<lfloor>q\<rfloor> = \<bar>a\<bar> div \<bar>b\<bar>" unfolding q_def by (simp_all only: floor_divide_of_int_eq) simp
  show ?thesis
  proof (cases "(a < 0) = (b < 0)")
    case True
    then have "of_int a / of_int b = q" by (auto simp: q_def abs_if)
    moreover have "a sdiv b = \<bar>a\<bar> div \<bar>b\<bar>"
      using True by (auto simp: signed_divide_int_def sgn_if)
    ultimately show ?thesis using q by (simp add: trunc_def)
  next
    case False
    then have "of_int a / of_int b = - q" by (auto simp: q_def abs_if)
    moreover have "a sdiv b = - (\<bar>a\<bar> div \<bar>b\<bar>)"
      using False by (auto simp: signed_divide_int_def sgn_if)
    ultimately show ?thesis using q by (simp add: trunc_neg)
  qed
qed

text \<open>The number each operator should give at a result scale: sums, differences, products and
  remainders are exact, a quotient is cut off at the scale.\<close>

definition exact_result :: "binary_op \<Rightarrow> int \<Rightarrow> rat \<Rightarrow> rat \<Rightarrow> rat" where
  "exact_result op s a b =
     (case op of
        Add \<Rightarrow> a + b
      | Subtract \<Rightarrow> a - b
      | Multiply \<Rightarrow> a * b
      | Divide \<Rightarrow> dec (trunc (a / b * 10 powi s)) s
      | Modulo \<Rightarrow> a - of_int (trunc (a / b)) * b
      | _ \<Rightarrow> 0)"

lemma dec_divide: "dec a s / dec b s = of_int a / of_int b"
  by (simp add: dec_def)

lemma dec_smod: "dec (a smod b) s = dec a s - of_int (trunc (dec a s / dec b s)) * dec b s"
proof -
  have "a smod b = a - (a sdiv b) * b" by (simp only: minus_sdiv_mult_eq_smod)
  then show ?thesis by (simp add: dec_diff dec_scaled dec_divide trunc_divide)
qed

lemma dec_quotient:
  assumes "0 \<le> s + s2 - s1"
  shows "trunc (dec l s1 / dec r s2 * 10 powi s) = (l * 10 ^ nat (s + s2 - s1)) sdiv r"
proof -
  have "dec l s1 / dec r s2 * 10 powi s = of_int l * (10 powi (- s1) / 10 powi (- s2) * 10 powi s) / of_int r"
    by (simp add: dec_def mult.assoc mult.commute)
  also have "10 powi (- s1) / 10 powi (- s2) * 10 powi s = (10 :: rat) powi (- s1 + s2 + s)"
    unfolding power10_add by (simp add: power_int_minus field_simps)
  also have "- s1 + s2 + s = int (nat (s + s2 - s1))" using assms by simp
  finally have "dec l s1 / dec r s2 * 10 powi s = of_int (l * 10 ^ nat (s + s2 - s1)) / of_int r"
    by (simp only: power_int_of_nat of_int_mult of_int_power of_int_numeral)
  then show ?thesis by (simp only: trunc_divide)
qed

section \<open>Folded arithmetic\<close>

text \<open>The value computed before the precision check.\<close>

lemma decimal_arithmetic_Some:
  assumes "decimal_arithmetic l s1 op r s2 (TDecimal128 p s) = Some d" and "1 \<le> p" and "p < 255"
  shows "d_precision d = p" and "d_scale d = s" and "\<bar>d_value d\<bar> < 10 ^ p"
  using assms unfolding decimal_arithmetic_def expr_type.case bind_eq_Some_conv
  by (auto simp: fits_precision_iff split: if_splits)

lemma checked_signed_Some [simp]: "checked_signed w v = Some v' \<longleftrightarrow> v' = v \<and> in_signed w v"
  by (auto simp: checked_signed_def)

lemma folded_value:
  assumes "decimal_bounds p1 s1" and "decimal_bounds p2 s2"
    and "decimal_arithmetic_type (TDecimal128 p1 s1) (TDecimal128 p2 s2) op = Inr (TDecimal128 p s)"
    and "decimal_arithmetic l s1 op r s2 (TDecimal128 p s) = Some d"
  shows "dec (d_value d) s = exact_result op s (dec l s1) (dec r s2)"
proof -
  note b = assms(1,2) [unfolded decimal_bounds_def]
  note run = assms(4) [unfolded decimal_arithmetic_def expr_type.case]
  from assms(1-3) show ?thesis
  proof (cases rule: decimal_arithmetic_type_cases)
    case sum
    then have s: "s1 \<le> s" "s2 \<le> s" by auto
    obtain x y where "rescale l s1 s = Some x" "rescale r s2 s = Some y"
      and "d_value d = (if op = Add then x + y else x - y)"
      using sum(1) run by (auto split: Option.bind_splits if_splits)
    then show ?thesis
      using sum(1) rescale_Some(2) [OF s(1)] rescale_Some(2) [OF s(2)]
      by (auto simp: exact_result_def dec_add dec_diff)
  next
    case product
    then have "d_value d = l * r"
      using run rescale_Some(1) [of s s "l * r"] unfolding product(1) binary_op.case
      by (auto simp: bind_eq_Some_conv split: if_splits)
    then show ?thesis using product by (simp add: exact_result_def dec_mult)
  next
    case quotient
    then have "0 \<le> s + s2 - s1" using b by auto
    moreover from this have "d_value d = (l * 10 ^ nat (s + s2 - s1)) sdiv r"
      using run unfolding quotient(1) binary_op.case scale_by_power_def power_of_ten_eq checked_sdiv_def
      by (auto simp: bind_eq_Some_conv split: if_splits)
    ultimately show ?thesis
      unfolding exact_result_def quotient(1) binary_op.case by (simp only: dec_quotient)
  next
    case remainder
    then have s: "s1 \<le> s" "s2 \<le> s" by auto
    obtain x y where "rescale l s1 s = Some x" "rescale r s2 s = Some y" "d_value d = x smod y"
      using remainder(1) run by (auto simp: checked_srem_def split: Option.bind_splits if_splits)
    then show ?thesis
      using remainder(1) rescale_Some(2) [OF s(1)] rescale_Some(2) [OF s(2)]
      by (simp add: exact_result_def dec_smod)
  qed
qed

lemma in_range_fits:
  assumes "\<bar>v\<bar> < 10 ^ p" and "1 \<le> p" and "p \<le> 38"
  shows "checked_signed 128 v = Some v" and "fits_precision v p"
  using assms small_in_i128 [OF assms(1)] by (simp_all add: fits_precision_iff)

lemma folded_sum_total:
  assumes "decimal_bounds p1 s1" and "decimal_bounds p2 s2" and "\<bar>l\<bar> < 10 ^ p1" and "\<bar>r\<bar> < 10 ^ p2"
    and "op = Add \<or> op = Subtract"
    and p: "p = nat (max s1 s2 + max (int p1 - s1) (int p2 - s2) + 1)" and "p < 38"
  shows "\<exists>d. decimal_arithmetic l s1 op r s2 (TDecimal128 p (max s1 s2)) = Some d"
proof -
  note b = assms(1,2) [unfolded decimal_bounds_def]
  define s q where "s = max s1 s2" and "q = p - 1"
  have "int p = s + max (int p1 - s1) (int p2 - s2) + 1" using b p by (auto simp: s_def)
  moreover have "0 \<le> s" and "0 \<le> max (int p1 - s1) (int p2 - s2)" using b by (auto simp: s_def)
  ultimately have q: "p = Suc q" "int p1 + (s - s1) \<le> int q" "int p2 + (s - s2) \<le> int q" "q \<le> 38"
    using \<open>p < 38\<close> unfolding q_def by linarith+
  have s: "s1 \<le> s" "s2 \<le> s" "s - s1 \<le> 38" "s - s2 \<le> 38" using b by (auto simp: s_def)
  define x y where "x = l * 10 ^ nat (s - s1)" and "y = r * 10 ^ nat (s - s2)"
  have x: "rescale l s1 s = Some x" "\<bar>x\<bar> < 10 ^ q"
    using rescale_fits [OF s(1,3) assms(3) q(2,4)] by (simp_all add: x_def)
  have y: "rescale r s2 s = Some y" "\<bar>y\<bar> < 10 ^ q"
    using rescale_fits [OF s(2,4) assms(4) q(3,4)] by (simp_all add: y_def)
  have "\<bar>x + y\<bar> < 10 ^ p" "\<bar>x - y\<bar> < 10 ^ p" using x(2) y(2) by (simp_all add: q(1))
  then show ?thesis
    using assms(5) x(1) y(1) in_range_fits [of "x + y" p] in_range_fits [of "x - y" p] q(1) \<open>p < 38\<close>
    by (auto simp: decimal_arithmetic_def simp flip: s_def simp del: checked_signed_Some)
qed

lemma folded_product_total:
  assumes "decimal_bounds p1 s1" and "decimal_bounds p2 s2" and "\<bar>l\<bar> < 10 ^ p1" and "\<bar>r\<bar> < 10 ^ p2"
    and "s1 + s2 \<le> 38" and p: "p = p1 + p2 + 1" and "p < 38"
  shows "\<exists>d. decimal_arithmetic l s1 Multiply r s2 (TDecimal128 p (s1 + s2)) = Some d"
proof -
  note b = assms(1,2) [unfolded decimal_bounds_def]
  have "\<bar>l * r\<bar> < 10 ^ p1 * 10 ^ p2"
    using assms(3,4) by (simp add: abs_mult mult_strict_mono)
  also have "\<dots> \<le> 10 ^ p" using p by (simp add: power_add)
  finally have v: "\<bar>l * r\<bar> < 10 ^ p" .
  have "checked_signed 8 (s1 + s2) = Some (s1 + s2)" using assms(5) b by (simp add: in_signed_def)
  moreover have "rescale (l * r) (s1 + s2) (s1 + s2) = Some (l * r)"
    using in_range_fits [OF v] p \<open>p < 38\<close> by (simp add: rescale_up)
  ultimately show ?thesis
    using in_range_fits [OF v] p \<open>p < 38\<close> by (simp add: decimal_arithmetic_def del: checked_signed_Some)
qed

lemma smod_bounds:
  fixes a b :: int
  assumes "b \<noteq> 0"
  shows "\<bar>a smod b\<bar> \<le> \<bar>a\<bar>" and "\<bar>a smod b\<bar> < \<bar>b\<bar>" and "\<bar>a sdiv b\<bar> \<le> \<bar>a\<bar>"
proof -
  have "\<bar>a smod b\<bar> \<le> \<bar>a\<bar> mod \<bar>b\<bar>"
    using assms by (simp add: signed_modulo_int_def abs_mult sgn_if)
  moreover have "\<bar>a\<bar> mod \<bar>b\<bar> < \<bar>b\<bar>" using assms by simp
  moreover have "\<bar>a\<bar> mod \<bar>b\<bar> \<le> \<bar>a\<bar>" by (simp add: zmod_le_nonneg_dividend)
  ultimately show "\<bar>a smod b\<bar> \<le> \<bar>a\<bar>" and "\<bar>a smod b\<bar> < \<bar>b\<bar>" by linarith+
  have "0 \<le> \<bar>a\<bar> div \<bar>b\<bar>" using assms by (simp add: pos_imp_zdiv_nonneg_iff)
  then have "\<bar>a sdiv b\<bar> \<le> \<bar>a\<bar> div \<bar>b\<bar>"
    by (auto simp: signed_divide_int_def abs_mult sgn_if)
  also have "\<dots> \<le> \<bar>a\<bar>" using assms zdiv_mono2 [of "\<bar>a\<bar>" 1 "\<bar>b\<bar>"] by simp
  finally show "\<bar>a sdiv b\<bar> \<le> \<bar>a\<bar>" .
qed

lemma folded_remainder_total:
  assumes "decimal_bounds p1 s1" and "decimal_bounds p2 s2" and "\<bar>l\<bar> < 10 ^ p1" and "\<bar>r\<bar> < 10 ^ p2"
    and s: "s = max s1 s2" and p: "p = nat (min (s + min (int p1 - s1) (int p2 - s2)) 38)"
    and "r \<noteq> 0" and "int p1 + (s - s1) \<le> 38" and "int p2 + (s - s2) \<le> 38"
  shows "\<exists>d. decimal_arithmetic l s1 Modulo r s2 (TDecimal128 p s) = Some d"
proof -
  note b = assms(1,2) [unfolded decimal_bounds_def]
  define q1 q2 where "q1 = nat (int p1 + (s - s1))" and "q2 = nat (int p2 + (s - s2))"
  have le: "s1 \<le> s" "s2 \<le> s" using s by auto
  have q: "int p1 + (s - s1) \<le> int q1" "int p2 + (s - s2) \<le> int q2" "q1 \<le> 38" "q2 \<le> 38"
    using assms(8,9) b le by (auto simp: q1_def q2_def)
  have "s - s1 \<le> 38" "s - s2 \<le> 38" using assms(8,9) b by auto
  define x y where "x = l * 10 ^ nat (s - s1)" and "y = r * 10 ^ nat (s - s2)"
  have x: "rescale l s1 s = Some x" "\<bar>x\<bar> < 10 ^ q1"
    using rescale_fits [OF le(1) \<open>s - s1 \<le> 38\<close> assms(3) q(1,3)] by (simp_all add: x_def)
  have y: "rescale r s2 s = Some y" "\<bar>y\<bar> < 10 ^ q2" "y \<noteq> 0"
    using rescale_fits [OF le(2) \<open>s - s2 \<le> 38\<close> assms(4) q(2,4)] \<open>r \<noteq> 0\<close> by (simp_all add: y_def)
  have "p = min q1 q2" and "1 \<le> p" "p \<le> 38"
    using p assms(8,9) b le by (auto simp: q1_def q2_def)
  then have fits: "\<bar>x smod y\<bar> < 10 ^ p"
    using smod_bounds [OF y(3), of x] x(2) y(2) by (auto simp: min_def)
  have "in_signed 128 (x sdiv y)"
    using small_in_i128 [of "x sdiv y" q1] smod_bounds(3) [OF y(3), of x] x(2) q(3) by simp
  then show ?thesis
    using x(1) y(1,3) \<open>r \<noteq> 0\<close> in_range_fits(2) [OF fits \<open>1 \<le> p\<close> \<open>p \<le> 38\<close>]
    by (simp add: decimal_arithmetic_def checked_srem_def)
qed

lemma folded_total:
  assumes "decimal_bounds p1 s1" and "decimal_bounds p2 s2" and "\<bar>l\<bar> < 10 ^ p1" and "\<bar>r\<bar> < 10 ^ p2"
    and "op = Add \<or> op = Subtract \<or> op = Multiply"
    and "decimal_arithmetic_type (TDecimal128 p1 s1) (TDecimal128 p2 s2) op = Inr (TDecimal128 p s)"
    and "p < 38"
  shows "\<exists>d. decimal_arithmetic l s1 op r s2 (TDecimal128 p s) = Some d"
  using assms(1,2,6)
proof (cases rule: decimal_arithmetic_type_cases)
  case sum
  then have "p = nat (max s1 s2 + max (int p1 - s1) (int p2 - s2) + 1)" "s = max s1 s2"
    using \<open>p < 38\<close> by auto
  then show ?thesis using folded_sum_total [OF assms(1-4) sum(1)] \<open>p < 38\<close> by simp
next
  case product
  then show ?thesis using folded_product_total [OF assms(1-4) product(2)] \<open>p < 38\<close> by simp
qed (use assms(5) in auto)

section \<open>Literals\<close>

lemma dec_value_leading_zeros: "dec_value (dropWhile (\<lambda>c. c = CHR ''0'') s @ t) = dec_value (s @ t)"
  by (induction s) (simp_all add: dec_value_Cons [of "digit_char 0"] zero_char)

text \<open>What the parser accepts fits the type it is given.\<close>

lemma parse_decimal_fits:
  assumes "parse_decimal text = Inr d"
  shows "decimal_bounds (d_precision d) (d_scale d)" and "\<bar>d_value d\<bar> < 10 ^ d_precision d"
proof -
  obtain i f raw where steps:
      "\<not> ((i \<noteq> [] \<and> \<not> list_all is_ascii_digit i) \<or> \<not> list_all is_ascii_digit f)"
      "\<not> (max (saturating_add (length (dropWhile (\<lambda>c. c = CHR ''0'') i)) (length f)) 1 > 38 \<or>
          int (length f) > 38)"
      "(if i @ f = [] then Inr 0 else ok_or (parse_i128 (i @ f)) InvalidArgument) = Inr raw"
      "d = \<lparr>d_value = raw,
         d_precision = max (saturating_add (length (dropWhile (\<lambda>c. c = CHR ''0'') i)) (length f)) 1,
         d_scale = int (length f)\<rparr>"
    using assms
    unfolding parse_decimal_def bindr_eq_Inr ok_or_eq_Inr ensure_eq_Inr split_paired_Ex prod.case
      Let_def sum.inject by blast
  define z where "z = dropWhile (\<lambda>c. c = CHR ''0'') i"
  have p: "max (saturating_add (length z) (length f)) 1 \<le> 38"
    using steps(2) unfolding z_def not_less de_Morgan_disj by blast
  then have exact: "saturating_add (length z) (length f) = length z + length f"
    by (auto simp: saturating_add_def min_def split: if_splits)
  have prec: "d_precision d = max (length z + length f) 1"
    unfolding steps(4) exact [symmetric] by (simp add: z_def)
  show "decimal_bounds (d_precision d) (d_scale d)"
    using p exact unfolding decimal_bounds_def prec by (auto simp: steps(4))
  have "list_all is_ascii_digit (z @ f)"
    using steps(1) unfolding z_def by (auto simp: list_all_iff dest: set_dropWhileD)
  then have "dec_value (i @ f) < 10 ^ (length z + length f)"
    using dec_value_bound [of "z @ f"] dec_value_leading_zeros [of i f] by (simp add: z_def)
  also have "\<dots> \<le> 10 ^ d_precision d" unfolding prec by (intro power_increasing) simp_all
  finally have "int (dec_value (i @ f)) < 10 ^ d_precision d" by (simp add: zless_nat_eq_int_zless)
  moreover have "d_value d = int (dec_value (i @ f))"
    using steps(3) unfolding steps(4) by (auto simp: parse_i128_def result_simps split: if_splits)
  ultimately show "\<bar>d_value d\<bar> < 10 ^ d_precision d" by simp
qed

lemma hd_show_nat: "0 < n \<Longrightarrow> hd (show_nat n) \<noteq> CHR ''0''"
proof (induction n rule: show_nat.induct)
  case (1 n)
  show ?case
  proof (cases "n < 10")
    case True
    then have "digit_char n \<noteq> digit_char 0" using 1(2) digit_value_char [of n] digit_value_char [of 0] by force
    then show ?thesis using True by (subst show_nat.simps) (simp add: zero_char)
  next
    case False
    then show ?thesis using 1(1) show_nat_nonempty [of "n div 10"]
      by (subst show_nat.simps) (simp add: zero_char)
  qed
qed

lemma digit_not_point: "list_all is_ascii_digit s \<Longrightarrow> CHR ''.'' \<notin> set s"
  by (auto simp: list_all_iff is_ascii_digit_def)

lemma digits_zero: "is_ascii_digit (CHR ''0'')"
  by (simp add: zero_char)

text \<open>The text printed for a non-negative value, cut at the point.\<close>

lemma format_decimal_parts:
  assumes "0 < k"
  obtains i f where "format_decimal (int n) (int k) = i @ CHR ''.'' # f"
    and "dec_value (i @ f) = n" and "list_all is_ascii_digit (i @ f)" and "length f = k" and "i \<noteq> []"
    and "length (dropWhile (\<lambda>c. c = CHR ''0'') i) = length (show_nat n) - k"
proof (cases "length (show_nat n) \<le> k")
  case True
  define f where "f = replicate (k - length (show_nat n)) (CHR ''0'') @ show_nat n"
  have digits: "replicate (k + 1 - length (show_nat n)) (CHR ''0'') @ show_nat n = CHR ''0'' # f"
    using True by (simp add: f_def Suc_diff_le)
  have len: "length f = k" using True by (simp add: f_def)
  show thesis
  proof (rule that [of "''0''" f])
    show "format_decimal (int n) (int k) = ''0'' @ CHR ''.'' # f"
      using True assms len unfolding format_decimal_def by (simp add: digits Let_def flip: f_def)
    show "dec_value (''0'' @ f) = n"
      by (simp add: f_def zero_char dec_value_Cons [of "digit_char 0"] dec_value_show)
    show "list_all is_ascii_digit (''0'' @ f)"
      using show_nat_digits [of n] by (auto simp: f_def list_all_iff digits_zero)
  qed (use len True in simp_all)
next
  case False
  define m where "m = length (show_nat n) - k"
  have m: "0 < m" "m \<le> length (show_nat n)" "length (show_nat n) - m = k" using False by (auto simp: m_def)
  have "n \<noteq> 0" using False assms length_show_nat_rec [of n] by (cases "n = 0") simp_all
  then have "dropWhile (\<lambda>c. c = CHR ''0'') (take m (show_nat n)) = take m (show_nat n)"
    using hd_show_nat [of n] m show_nat_nonempty [of n] by (cases "show_nat n"; cases m) auto
  then show thesis
    using that [of "take m (show_nat n)" "drop m (show_nat n)"] m False assms
      show_nat_digits [of n] dec_value_show [of n] show_nat_nonempty [of n]
    by (auto simp: format_decimal_def Let_def simp flip: m_def)
qed

lemma parse_format:
  assumes "0 \<le> v" and "v < 10 ^ 38" and "0 < s" and "s \<le> 38"
  shows "\<exists>p. parse_decimal (format_decimal v s) = Inr \<lparr>d_value = v, d_precision = p, d_scale = s\<rparr>"
proof -
  define n k where "n = nat v" and "k = nat s"
  have v: "v = int n" "s = int k" "0 < k" "k \<le> 38" using assms by (simp_all add: n_def k_def)
  have "n < 10 ^ 38" using assms(1,2) by (simp add: n_def nat_less_iff)
  then have len: "length (show_nat n) \<le> 38" using length_show_nat_iff [of 38 n] by simp
  obtain i f where printed: "format_decimal v s = i @ CHR ''.'' # f"
    and val: "dec_value (i @ f) = n" and digits: "list_all is_ascii_digit (i @ f)"
    and lf: "length f = k" and ne: "i \<noteq> []"
    and li: "length (dropWhile (\<lambda>c. c = CHR ''0'') i) = length (show_nat n) - k"
    using format_decimal_parts [OF v(3), of n] unfolding v by metis
  define p where "p = max (length (show_nat n) - k + k) 1"
  have p: "p \<le> 38" using len v(4) by (auto simp: p_def)
  have sat: "saturating_add (length (show_nat n) - k) k = length (show_nat n) - k + k"
    using p by (simp add: saturating_add_def p_def min_def)
  have "split_once (CHR ''.'') (format_decimal v s) = Some (i, f)"
    unfolding printed split_once_Some using digits digit_not_point [of i] by simp
  moreover have "parse_i128 (i @ f) = Some v"
    using digits val ne assms(1) in_range_fits(1) [of v 38] assms(2) v(1) by (simp add: parse_i128_def)
  ultimately have "parse_decimal (format_decimal v s) =
      Inr \<lparr>d_value = v, d_precision = p, d_scale = s\<rparr>"
    using digits lf li ne v(2,4) p unfolding p_def
    by (simp add: parse_decimal_def Let_def sat)
  then show ?thesis by blast
qed

lemma parse_format_negative:
  assumes "0 < s" and "v < 0"
  shows "parse_decimal (format_decimal v s) = Inl InvalidArgument"
proof -
  define n k where "n = nat (- v)" and "k = nat s"
  have v: "v = - int n" "s = int k" "0 < k" "0 < n" using assms by (simp_all add: n_def k_def)
  obtain i f where printed: "format_decimal (int n) (int k) = i @ CHR ''.'' # f"
    and digits: "list_all is_ascii_digit (i @ f)"
    by (rule format_decimal_parts [OF v(3), of n])
  have "format_decimal v s = CHR ''-'' # format_decimal (int n) (int k)"
    using v by (simp add: format_decimal_def Let_def)
  then have "format_decimal v s = (CHR ''-'' # i) @ CHR ''.'' # f" using printed by simp
  then have "split_once (CHR ''.'') (format_decimal v s) = Some (CHR ''-'' # i, f)"
    unfolding split_once_Some using digits digit_not_point [of i] by simp
  moreover have "\<not> is_ascii_digit (CHR ''-'')" by (simp add: is_ascii_digit_def)
  ultimately show ?thesis by (simp add: parse_decimal_def)
qed

end
