(* ===== verification/Expression_Properties.thy ===== *)
theory Expression_Properties
  imports Like_Correct Decimal_Folding
begin

text \<open>
  The properties of expression evaluation: pattern matching and exact decimals.
\<close>

section \<open>Pattern matching\<close>

text \<open>C10: Matching a value against a pattern, through whichever of the six compiled
  matchers the pattern selects, gives the meaning of the pattern; it fails exactly when the pattern
  ends with its escape character, and never panics.\<close>

theorem like_decides_pattern:
  assumes "str_ok value" and "str_ok pattern"
  shows "like_matches value pattern escape =
    (if pattern_complete escape pattern then Inr (like_spec escape pattern value)
     else Inl InvalidArgument)"
  using assms by (rule like_matches_spec)

text \<open>The pattern \<open>a%\<close> and the value \<open>ab\<close>.\<close>

theorem like_decides_pattern_witness:
  "like_matches [97, 98] [97, 37] None = Inr True"
proof -
  have "like_spec None [37] ([98] @ [])" by (rule like_spec.any) (auto intro: like_spec.empty)
  then have "like_spec None [97, 37] [97, 98]" by (auto intro!: like_spec.literal)
  then show ?thesis
    using like_decides_pattern [of "[97, 98]" "[97, 37]" None]
    by (simp add: str_ok_def str_len_def len_utf8_def)
qed

text \<open>C38: The path for literal patterns, which compiles once, reuses one workspace for
  all rows and skips compilation on columns without values, gives the same rows and the same error
  as the general path on a column that repeats the pattern.\<close>

theorem like_literal_path_agrees:
  assumes "str_ok pattern" and "\<forall>v. Some v \<in> set cells \<longrightarrow> str_ok v"
  shows "like_evaluate_literal (StringArray cells) pattern negated escape =
    like_evaluate (StringArray cells) (StringArray (replicate (length cells) (Some pattern)))
      negated escape"
  using like_evaluate_literal_spec [of pattern cells negated escape]
    like_rows [of pattern cells 0 "length cells" negated escape] assms
  by (simp add: like_evaluate_def)

theorem like_literal_path_agrees_witness:
  "like_evaluate_literal (StringArray [Some [97], None]) [95] True None =
   like_evaluate (StringArray [Some [97], None]) (StringArray [Some [95], Some [95]]) True None"
  using like_literal_path_agrees [of "[95]" "[Some [97], None]" True None]
  by (simp add: str_ok_def str_len_def len_utf8_def)

section \<open>Decimal comparison\<close>

text \<open>C15: The executor's comparison of two decimals of any scales, which compares signs,
  exponents and digit strings, is the comparison of the rational numbers they stand for.\<close>

theorem executor_compares_numbers:
  "compare_decimal_values a s b t = cmp (dec a s) (dec b t)"
  by (rule compare_decimal_values_dec)

text \<open>C13: When the binder finds a lossless common type, casting both operands to it
  succeeds, and the raw comparison of the constant folder then agrees with the executor on the
  original operands.\<close>

theorem coerced_comparison_agrees:
  assumes "decimal_bounds p1 s1" and "decimal_bounds p2 s2" and "\<bar>v1\<bar> < 10 ^ p1" and "\<bar>v2\<bar> < 10 ^ p2"
    and "lossless_common_decimal (TDecimal128 p1 s1) (TDecimal128 p2 s2) = Inr (Some (TDecimal128 p s))"
  shows "\<exists>d1 d2. decimal_value v1 s1 p s = Some d1 \<and> decimal_value v2 s2 p s = Some d2 \<and>
    fold_compare d1 d2 = compare_decimal_values v1 s1 v2 s2"
  unfolding compare_decimal_values_dec by (rule coerced_comparison [OF assms])

text \<open>\<open>1.5\<close> against \<open>12\<close>.\<close>

theorem coerced_comparison_agrees_witness:
  "\<exists>d1 d2. decimal_value 15 1 3 1 = Some d1 \<and> decimal_value 12 0 3 1 = Some d2 \<and>
    fold_compare d1 d2 = compare_decimal_values 15 1 12 0"
  by (rule coerced_comparison_agrees [of 2 1 2 0])
    (simp_all add: decimal_bounds_def lossless_common_decimal_def as_u8_def)

text \<open>C39: Where no lossless common type exists, the binder leaves two scales and the
  constant folder still compares the raw values: it takes \<open>5\<close> and the literal with 37 zeros and a
  \<open>5\<close> after the point for equal, which the executor tells apart.\<close>

theorem folding_ignores_scales:
  "\<exists>left right. decimal_value 5 0 1 0 = Some left
    \<and> parse_decimal (''0.'' @ replicate 37 (CHR ''0'') @ ''5'') = Inr right
    \<and> lossless_common_decimal (TDecimal128 (d_precision left) (d_scale left))
        (TDecimal128 (d_precision right) (d_scale right)) = Inr None
    \<and> fold_equal left right
    \<and> compare_decimal_values (d_value left) (d_scale left) (d_value right) (d_scale right) = Greater"
proof -
  define left right where "left = \<lparr>d_value = 5, d_precision = 1, d_scale = 0\<rparr>"
    and "right = \<lparr>d_value = 5, d_precision = 38, d_scale = 38\<rparr>"
  have "decimal_value 5 0 1 0 = Some left"
    by (simp add: decimal_value_def rescale_up fits_precision_iff left_def checked_signed_def in_signed_def)
  moreover have "parse_decimal (''0.'' @ replicate 37 (CHR ''0'') @ ''5'') = Inr right"
  proof -
    have five: "CHR ''5'' = digit_char 5" by (simp add: digit_char_def char_of_def bit_0)
    have digits: "list_all is_ascii_digit (replicate 37 (CHR ''0'') @ ''5'')"
      by (simp add: list_all_iff digits_zero five)
    have "dec_value ''5'' = 5" by (simp add: dec_value_def five)
    then have "dec_value (''0'' @ replicate 37 (CHR ''0'') @ ''5'') = 5"
      by (simp add: zero_char dec_value_Cons [of "digit_char 0"] del: dec_value_snoc)
    then have "parse_i128 (''0'' @ replicate 37 (CHR ''0'') @ ''5'') = Some 5"
      using digits by (simp add: parse_i128_def digits_zero checked_signed_def in_signed_def)
    then show ?thesis
      using digits by (simp add: parse_decimal_def digits_zero right_def saturating_add_def)
  qed
  moreover have "lossless_common_decimal (TDecimal128 (d_precision left) (d_scale left))
      (TDecimal128 (d_precision right) (d_scale right)) = Inr None"
    by (simp add: lossless_common_decimal_def left_def right_def)
  moreover have "fold_equal left right" by (simp add: fold_equal_def left_def right_def)
  moreover have "compare_decimal_values 5 0 5 38 = Greater"
    by (simp add: compare_decimal_values_def compare_decimal_magnitudes_def cmp_def)
  ultimately show ?thesis
    by (intro exI [of _ left] exI [of _ right]) (simp add: left_def right_def)
qed

section \<open>Decimal arithmetic and literals\<close>





end
