(* ===== verification/Spec2Isabelle.thy ===== *)
theory Spec2Isabelle
  imports Sidecar_Properties Storage_Properties Transaction_Properties Expression_Properties
begin

text \<open>
  A verification library for RustDB, an embedded analytical SQL engine written in Rust.  Paths are
  relative to \<open>src/src/\<close> of the repository.

  \<^bold>\<open>The program.\<close>  A session binds SQL to a plan, the optimizer rewrites the plan, and the executor
  runs it on Arrow batches.  Tables live in a native database directory: Parquet segments grouped
  into table snapshots, delete vectors that mark rows as deleted, predicate sidecars that hold bit-packed
  columns for filtering, numbered catalog generations with a \<open>CURRENT\<close> file that names the
  visible one, and a write-ahead log.  A commit logs its intention, prepares a catalog generation,
  logs the decision, publishes the generation and cleans up; opening a database replays what a
  crash left behind.  Explicit transactions collect their changes in a workspace, show them to their
  own statements through the session catalog, and hand them to one commit.  Readers hold leases on
  snapshots, and a vacuum removes the directories of retired snapshots that no one holds.

  \<^bold>\<open>Shared theories.\<close>  \<open>Prelude\<close> has results, checked and saturating 64-bit arithmetic and
  little-endian bytes; \<open>Native_Error\<close> the error type (\<open>error.rs\<close>); \<open>Decimal\<close> and \<open>Numbered_File\<close>
  decimal file names; \<open>Ordered_Map\<close> the ordered maps of the standard library; \<open>Bitmap\<close> row bitmaps.

  \<^bold>\<open>Predicate sidecars\<close> (\<open>storage/native/segment/predicate_sidecar/\<close>).  \<open>Sidecar_Types\<close> models
  \<open>logical_type.rs\<close>, \<open>Bitpack\<close> the packing loop and the unpacking iterator of \<open>bitpack.rs\<close>,
  \<open>Sidecar_Format\<close> the block layout of \<open>format.rs\<close>, \<open>Sidecar_Codec\<close> encoding, decoding, evaluation
  on encoded bytes and decoding of selected rows.  \<open>Sidecar_Correct\<close>, \<open>Sidecar_Roundtrip\<close> and
  \<open>Sidecar_Select\<close> compare each of them with a reference reading of a block, one cell per row.
  \<open>Sidecar_Properties\<close>: blocks round-trip, evaluation on bytes selects the rows that satisfy the
  predicates, the streaming evaluator agrees with the decoder on arbitrary bytes, and no input makes
  a reader index out of range.

  \<^bold>\<open>Native storage\<close> (\<open>storage/native/\<close>).  \<open>Accounting\<close> models the disk budget (\<open>disk_budget.rs\<close>)
  as an instance of the locale \<open>byte_account\<close>.  \<open>Durable_Io\<close> models the file operations of \<open>io.rs\<close>
  as sequences of system calls with a fault that may strike any of them and the states a crash
  can leave; \<open>Json_Envelope\<close> the checksummed JSON files of \<open>io/json.rs\<close> and the locale
  \<open>sealed_file\<close>, which the \<open>CURRENT\<close> file, the generation files, the log records and the checkpoints
  instantiate.  \<open>Delete_Vector\<close> models \<open>table/delete_vector.rs\<close>, \<open>Catalog_Name\<close> \<open>catalog_name.rs\<close>,
  \<open>Schema_Codec\<close> \<open>schema.rs\<close>, \<open>Catalog_Manifest\<close> \<open>manifest.rs\<close> with its submodules, \<open>Wal_Log\<close>
  \<open>wal.rs\<close> with its submodules, and \<open>Commit_Recovery\<close> the commit protocol of \<open>commit.rs\<close> and the
  recovery of \<open>wal/recovery.rs\<close>.  \<open>Catalog_Correct\<close> and \<open>Wal_Correct\<close> show that reading gives back
  what was written, under faults and crashes.  \<open>Storage_Properties\<close>: after a commit with any
  fault, and after a crash between any two file operations, opening the database finds the old
  or the new catalog as the result of the commit says; the log, the catalog, delete vectors and
  names keep their contracts.  \<open>Storage_Sample\<close> is the small database of the instances.

  \<^bold>\<open>Transactions\<close> (\<open>engine/transaction.rs\<close>, \<open>engine/transaction/workspace.rs\<close>, \<open>catalog.rs\<close>,
  \<open>storage/native/transaction_commit.rs\<close>).  \<open>Table_Snapshot\<close> models table snapshots and write plans,
  \<open>Transaction_Commit\<close> the commit of a set of changes, \<open>Session_Catalog\<close> what a session resolves,
  \<open>Transaction_Workspace\<close> the staging operations, \<open>Snapshot_Lifetime\<close> leases and the vacuum,
  \<open>Transaction_Lifecycle\<close> the handle of a transaction.  \<open>Transaction_Correct\<close> and \<open>Transaction_Durable\<close>
  relate a commit to the catalog it plans and to the files it leaves; \<open>Workspace_Correct\<close> and
  \<open>Workspace_Session\<close> carry an invariant over the statements of a transaction, given as a step
  relation.  \<open>Transaction_Properties\<close>: a commit stores what its result says and what the transaction
  showed, a transaction reads its own writes, its final state tells the stored catalog, readers keep
  their directories over single writes, drops and vacuums; and the cases in which reused names of
  renames, or the leases of a transaction's commit, break this.  \<open>Transaction_Sample\<close> has the instances.

  \<^bold>\<open>Expressions\<close> (\<open>execution/expr/like.rs\<close>, \<open>execution/expr.rs\<close>, \<open>optimizer/constant.rs\<close>,
  \<open>sql/coercion.rs\<close>, \<open>sql/literal.rs\<close>, \<open>sql/expr.rs\<close>).  \<open>Like_Match\<close> models the compilation of
  \<open>LIKE\<close> patterns and its six matchers, and gives patterns a rule-by-rule meaning; \<open>Like_Correct\<close>
  shows that every matcher decides it.  \<open>Exact_Decimal\<close> models decimal literals, types, constant
  folding and comparison; \<open>Decimal_Correct\<close> and \<open>Decimal_Folding\<close> relate them to rational numbers.
  \<open>Expression_Properties\<close>: matching is exact, the literal path equals the general path, decimals
  compare as numbers, folding agrees with the executor wherever a common type exists and not
  elsewhere, folded arithmetic is exact, literals round-trip.

  \<^bold>\<open>Reading the model.\<close>  A \<open>Result\<close> is a sum with the error on the left; an index out of range,
  a failed \<open>expect\<close> and an \<open>unreachable!\<close> are the error \<open>Panic\<close>.  Sizes are natural numbers with
  the source's checked and saturating operations; \<open>i128\<close> values are integers with its checked
  operations; packed values and bitmaps are machine words.  File operations take a fault, and a
  crash state is any state between two system calls.  No definition uses fuel: loops are structural
  recursion or recursion with a decreasing measure, so every function is total.  Strings have at
  most \<open>isize::MAX\<close> bytes, which is the hypothesis \<open>str_ok\<close> of the pattern properties.

  \<^bold>\<open>Parameters.\<close>  Third-party code is an argument of the definitions that call it: the JSON
  serialiser and parser, the SHA-256 digest, the UUIDs that name files and transactions, Arrow's
  schema codec and its check of decimal metadata.  What a transaction meets outside the modelled
  components is also an argument: the measurement of stored bytes against the quota, the table
  providers of the engine, which leases readers still hold, and whether the removal of a
  directory succeeds.  The properties state what they assume of them, and their instances give
  concrete functions.

  \<^bold>\<open>Not modelled.\<close>  SQL binding and planning work on the syntax trees of the \<open>sqlparser\<close> crate;
  the plan rewrites of the optimizer and the vectorised operators of the executor are defined over
  Arrow arrays and kernels, data sources over the \<open>parquet\<close> and \<open>object_store\<close> crates; the runtime
  depends on the scheduling of \<open>tokio\<close>.  Segment files and their Parquet metadata, directory
  traversal, file locks, migration, backup and remote storage, floating-point folding, HTTP
  serving, configuration and the binaries are left out for the same reasons.  Symbolic links, file
  modes and the texts of messages are not represented.
\<close>

end
